(* ===== verification/Prelude.thy ===== *)
theory Prelude
  imports Main "HOL-Library.Word" "HOL-Library.List_Lexorder"
begin

text \<open>
  Shared vocabulary of the development: the machine integers of the Rust sources, the three-way
  outcome of a fallible Rust function (value, error, panic), slices and their checked accesses,
  big-endian byte conversions, and the generic list lemmas the component theories use.
\<close>

unbundle bit_operations_syntax

section \<open>Machine integers\<close>

type_synonym u8 = "8 word"
type_synonym u16 = "16 word"
type_synonym u32 = "32 word"
type_synonym u64 = "64 word"
type_synonym i64 = "64 word"
type_synonym bytes = "u8 list"

text \<open>
  A signed integer of the sources is kept as a word and read with \<^const>\<open>sint\<close>. A \<^verbatim>\<open>usize\<close> is a
  \<^typ>\<open>nat\<close>: every position and length below is bounded by the length of a buffer in memory,
  which Rust bounds by \<^verbatim>\<open>isize::MAX\<close>; where the sources do arithmetic that could leave that range
  (checked additions, casts), the definitions write the bound out.
\<close>

definition i64_min :: int where "i64_min = - (2 ^ 63)"
definition i64_max :: int where "i64_max = 2 ^ 63 - 1"

lemma sint_i64_bounds: "i64_min \<le> sint (w :: i64)" "sint (w :: i64) \<le> i64_max"
  using sint_greater_eq [of w] sint_less [of w] by (simp_all add: i64_min_def i64_max_def)

lemma sint_of_int_i64:
  assumes "i64_min \<le> n" "n \<le> i64_max"
  shows "sint (word_of_int n :: i64) = n"
  using assms by (simp add: sint_sbintrunc' i64_min_def i64_max_def signed_take_bit_int_eq_self)

section \<open>Outcomes of fallible functions\<close>

text \<open>
  \<^verbatim>\<open>Result<T, E>\<close> together with the third possibility the language adds, a panic (an out-of-range
  slice, an \<^verbatim>\<open>unwrap\<close> of \<^verbatim>\<open>None\<close>). Panic freedom is then a theorem and not an assumption.
\<close>

datatype ('e, 'a) outcome = Ok 'a | Err 'e | Panic

text \<open>Rust's \<^verbatim>\<open>?\<close> operator: continue with the value, return early otherwise.\<close>

fun and_then :: "('e, 'a) outcome \<Rightarrow> ('a \<Rightarrow> ('e, 'b) outcome) \<Rightarrow> ('e, 'b) outcome" where
  "and_then (Ok x) f = f x"
| "and_then (Err e) f = Err e"
| "and_then Panic f = Panic"

lemma and_then_cong [fundef_cong]:
  "r = r' \<Longrightarrow> (\<And>x. r' = Ok x \<Longrightarrow> f x = g x) \<Longrightarrow> and_then r f = and_then r' g"
  by (cases r') auto

lemma and_then_eq_Ok: "and_then r f = Ok y \<longleftrightarrow> (\<exists>x. r = Ok x \<and> f x = Ok y)"
  by (cases r) auto

lemma and_then_eq_Err: "and_then r f = Err e \<longleftrightarrow> r = Err e \<or> (\<exists>x. r = Ok x \<and> f x = Err e)"
  by (cases r) auto

lemma and_then_eq_Panic: "and_then r f = Panic \<longleftrightarrow> r = Panic \<or> (\<exists>x. r = Ok x \<and> f x = Panic)"
  by (cases r) auto

lemmas and_then_eqs = and_then_eq_Ok and_then_eq_Err and_then_eq_Panic

fun ok_or :: "'e \<Rightarrow> 'a option \<Rightarrow> ('e, 'a) outcome" where
  "ok_or e None = Err e"
| "ok_or e (Some x) = Ok x"

lemma ok_or_eqs [simp]:
  "ok_or e r = Ok y \<longleftrightarrow> r = Some y"
  "ok_or e r = Err e' \<longleftrightarrow> r = None \<and> e' = e"
  "ok_or e r \<noteq> Panic"
  by (cases r; auto)+

section \<open>Slices\<close>

text \<open>\<^verbatim>\<open>xs.get(i)\<close>, the indexing \<^verbatim>\<open>xs[i]\<close> and the range \<^verbatim>\<open>xs[a..b]\<close>, which panic out of range.\<close>

definition get_at :: "'a list \<Rightarrow> nat \<Rightarrow> 'a option" where
  "get_at xs i = (if i < length xs then Some (xs ! i) else None)"

definition slice :: "'a list \<Rightarrow> nat \<Rightarrow> nat \<Rightarrow> 'a list" where
  "slice xs a b = take (b - a) (drop a xs)"

definition slice_range :: "'a list \<Rightarrow> nat \<Rightarrow> nat \<Rightarrow> ('e, 'a list) outcome" where
  "slice_range xs a b = (if a \<le> b \<and> b \<le> length xs then Ok (slice xs a b) else Panic)"

lemma get_at_Some [simp]: "get_at xs i = Some x \<longleftrightarrow> i < length xs \<and> x = xs ! i"
  by (auto simp: get_at_def)

lemma get_at_None [simp]: "get_at xs i = None \<longleftrightarrow> length xs \<le> i"
  by (auto simp: get_at_def)

lemma length_slice [simp]: "length (slice xs a b) = min (b - a) (length xs - a)"
  by (simp add: slice_def)

lemma slice_append_left: "b \<le> length xs \<Longrightarrow> slice (xs @ ys) a b = slice xs a b"
  by (simp add: slice_def)

lemma slice_exact: "slice (xs @ ys @ zs) (length xs) (length xs + length ys) = ys"
  by (simp add: slice_def)

lemma slice_full [simp]: "slice xs 0 (length xs) = xs"
  by (simp add: slice_def)

lemma slice_same [simp]: "slice xs a a = []"
  by (simp add: slice_def)

lemma slice_split: "a \<le> b \<Longrightarrow> b \<le> c \<Longrightarrow> slice xs a c = slice xs a b @ slice xs b c"
proof -
  assume "a \<le> b" and "b \<le> c"
  then have "slice xs a c = take ((b - a) + (c - b)) (drop a xs)"
    by (simp add: slice_def)
  also have "\<dots> = slice xs a b @ take (c - b) (drop (b - a) (drop a xs))"
    by (simp only: take_add slice_def)
  finally show ?thesis using \<open>a \<le> b\<close> by (simp add: slice_def)
qed

lemma slice_Suc: "a < length xs \<Longrightarrow> slice xs a (Suc a) = [xs ! a]"
  by (simp add: slice_def take_Suc_conv_app_nth hd_drop_conv_nth Suc_diff_le)

text \<open>\<^verbatim>\<open>iter().position(p)\<close>: the index of the first element that satisfies the predicate.\<close>

fun position :: "('a \<Rightarrow> bool) \<Rightarrow> 'a list \<Rightarrow> nat option" where
  "position p [] = None"
| "position p (x # xs) = (if p x then Some 0 else map_option Suc (position p xs))"

lemma position_Some_iff:
  "position p xs = Some i \<longleftrightarrow> i < length xs \<and> p (xs ! i) \<and> (\<forall>j < i. \<not> p (xs ! j))"
proof (induction xs arbitrary: i)
  case (Cons x xs)
  show ?case
    by (cases i) (auto simp: Cons.IH less_Suc_eq_0_disj)
qed simp

lemma position_None_iff: "position p xs = None \<longleftrightarrow> (\<forall>x \<in> set xs. \<not> p x)"
  by (induction xs) auto

lemma position_append_skip:
  "(\<forall>x \<in> set xs. \<not> p x) \<Longrightarrow> p y \<Longrightarrow> position p (xs @ y # ys) = Some (length xs)"
  by (induction xs) auto

end
