(* ===== verification/Ordered_Map.thy ===== *)
theory Ordered_Map
  imports Prelude
begin

text \<open>
  The standard library's \<^verbatim>\<open>BTreeMap\<close> as the sources use it: an association list kept strictly
  ascending by key, so that iteration, the last key and the lookup are those of the ordered map.
\<close>

type_synonym ('k, 'v) btree_map = "('k \<times> 'v) list"

definition btm_wf :: "('k::linorder, 'v) btree_map \<Rightarrow> bool" where
  "btm_wf m = sorted_wrt (<) (map fst m)"

fun btm_insert :: "'k::linorder \<Rightarrow> 'v \<Rightarrow> ('k, 'v) btree_map \<Rightarrow> ('k, 'v) btree_map" where
  "btm_insert k v [] = [(k, v)]"
| "btm_insert k v (e # m) =
     (if k = fst e then (k, v) # m
      else if k < fst e then (k, v) # e # m
      else e # btm_insert k v m)"

definition btm_get :: "('k, 'v) btree_map \<Rightarrow> 'k \<Rightarrow> 'v option" where
  "btm_get m k = map_of m k"

definition btm_remove :: "'k \<Rightarrow> ('k, 'v) btree_map \<Rightarrow> ('k, 'v) btree_map" where
  "btm_remove k m = filter (\<lambda>e. fst e \<noteq> k) m"

definition btm_last_key :: "('k, 'v) btree_map \<Rightarrow> 'k option" where
  "btm_last_key m = (if m = [] then None else Some (fst (last m)))"

lemma btm_wf_Nil [simp]: "btm_wf []"
  by (simp add: btm_wf_def)

lemma btm_wf_Cons [simp]:
  "btm_wf (e # m) \<longleftrightarrow> (\<forall>e' \<in> set m. fst e < fst e') \<and> btm_wf m"
  by (auto simp: btm_wf_def)

lemma btm_wf_distinct: "btm_wf m \<Longrightarrow> distinct (map fst m)"
  by (induction m) auto

lemma keys_btm_insert: "fst ` set (btm_insert k v m) = insert k (fst ` set m)"
  by (induction m) auto

lemma btm_get_insert: "btm_get (btm_insert k v m) k' = (if k' = k then Some v else btm_get m k')"
  by (induction m) (auto simp: btm_get_def)

lemma btm_wf_insert: "btm_wf m \<Longrightarrow> btm_wf (btm_insert k v m)"
proof (induction m)
  case (Cons e m)
  have "\<forall>e' \<in> set (btm_insert k v m). fst e < fst e'" if "fst e < k"
  proof
    fix e' assume "e' \<in> set (btm_insert k v m)"
    then have "fst e' \<in> insert k (fst ` set m)"
      using keys_btm_insert [of k v m] by blast
    then show "fst e < fst e'" using that Cons.prems by auto
  qed
  with Cons show ?case by fastforce
qed simp

lemma btm_get_remove: "btm_get (btm_remove k m) k' = (if k' = k then None else btm_get m k')"
  by (induction m) (auto simp: btm_get_def btm_remove_def)

lemma btm_wf_remove: "btm_wf m \<Longrightarrow> btm_wf (btm_remove k m)"
  by (induction m) (auto simp: btm_remove_def)

lemma btm_get_None: "btm_get m k = None \<longleftrightarrow> k \<notin> fst ` set m"
  by (simp add: btm_get_def map_of_eq_None_iff)

lemma btm_get_Some_mem: "btm_get m k = Some v \<Longrightarrow> (k, v) \<in> set m"
  by (simp add: btm_get_def map_of_SomeD)

text \<open>A fresh key above all keys goes to the end: the case of a decoder that reads keys in order.\<close>

lemma btm_insert_last:
  "(\<forall>e \<in> set m. fst e < k) \<Longrightarrow> btm_insert k v m = m @ [(k, v)]"
  by (induction m) auto

lemma btm_last_key_bound:
  assumes "btm_wf m" and "btm_last_key m = Some k" and "e \<in> set m"
  shows "fst e \<le> k"
  using assms
proof (induction m)
  case (Cons x m)
  then show ?case
    by (cases "m = []") (fastforce simp: btm_last_key_def less_imp_le)+
qed (simp add: btm_last_key_def)

lemma set_btm_insert_subset: "set (btm_insert k v m) \<subseteq> insert (k, v) (set m)"
  by (induction m) auto

lemma ball_btm_insert:
  "Q (k, v) \<Longrightarrow> \<forall>e \<in> set m. Q e \<Longrightarrow> \<forall>e \<in> set (btm_insert k v m). Q e"
  using set_btm_insert_subset [of k v m] by blast

text \<open>Two ordered maps with the same entries are the same list.\<close>

lemma btm_wf_set_eq: "btm_wf m \<Longrightarrow> btm_wf m' \<Longrightarrow> set m = set m' \<Longrightarrow> m = m'"
proof (induction m arbitrary: m')
  case Nil
  then show ?case by simp
next
  case (Cons e m)
  then obtain e' m'' where m': "m' = e' # m''"
    by (cases m') auto
  have "e = e'"
  proof (rule ccontr)
    assume "e \<noteq> e'"
    with Cons.prems m' have "e \<in> set m''" and "e' \<in> set m"
      by auto
    with Cons.prems m' have "fst e' < fst e" and "fst e < fst e'"
      by auto
    then show False by simp
  qed
  moreover have "set m = set m''"
  proof -
    have "e \<notin> set m" and "e \<notin> set m''"
      using Cons.prems m' \<open>e = e'\<close> by auto
    then show ?thesis
      using Cons.prems(3) m' \<open>e = e'\<close> by auto
  qed
  ultimately show ?case
    using Cons m' by auto
qed

section \<open>The dictionary interface\<close>

text \<open>
  The trait \<^verbatim>\<open>BDictAccess\<close> (\<^verbatim>\<open>packages/bencode/src/access/dict.rs\<close>) as a contract: what the users
  of a bencode dictionary (the conversion helpers, the message builders) rely on.
\<close>

locale bdict_access =
  fixes to_list :: "'d \<Rightarrow> ('k \<times> 'v) list"
    and lookup :: "'d \<Rightarrow> 'k \<Rightarrow> 'v option"
    and insert_entry :: "'k \<Rightarrow> 'v \<Rightarrow> 'd \<Rightarrow> 'd \<times> 'v option"
    and remove_entry :: "'k \<Rightarrow> 'd \<Rightarrow> 'd \<times> 'v option"
    and wf :: "'d \<Rightarrow> bool"
  assumes lookup_to_list: "wf d \<Longrightarrow> lookup d k = map_of (to_list d) k"
    and to_list_distinct: "wf d \<Longrightarrow> distinct (map fst (to_list d))"
    and insert_lookup: "wf d \<Longrightarrow>
      lookup (fst (insert_entry k v d)) = (lookup d)(k \<mapsto> v)"
    and insert_old: "wf d \<Longrightarrow> snd (insert_entry k v d) = lookup d k"
    and remove_lookup: "wf d \<Longrightarrow> lookup (fst (remove_entry k d)) = (lookup d)(k := None)"
    and remove_old: "wf d \<Longrightarrow> snd (remove_entry k d) = lookup d k"
    and insert_wf: "wf d \<Longrightarrow> wf (fst (insert_entry k v d))"
    and remove_wf: "wf d \<Longrightarrow> wf (fst (remove_entry k d))"
begin

lemma lookup_iff_mem: "wf d \<Longrightarrow> lookup d k = Some v \<longleftrightarrow> (k, v) \<in> set (to_list d)"
  by (simp add: lookup_to_list to_list_distinct)

lemma entries_insert:
  assumes "wf d"
  shows "set (to_list (fst (insert_entry k v d))) =
    insert (k, v) {e \<in> set (to_list d). fst e \<noteq> k}"
proof -
  have "(k', v') \<in> set (to_list (fst (insert_entry k v d))) \<longleftrightarrow>
      (k', v') \<in> insert (k, v) {e \<in> set (to_list d). fst e \<noteq> k}" for k' v'
    using assms by (auto simp: lookup_iff_mem [symmetric] insert_wf insert_lookup split: if_splits)
  then show ?thesis by auto
qed

lemma remove_after_insert:
  assumes "wf d" and "lookup d k = None"
  shows "lookup (fst (remove_entry k (fst (insert_entry k v d)))) = lookup d"
    and "snd (remove_entry k (fst (insert_entry k v d))) = Some v"
  using assms by (auto simp: remove_lookup insert_lookup insert_wf remove_old)

lemma length_insert:
  assumes "wf d"
  shows "length (to_list (fst (insert_entry k v d))) =
    (if lookup d k = None then Suc (length (to_list d)) else length (to_list d))"
proof -
  have len: "wf x \<Longrightarrow> length (to_list x) = card (dom (lookup x))" for x
  proof -
    assume x: "wf x"
    then have "lookup x = map_of (to_list x)"
      by (simp add: lookup_to_list fun_eq_iff)
    then have "dom (lookup x) = fst ` set (to_list x)"
      by (simp add: dom_map_of_conv_image_fst)
    then show ?thesis
      using to_list_distinct [OF x] distinct_card [of "map fst (to_list x)"] by simp
  qed
  have "lookup d = map_of (to_list d)"
    using assms by (simp add: lookup_to_list fun_eq_iff)
  then have fin: "finite (dom (lookup d))"
    by (simp add: finite_dom_map_of)
  show ?thesis
    using fin by (auto simp: len assms insert_wf insert_lookup card_insert_if insert_absorb domIff)
qed

end

definition btm_insert_entry ::
  "'k::linorder \<Rightarrow> 'v \<Rightarrow> ('k, 'v) btree_map \<Rightarrow> ('k, 'v) btree_map \<times> 'v option" where
  "btm_insert_entry k v m = (btm_insert k v m, btm_get m k)"

definition btm_remove_entry ::
  "'k::linorder \<Rightarrow> ('k, 'v) btree_map \<Rightarrow> ('k, 'v) btree_map \<times> 'v option" where
  "btm_remove_entry k m = (btm_remove k m, btm_get m k)"

interpretation btree: bdict_access "\<lambda>m. m" btm_get btm_insert_entry btm_remove_entry btm_wf
  by unfold_locales
    (auto simp: btm_insert_entry_def btm_remove_entry_def btm_wf_distinct btm_wf_insert
      btm_wf_remove btm_get_insert btm_get_remove fun_eq_iff, simp add: btm_get_def)

end
