(* ===== verification/Std_Text.thy ===== *)
theory Std_Text
  imports Prelude "HOL-Library.Char_ord"
begin

text \<open>
  The text routines of the standard library the sources call: UTF-8 validation
  (\<^verbatim>\<open>str::from_utf8\<close>), decimal rendering (\<^verbatim>\<open>to_string\<close>) and decimal parsing of an \<^verbatim>\<open>i64\<close>
  (\<^verbatim>\<open>str::parse::<i64>\<close>), with the round trip between the two.
\<close>

text \<open>The bytes of an ASCII literal of the sources, \<^verbatim>\<open>b"..."\<close>.\<close>

definition ascii :: "string \<Rightarrow> bytes" where
  "ascii s = map (\<lambda>c. of_nat (of_char c)) s"

section \<open>UTF-8\<close>

definition utf8_cont :: "u8 \<Rightarrow> bool" where
  "utf8_cont b \<longleftrightarrow> 0x80 \<le> b \<and> b \<le> 0xBF"

fun from_utf8 :: "bytes \<Rightarrow> bool" where
  "from_utf8 [] = True"
| "from_utf8 (b # bs) =
    (if b < 0x80 then from_utf8 bs
     else case bs of
       [] \<Rightarrow> False
     | c # cs \<Rightarrow>
        if 0xC2 \<le> b \<and> b \<le> 0xDF then utf8_cont c \<and> from_utf8 cs
        else case cs of
          [] \<Rightarrow> False
        | d # ds \<Rightarrow>
           if 0xE0 \<le> b \<and> b \<le> 0xEF then
             (if b = 0xE0 then 0xA0 \<le> c \<and> c \<le> 0xBF
              else if b = 0xED then 0x80 \<le> c \<and> c \<le> 0x9F
              else utf8_cont c) \<and> utf8_cont d \<and> from_utf8 ds
           else case ds of
             [] \<Rightarrow> False
           | e # es \<Rightarrow>
              0xF0 \<le> b \<and> b \<le> 0xF4 \<and>
              (if b = 0xF0 then 0x90 \<le> c \<and> c \<le> 0xBF
               else if b = 0xF4 then 0x80 \<le> c \<and> c \<le> 0x8F
               else utf8_cont c) \<and> utf8_cont d \<and> utf8_cont e \<and> from_utf8 es)"

lemma from_utf8_ascii: "(\<forall>b \<in> set bs. b < 0x80) \<Longrightarrow> from_utf8 bs"
  by (induction bs) simp_all

section \<open>Decimal numbers\<close>

definition is_digit :: "u8 \<Rightarrow> bool" where
  "is_digit b \<longleftrightarrow> 48 \<le> b \<and> b \<le> 57"

definition digit_byte :: "nat \<Rightarrow> u8" where
  "digit_byte d = of_nat (48 + d)"

definition digit_val :: "u8 \<Rightarrow> nat" where
  "digit_val b = unat b - 48"

fun dec_string :: "nat \<Rightarrow> bytes" where
  "dec_string n = (if n < 10 then [digit_byte n] else dec_string (n div 10) @ [digit_byte (n mod 10)])"

declare dec_string.simps [simp del]

definition i64_to_string :: "i64 \<Rightarrow> bytes" where
  "i64_to_string w =
    (if sint w < 0 then 45 # dec_string (nat (- sint w)) else dec_string (nat (sint w)))"

fun parse_digits :: "nat \<Rightarrow> bytes \<Rightarrow> nat option" where
  "parse_digits acc [] = Some acc"
| "parse_digits acc (b # bs) =
    (if is_digit b then parse_digits (acc * 10 + digit_val b) bs else None)"

definition parse_magnitude :: "bytes \<Rightarrow> nat option" where
  "parse_magnitude bs = (if bs = [] then None else parse_digits 0 bs)"

definition to_i64 :: "int \<Rightarrow> i64 option" where
  "to_i64 n = (if i64_min \<le> n \<and> n \<le> i64_max then Some (word_of_int n) else None)"

definition parse_i64 :: "bytes \<Rightarrow> i64 option" where
  "parse_i64 s =
    (case s of
       [] \<Rightarrow> None
     | b # bs \<Rightarrow>
        if b = 45 then Option.bind (parse_magnitude bs) (\<lambda>n. to_i64 (- int n))
        else if b = 43 then Option.bind (parse_magnitude bs) (\<lambda>n. to_i64 (int n))
        else Option.bind (parse_magnitude (b # bs)) (\<lambda>n. to_i64 (int n)))"

lemma unat_digit_byte: "d < 10 \<Longrightarrow> unat (digit_byte d) = 48 + d"
  by (simp add: digit_byte_def unat_of_nat del: of_nat_add)

lemma digit_byte_is_digit: "d < 10 \<Longrightarrow> is_digit (digit_byte d)"
  by (simp add: is_digit_def word_le_nat_alt unat_digit_byte)

lemma digit_val_digit_byte: "d < 10 \<Longrightarrow> digit_val (digit_byte d) = d"
  by (simp add: digit_val_def unat_digit_byte)

lemma is_digit_unat: "is_digit b \<longleftrightarrow> 48 \<le> unat b \<and> unat b \<le> 57"
  by (simp add: is_digit_def word_le_nat_alt)

lemma is_digit_ascii: "is_digit b \<Longrightarrow> b < 0x80"
  by (simp add: is_digit_unat word_less_nat_alt)

lemma digit_byte_inverse: "is_digit b \<Longrightarrow> digit_byte (digit_val b) = b"
  by (simp add: is_digit_unat digit_byte_def digit_val_def)

lemma dec_string_not_Nil [simp]: "dec_string n \<noteq> []"
  by (subst dec_string.simps) simp

lemma dec_string_digits: "\<forall>b \<in> set (dec_string n). is_digit b"
proof (induction n rule: dec_string.induct)
  case (1 n)
  then show ?case
    by (subst dec_string.simps) (auto simp: digit_byte_is_digit)
qed

lemma parse_digits_append:
  "parse_digits acc (xs @ ys) = Option.bind (parse_digits acc xs) (\<lambda>a. parse_digits a ys)"
  by (induction xs arbitrary: acc) auto

lemma parse_dec_string: "parse_digits 0 (dec_string n) = Some n"
proof (induction n rule: dec_string.induct)
  case (1 n)
  show ?case
  proof (cases "n < 10")
    case True
    then show ?thesis
      by (subst dec_string.simps) (simp add: digit_byte_is_digit digit_val_digit_byte)
  next
    case False
    with "1.IH" have "parse_digits 0 (dec_string (n div 10)) = Some (n div 10)"
      by simp
    with False show ?thesis
      by (subst dec_string.simps)
        (simp add: parse_digits_append digit_byte_is_digit digit_val_digit_byte)
  qed
qed

lemma parse_magnitude_dec_string: "parse_magnitude (dec_string n) = Some n"
  by (simp add: parse_magnitude_def parse_dec_string)

lemma dec_string_hd_digit: "is_digit (hd (dec_string n))"
  using dec_string_digits [of n] by (cases "dec_string n") auto

lemma dec_string_hd_not_sign: "hd (dec_string n) \<noteq> 45" "hd (dec_string n) \<noteq> 43"
  using dec_string_hd_digit [of n] by (auto simp: is_digit_def)

text \<open>No leading zero: a rendering starts with \<^verbatim>\<open>0\<close> only for the number zero.\<close>

lemma dec_string_hd_zero: "hd (dec_string n) = 48 \<longleftrightarrow> n = 0"
proof (induction n rule: dec_string.induct)
  case (1 n)
  show ?case
  proof (cases "n < 10")
    case True
    have "digit_byte n = 48 \<longleftrightarrow> n = 0"
    proof
      assume "digit_byte n = 48"
      then have "unat (digit_byte n) = 48" by simp
      then show "n = 0" using True by (simp add: unat_digit_byte)
    qed (simp add: digit_byte_def)
    with True show ?thesis by (subst dec_string.simps) simp
  next
    case False
    then have "n div 10 \<noteq> 0" by (simp add: div_eq_0_iff)
    with False "1.IH" show ?thesis by (subst dec_string.simps) (simp add: hd_append)
  qed
qed

lemma dec_string_single_zero: "dec_string 0 = [48]"
  by (subst dec_string.simps) (simp add: digit_byte_def)

text \<open>Parsing what the library printed gives the number back, for every \<^verbatim>\<open>i64\<close>.\<close>

lemma to_i64_sint: "to_i64 (sint w) = Some w"
  using sint_i64_bounds [of w] by (simp add: to_i64_def)

lemma to_i64_SomeD: "to_i64 x = Some n \<Longrightarrow> sint n = x"
  unfolding to_i64_def by (metis option.distinct(1) option.inject sint_of_int_i64)

lemma parse_i64_to_string: "parse_i64 (i64_to_string w) = Some w"
proof (cases "sint w < 0")
  case True
  then show ?thesis
    by (simp add: parse_i64_def i64_to_string_def parse_magnitude_dec_string to_i64_sint)
next
  case False
  obtain b bs where d: "dec_string (nat (sint w)) = b # bs"
    by (cases "dec_string (nat (sint w))") auto
  with dec_string_hd_not_sign [of "nat (sint w)"] have "b \<noteq> 45" "b \<noteq> 43"
    by auto
  moreover have "parse_magnitude (b # bs) = Some (nat (sint w))"
    using parse_magnitude_dec_string [of "nat (sint w)"] by (simp add: d)
  ultimately show ?thesis
    using False by (simp add: parse_i64_def i64_to_string_def d to_i64_sint)
qed

lemma parse_i64_dec_string:
  assumes "int n \<le> i64_max"
  shows "parse_i64 (dec_string n) = Some (of_nat n)"
proof -
  obtain b bs where d: "dec_string n = b # bs"
    by (cases "dec_string n") auto
  with dec_string_hd_not_sign [of n] have "b \<noteq> 45" "b \<noteq> 43"
    by auto
  moreover have "parse_magnitude (b # bs) = Some n"
    using parse_magnitude_dec_string [of n] by (simp add: d)
  moreover have "i64_min \<le> int n" by (simp add: i64_min_def)
  ultimately show ?thesis
    using assms by (simp add: parse_i64_def d to_i64_def)
qed

lemma i64_to_string_ascii: "\<forall>b \<in> set (i64_to_string w). b = 45 \<or> is_digit b"
  using dec_string_digits by (auto simp: i64_to_string_def)

text \<open>The digits of a number are determined by its value once leading zeros are excluded.\<close>

lemma parse_digits_snoc:
  "parse_digits a (bs @ [b]) = Some n \<longleftrightarrow>
    is_digit b \<and> (\<exists>m. parse_digits a bs = Some m \<and> n = m * 10 + digit_val b)"
  by (auto simp: parse_digits_append bind_eq_Some_conv split: if_splits)

lemma dec_string_parse:
  assumes "parse_digits 0 bs = Some n" and "bs \<noteq> []" and "hd bs \<noteq> 48 \<or> length bs = 1"
  shows "dec_string n = bs"
  using assms
proof (induction bs arbitrary: n rule: rev_induct)
  case Nil
  then show ?case by simp
next
  case (snoc b bs)
  then obtain m where b: "is_digit b" and m: "parse_digits 0 bs = Some m"
    and n: "n = m * 10 + digit_val b"
    by (auto simp: parse_digits_snoc)
  have dv: "digit_val b < 10"
    using b by (auto simp: is_digit_unat digit_val_def)
  show ?case
  proof (cases "bs = []")
    case True
    with m n dv b show ?thesis
      by (subst dec_string.simps) (simp add: digit_byte_inverse)
  next
    case False
    then have h: "hd bs \<noteq> 48" using snoc.prems(3) by (auto simp: hd_append)
    then have IH: "dec_string m = bs" using snoc.IH [OF m False] by simp
    then have "m \<noteq> 0" using h dec_string_hd_zero [of m] by auto
    with n dv have "\<not> n < 10" "n div 10 = m" "n mod 10 = digit_val b" by auto
    then show ?thesis
      using IH b by (subst dec_string.simps) (simp add: digit_byte_inverse)
  qed
qed

end
