(* ===== verification/Bencode.thy ===== *)
theory Bencode
  imports Ordered_Map Std_Text
begin

text \<open>
  The package \<^verbatim>\<open>packages/bencode\<close>: the borrowed value \<^verbatim>\<open>BencodeRef\<close> with its decoder
  (\<^verbatim>\<open>reference/decode.rs\<close>), the owned value \<^verbatim>\<open>BencodeMut\<close> with its encoder
  (\<^verbatim>\<open>mutable/encode.rs\<close>) and the read accessors. Positions are byte offsets into the input; the
  borrowed slices of the Rust values are the bytes they point to.
\<close>

section \<open>Data\<close>

text \<open>The marker bytes of \<^verbatim>\<open>lib.rs\<close>.\<close>

definition BEN_END :: u8 where "BEN_END = 101"
definition DICT_START :: u8 where "DICT_START = 100"
definition LIST_START :: u8 where "LIST_START = 108"
definition INT_START :: u8 where "INT_START = 105"
definition BYTE_LEN_LOW :: u8 where "BYTE_LEN_LOW = 48"
definition BYTE_LEN_HIGH :: u8 where "BYTE_LEN_HIGH = 57"
definition BYTE_LEN_END :: u8 where "BYTE_LEN_END = 58"

lemmas marker_defs = BEN_END_def DICT_START_def LIST_START_def INT_START_def
  BYTE_LEN_LOW_def BYTE_LEN_HIGH_def BYTE_LEN_END_def

datatype bencode_parse_error =
    BytesEmpty nat
  | InvalidByte nat
  | InvalidIntNoDelimiter nat
  | InvalidIntNegativeZero nat
  | InvalidIntZeroPadding nat
  | InvalidIntParseError nat
  | InvalidKeyOrdering nat bytes
  | InvalidKeyDuplicates nat bytes
  | InvalidLengthNegative nat
  | InvalidLengthOverflow nat
  | InvalidRecursionExceeded nat nat

type_synonym 'a parse_result = "(bencode_parse_error, 'a) outcome"

record bdecode_opt =
  max_recursion :: nat
  check_key_sort :: bool
  enforce_full_decode :: bool

definition bdecode_opt_default :: bdecode_opt where
  "bdecode_opt_default =
    \<lparr>max_recursion = 50, check_key_sort = False, enforce_full_decode = True\<rparr>"

datatype bencode_ref =
    RefInt i64 bytes
  | RefBytes bytes bytes
  | RefList "bencode_ref list" bytes
  | RefDict "(bytes \<times> bencode_ref) list" bytes

datatype bencode_mut =
    MutInt i64
  | MutBytes bytes
  | MutList "bencode_mut list"
  | MutDict "(bytes \<times> bencode_mut) list"

section \<open>Decoding\<close>

definition peek_byte :: "bytes \<Rightarrow> nat \<Rightarrow> u8 parse_result" where
  "peek_byte bs pos = ok_or (BytesEmpty pos) (get_at bs pos)"

definition decode_int :: "bytes \<Rightarrow> nat \<Rightarrow> u8 \<Rightarrow> (i64 \<times> nat) parse_result" where
  "decode_int bs pos delim =
    (if length bs < pos then Panic
     else let begin_decode = drop pos bs in
       case position (\<lambda>n. n = delim) begin_decode of
         None \<Rightarrow> Err (InvalidIntNoDelimiter pos)
       | Some relative_end_pos \<Rightarrow>
          let int_byte_slice = take relative_end_pos begin_decode in
          if 1 < length int_byte_slice \<and> int_byte_slice ! 0 = 45 \<and> int_byte_slice ! 1 = 48
          then Err (InvalidIntNegativeZero pos)
          else if 1 < length int_byte_slice \<and> int_byte_slice ! 0 = 48
          then Err (InvalidIntZeroPadding pos)
          else if \<not> from_utf8 int_byte_slice then Err (InvalidIntParseError pos)
          else
            let absolute_end_pos = pos + relative_end_pos; next_pos = absolute_end_pos + 1 in
            case parse_i64 int_byte_slice of
              None \<Rightarrow> Err (InvalidIntParseError pos)
            | Some n \<Rightarrow> Ok (n, next_pos))"

definition decode_bytes :: "bytes \<Rightarrow> nat \<Rightarrow> (bytes \<times> nat) parse_result" where
  "decode_bytes bs pos =
    and_then (decode_int bs pos BYTE_LEN_END) (\<lambda>(num_bytes, start_pos).
      if sint num_bytes < 0 then Err (InvalidLengthNegative pos)
      else let num_bytes = nat (sint num_bytes) in
        if length bs < start_pos then Panic
        else if length (drop start_pos bs) < num_bytes then Err (InvalidLengthOverflow pos)
        else let next_pos = start_pos + num_bytes in
          and_then (slice_range bs start_pos next_pos) (\<lambda>s. Ok (s, next_pos)))"

definition key_out_of_order :: "bdecode_opt \<Rightarrow> (bytes, 'v) btree_map \<Rightarrow> bytes \<Rightarrow> bool" where
  "key_out_of_order opts bencode_dict key_bytes =
    (case btm_last_key bencode_dict of
       Some last_key \<Rightarrow> check_key_sort opts \<and> key_bytes < last_key
     | None \<Rightarrow> False)"

text \<open>
  The loops of \<^verbatim>\<open>decode_list\<close> and \<^verbatim>\<open>decode_dict\<close> carry the container built so far; \<^verbatim>\<open>decode\<close> starts
  them with an empty one. A loop goes on at the position its element decoder returned, so the
  recursion is nested in its own result: it ends because a decoder consumes at least one byte.
\<close>

function (sequential) decode ::
    "bytes \<Rightarrow> nat \<Rightarrow> bdecode_opt \<Rightarrow> nat \<Rightarrow> (bencode_ref \<times> nat) parse_result"
  and decode_list ::
    "bytes \<Rightarrow> nat \<Rightarrow> bdecode_opt \<Rightarrow> nat \<Rightarrow> bencode_ref list \<Rightarrow> (bencode_ref list \<times> nat) parse_result"
  and decode_dict ::
    "bytes \<Rightarrow> nat \<Rightarrow> bdecode_opt \<Rightarrow> nat \<Rightarrow> (bytes, bencode_ref) btree_map \<Rightarrow>
      ((bytes, bencode_ref) btree_map \<times> nat) parse_result"
where
  "decode bs pos opts depth =
    (if max_recursion opts \<le> depth then Err (InvalidRecursionExceeded pos depth)
     else and_then (peek_byte bs pos) (\<lambda>curr_byte.
       if curr_byte = INT_START then
         and_then (decode_int bs (pos + 1) BEN_END) (\<lambda>(n, next_pos).
           and_then (slice_range bs pos next_pos) (\<lambda>buf. Ok (RefInt n buf, next_pos)))
       else if curr_byte = LIST_START then
         and_then (decode_list bs (pos + 1) opts depth []) (\<lambda>(xs, next_pos).
           and_then (slice_range bs pos next_pos) (\<lambda>buf. Ok (RefList xs buf, next_pos)))
       else if curr_byte = DICT_START then
         and_then (decode_dict bs (pos + 1) opts depth []) (\<lambda>(m, next_pos).
           and_then (slice_range bs pos next_pos) (\<lambda>buf. Ok (RefDict m buf, next_pos)))
       else if BYTE_LEN_LOW \<le> curr_byte \<and> curr_byte \<le> BYTE_LEN_HIGH then
         and_then (decode_bytes bs pos) (\<lambda>(s, next_pos).
           and_then (slice_range bs pos next_pos) (\<lambda>buf. Ok (RefBytes s buf, next_pos)))
       else Err (InvalidByte pos)))"
| "decode_list bs curr_pos opts depth bencode_list =
    and_then (peek_byte bs curr_pos) (\<lambda>curr_byte.
      if curr_byte = BEN_END then Ok (bencode_list, curr_pos + 1)
      else and_then (decode bs curr_pos opts (depth + 1)) (\<lambda>(bencode, next_pos).
        decode_list bs next_pos opts depth (bencode_list @ [bencode])))"
| "decode_dict bs curr_pos opts depth bencode_dict =
    and_then (peek_byte bs curr_pos) (\<lambda>curr_byte.
      if curr_byte = BEN_END then Ok (bencode_dict, curr_pos + 1)
      else and_then (decode_bytes bs curr_pos) (\<lambda>(key_bytes, value_pos).
        if key_out_of_order opts bencode_dict key_bytes
        then Err (InvalidKeyOrdering curr_pos key_bytes)
        else and_then (decode bs value_pos opts (depth + 1)) (\<lambda>(value, next_pos).
          case btm_get bencode_dict key_bytes of
            None \<Rightarrow> decode_dict bs next_pos opts depth (btm_insert key_bytes value bencode_dict)
          | Some _ \<Rightarrow> Err (InvalidKeyDuplicates value_pos key_bytes))))"
  by pat_completeness auto

lemma peek_byte_Ok: "peek_byte bs pos = Ok b \<longleftrightarrow> pos < length bs \<and> b = bs ! pos"
  by (simp add: peek_byte_def)

lemma decode_int_next:
  assumes "decode_int bs pos delim = Ok (n, next_pos)"
  shows "pos < next_pos \<and> next_pos \<le> length bs"
  using assms
  by (auto simp: decode_int_def Let_def position_Some_iff split: if_splits option.splits)

lemma slice_range_Ok: "slice_range xs a b = Ok s \<longleftrightarrow> a \<le> b \<and> b \<le> length xs \<and> s = slice xs a b"
  by (auto simp: slice_range_def)

lemma decode_bytes_OkE:
  assumes "decode_bytes bs pos = Ok (s, next_pos)"
  obtains n start where "decode_int bs pos BYTE_LEN_END = Ok (n, start)" and "0 \<le> sint n"
    and "start \<le> next_pos" and "next_pos = start + nat (sint n)" and "next_pos \<le> length bs"
    and "s = slice bs start next_pos"
proof -
  from assms obtain n start where d: "decode_int bs pos BYTE_LEN_END = Ok (n, start)"
    and r: "(if sint n < 0 then Err (InvalidLengthNegative pos)
      else let num_bytes = nat (sint n) in
        if length bs < start then Panic
        else if length (drop start bs) < num_bytes then Err (InvalidLengthOverflow pos)
        else let next_pos = start + num_bytes in
          and_then (slice_range bs start next_pos) (\<lambda>s. Ok (s, next_pos))) = Ok (s, next_pos)"
    unfolding decode_bytes_def and_then_eq_Ok by auto
  from r have "0 \<le> sint n" and "next_pos = start + nat (sint n)" and "next_pos \<le> length bs"
    and "s = slice bs start next_pos"
    by (auto simp: Let_def and_then_eq_Ok slice_range_Ok split: if_splits)
  with d show thesis by (intro that [of n start]) auto
qed

lemma decode_bytes_next:
  assumes "decode_bytes bs pos = Ok (s, next_pos)"
  shows "pos < next_pos \<and> next_pos \<le> length bs"
  using assms
proof (rule decode_bytes_OkE)
  fix n start
  assume d: "decode_int bs pos BYTE_LEN_END = Ok (n, start)"
    and s: "start \<le> next_pos" "next_pos \<le> length bs"
  from decode_int_next [OF d] s show ?thesis by simp
qed

lemma decode_progress_partial:
  "decode_decode_list_decode_dict_dom (Inl (bs, pos, opts, depth)) \<Longrightarrow>
     \<forall>v np. decode bs pos opts depth = Ok (v, np) \<longrightarrow> pos < np \<and> np \<le> length bs"
  "decode_decode_list_decode_dict_dom (Inr (Inl (bs, pos, opts, depth, acc))) \<Longrightarrow>
     \<forall>xs np. decode_list bs pos opts depth acc = Ok (xs, np) \<longrightarrow> pos < np \<and> np \<le> length bs"
  "decode_decode_list_decode_dict_dom (Inr (Inr (bs, pos, opts, depth, m))) \<Longrightarrow>
     \<forall>m' np. decode_dict bs pos opts depth m = Ok (m', np) \<longrightarrow> pos < np \<and> np \<le> length bs"
proof (induction bs pos opts depth and bs pos opts depth acc and bs pos opts depth m
    rule: decode_decode_list_decode_dict.pinduct)
  case (1 bs pos opts depth)
  show ?case
  proof (intro allI impI)
    fix v np
    assume "decode bs pos opts depth = Ok (v, np)"
    then show "pos < np \<and> np \<le> length bs"
      using "1.IH"
      by (auto simp: decode.psimps [OF "1.hyps"] and_then_eq_Ok slice_range_Ok
          dest!: decode_int_next decode_bytes_next split: if_splits)
  qed
next
  case (2 bs pos opts depth acc)
  show ?case
  proof (intro allI impI)
    fix xs np
    assume "decode_list bs pos opts depth acc = Ok (xs, np)"
    then consider "pos < length bs" "np = pos + 1"
      | v p where "pos < length bs" "bs ! pos \<noteq> BEN_END"
        "decode bs pos opts (depth + 1) = Ok (v, p)"
        "decode_list bs p opts depth (acc @ [v]) = Ok (xs, np)"
      by (auto simp: decode_list.psimps [OF "2.hyps"] and_then_eq_Ok peek_byte_Ok split: if_splits)
    then show "pos < np \<and> np \<le> length bs"
    proof cases
      case (2 v p)
      with "2.IH"(1) [of "bs ! pos"] have "pos < p"
        by (auto simp: peek_byte_Ok)
      moreover from "2.IH"(2) [of "bs ! pos" "(v, p)" v p] 2 have "p < np \<and> np \<le> length bs"
        by (auto simp: peek_byte_Ok)
      ultimately show ?thesis by simp
    qed simp
  qed
next
  case (3 bs pos opts depth m)
  show ?case
  proof (intro allI impI)
    fix m' np
    assume "decode_dict bs pos opts depth m = Ok (m', np)"
    then consider "pos < length bs" "np = pos + 1"
      | k q v p where "pos < length bs" "bs ! pos \<noteq> BEN_END"
        "decode_bytes bs pos = Ok (k, q)"
        "\<not> key_out_of_order opts m k"
        "decode bs q opts (depth + 1) = Ok (v, p)"
        "btm_get m k = None"
        "decode_dict bs p opts depth (btm_insert k v m) = Ok (m', np)"
      by (auto simp: decode_dict.psimps [OF "3.hyps"] and_then_eq_Ok peek_byte_Ok
          split: if_split_asm option.split_asm)
    then show "pos < np \<and> np \<le> length bs"
    proof cases
      case (2 k q v p)
      have "pos < q" using decode_bytes_next [OF 2(3)] by simp
      moreover from "3.IH"(1) [of "bs ! pos" "(k, q)" k q] 2 have "q < p"
        by (auto simp: peek_byte_Ok)
      moreover from "3.IH"(2) [of "bs ! pos" "(k, q)" k q "(v, p)" v p] 2 have "p < np \<and> np \<le> length bs"
        by (auto simp: peek_byte_Ok)
      ultimately show ?thesis by simp
    qed simp
  qed
qed

lemmas decode_progress_dest = decode_progress_partial(1) [rule_format]

lemma decode_dom_all: "All decode_decode_list_decode_dict_dom"
proof (rule "decode_decode_list_decode_dict.termination"
    [where R = "measure (\<lambda>x. case x of Inl (bs, pos, _) \<Rightarrow> 2 * (length bs - pos)
      | Inr (Inl (bs, pos, _)) \<Rightarrow> 2 * (length bs - pos) + 1
      | Inr (Inr (bs, pos, _)) \<Rightarrow> 2 * (length bs - pos) + 1)"], goal_cases)
  case 1
  show ?case by simp
next
  case 5
  then show ?case by (auto simp: peek_byte_Ok dest: decode_progress_dest)
next
  case 7
  then show ?case
    by (auto simp: peek_byte_Ok dest!: decode_bytes_next decode_progress_dest)
qed (auto simp: peek_byte_Ok dest: decode_bytes_next)

termination decode
  by (rule decode_dom_all)

declare decode.simps [simp del] decode_list.simps [simp del] decode_dict.simps [simp del]

lemmas decode_dom = decode_dom_all [THEN spec]

lemma decode_progress:
  "decode bs pos opts depth = Ok (r, np) \<Longrightarrow> pos < np \<and> np \<le> length bs"
  by (rule decode_progress_partial(1) [OF decode_dom, rule_format])

lemma decode_list_progress:
  "decode_list bs pos opts depth acc = Ok (xs, np) \<Longrightarrow> pos < np \<and> np \<le> length bs"
  by (rule decode_progress_partial(2) [OF decode_dom, rule_format])

lemma decode_dict_progress:
  "decode_dict bs pos opts depth acc = Ok (m, np) \<Longrightarrow> pos < np \<and> np \<le> length bs"
  by (rule decode_progress_partial(3) [OF decode_dom, rule_format])

text \<open>The entry point \<^verbatim>\<open>BencodeRef::decode\<close>.\<close>

definition bencode_ref_decode :: "bytes \<Rightarrow> bdecode_opt \<Rightarrow> bencode_ref parse_result" where
  "bencode_ref_decode bs opts =
    and_then (decode bs 0 opts 0) (\<lambda>(bencode, end_pos).
      if end_pos \<noteq> length bs \<and> enforce_full_decode opts then Err (BytesEmpty end_pos)
      else Ok bencode)"

fun buffer :: "bencode_ref \<Rightarrow> bytes" where
  "buffer (RefInt _ buf) = buf"
| "buffer (RefBytes _ buf) = buf"
| "buffer (RefList _ buf) = buf"
| "buffer (RefDict _ buf) = buf"

section \<open>Encoding\<close>

definition encode_int :: "i64 \<Rightarrow> bytes \<Rightarrow> bytes" where
  "encode_int val bs = ((bs @ [INT_START]) @ i64_to_string val) @ [BEN_END]"

definition encode_bytes :: "bytes \<Rightarrow> bytes \<Rightarrow> bytes" where
  "encode_bytes xs bs = ((bs @ dec_string (length xs)) @ [BYTE_LEN_END]) @ xs"

lemma size_list_sort_key [simp]: "size_list f (sort_key k xs) = size_list f xs"
proof -
  have "size_list f (insort_key k x ys) = size_list f (x # ys)" for x ys
    by (induction ys) auto
  then show ?thesis by (induction xs) (auto simp: sort_key_def)
qed

text \<open>
  \<^verbatim>\<open>encode\<close> appends to the buffer it is given; the two loops are \<^verbatim>\<open>encode_list\<close> and \<^verbatim>\<open>encode_dict\<close>
  after their opening byte. The dictionary is sorted by key before it is written.
\<close>

function (sequential) encode :: "bencode_mut \<Rightarrow> bytes \<Rightarrow> bytes"
  and encode_items :: "bencode_mut list \<Rightarrow> bytes \<Rightarrow> bytes"
  and encode_entries :: "(bytes \<times> bencode_mut) list \<Rightarrow> bytes \<Rightarrow> bytes"
where
  "encode (MutInt n) bs = encode_int n bs"
| "encode (MutBytes n) bs = encode_bytes n bs"
| "encode (MutList n) bs = encode_items n (bs @ [LIST_START]) @ [BEN_END]"
| "encode (MutDict n) bs =
    (let sort_dict = sort_key fst n in encode_entries sort_dict (bs @ [DICT_START]) @ [BEN_END])"
| "encode_items [] bs = bs"
| "encode_items (i # list) bs = encode_items list (encode i bs)"
| "encode_entries [] bs = bs"
| "encode_entries ((key, val) # dict) bs = encode_entries dict (encode val (encode_bytes key bs))"
  by pat_completeness auto
termination encode
  by (relation "measure (\<lambda>x. case x of Inl (b, _) \<Rightarrow> size b
      | Inr (Inl (bs, _)) \<Rightarrow> size_list size bs
      | Inr (Inr (m, _)) \<Rightarrow> size_list (size_prod (\<lambda>_. 0) size) m)") auto

definition bencode_mut_encode :: "bencode_mut \<Rightarrow> bytes" where
  "bencode_mut_encode b = encode b []"

section \<open>Access\<close>

text \<open>
  The traits \<^verbatim>\<open>BRefAccess\<close> and \<^verbatim>\<open>BMutAccess\<close> on both value types. The trait objects behind
  \<^verbatim>\<open>RefKind\<close> are the containers themselves.
\<close>

datatype 'v ref_kind = KindInt i64 | KindBytes bytes | KindList "'v list" | KindDict "(bytes, 'v) btree_map"

fun kind_ref :: "bencode_ref \<Rightarrow> bencode_ref ref_kind" where
  "kind_ref (RefInt n _) = KindInt n"
| "kind_ref (RefBytes n _) = KindBytes n"
| "kind_ref (RefList n _) = KindList n"
| "kind_ref (RefDict n _) = KindDict n"

fun ref_int :: "bencode_ref \<Rightarrow> i64 option" where
  "ref_int (RefInt n _) = Some n"
| "ref_int _ = None"

fun ref_bytes :: "bencode_ref \<Rightarrow> bytes option" where
  "ref_bytes (RefBytes n _) = Some n"
| "ref_bytes _ = None"

definition ref_str :: "bencode_ref \<Rightarrow> bytes option" where
  "ref_str b = Option.bind (ref_bytes b) (\<lambda>bs. if from_utf8 bs then Some bs else None)"

fun ref_list :: "bencode_ref \<Rightarrow> bencode_ref list option" where
  "ref_list (RefList n _) = Some n"
| "ref_list _ = None"

fun ref_dict :: "bencode_ref \<Rightarrow> (bytes, bencode_ref) btree_map option" where
  "ref_dict (RefDict n _) = Some n"
| "ref_dict _ = None"

fun kind_mut :: "bencode_mut \<Rightarrow> bencode_mut ref_kind" where
  "kind_mut (MutInt n) = KindInt n"
| "kind_mut (MutBytes n) = KindBytes n"
| "kind_mut (MutList n) = KindList n"
| "kind_mut (MutDict n) = KindDict n"

fun mut_int :: "bencode_mut \<Rightarrow> i64 option" where
  "mut_int (MutInt n) = Some n"
| "mut_int _ = None"

fun mut_bytes :: "bencode_mut \<Rightarrow> bytes option" where
  "mut_bytes (MutBytes n) = Some n"
| "mut_bytes _ = None"

definition mut_str :: "bencode_mut \<Rightarrow> bytes option" where
  "mut_str b = Option.bind (mut_bytes b) (\<lambda>bs. if from_utf8 bs then Some bs else None)"

fun mut_list :: "bencode_mut \<Rightarrow> bencode_mut list option" where
  "mut_list (MutList n) = Some n"
| "mut_list _ = None"

fun mut_dict :: "bencode_mut \<Rightarrow> (bytes, bencode_mut) btree_map option" where
  "mut_dict (MutDict n) = Some n"
| "mut_dict _ = None"

text \<open>The macro \<^verbatim>\<open>ben_map!\<close>: insert the pairs one after the other into an empty dictionary.\<close>

definition ben_map :: "(bytes \<times> bencode_mut) list \<Rightarrow> bencode_mut" where
  "ben_map kvs = MutDict (fold (\<lambda>(k, v) m. fst (btm_insert_entry k v m)) kvs [])"

definition ben_list :: "bencode_mut list \<Rightarrow> bencode_mut" where
  "ben_list xs = MutList (fold (\<lambda>x l. l @ [x]) xs [])"

text \<open>The contract of \<^verbatim>\<open>BRefAccess\<close>: every typed accessor is the projection of \<^verbatim>\<open>kind\<close>.\<close>

locale bref_access =
  fixes kind :: "'b \<Rightarrow> 'b ref_kind"
    and as_str as_bytes :: "'b \<Rightarrow> bytes option"
    and as_int :: "'b \<Rightarrow> i64 option"
    and as_list :: "'b \<Rightarrow> 'b list option"
    and as_dict :: "'b \<Rightarrow> (bytes, 'b) btree_map option"
  assumes int_kind: "as_int b = Some n \<longleftrightarrow> kind b = KindInt n"
    and bytes_kind: "as_bytes b = Some s \<longleftrightarrow> kind b = KindBytes s"
    and list_kind: "as_list b = Some xs \<longleftrightarrow> kind b = KindList xs"
    and dict_kind: "as_dict b = Some m \<longleftrightarrow> kind b = KindDict m"
    and str_bytes: "as_str b = Some s \<longleftrightarrow> as_bytes b = Some s \<and> from_utf8 s"
begin

lemma exactly_one_view:
  "(as_int b \<noteq> None \<and> as_bytes b = None \<and> as_list b = None \<and> as_dict b = None) \<or>
   (as_int b = None \<and> as_bytes b \<noteq> None \<and> as_list b = None \<and> as_dict b = None) \<or>
   (as_int b = None \<and> as_bytes b = None \<and> as_list b \<noteq> None \<and> as_dict b = None) \<or>
   (as_int b = None \<and> as_bytes b = None \<and> as_list b = None \<and> as_dict b \<noteq> None)"
proof -
  have none: "x = None \<longleftrightarrow> (\<forall>y. x \<noteq> Some y)" for x :: "'x option"
    by (cases x) auto
  show ?thesis
    by (cases "kind b") (simp_all add: none int_kind bytes_kind list_kind dict_kind)
qed

lemma str_None_iff: "as_str b = None \<longleftrightarrow> (\<forall>s. as_bytes b = Some s \<longrightarrow> \<not> from_utf8 s)"
  by (metis not_Some_eq str_bytes)

end

interpretation ref_view: bref_access kind_ref ref_str ref_bytes ref_int ref_list ref_dict
proof (unfold_locales, goal_cases)
  case (1 b n) show ?case by (cases b) auto
next
  case (2 b n) show ?case by (cases b) auto
next
  case (3 b n) show ?case by (cases b) auto
next
  case (4 b n) show ?case by (cases b) auto
next
  case (5 b s) show ?case by (auto simp: ref_str_def bind_eq_Some_conv split: if_splits)
qed

interpretation mut_view: bref_access kind_mut mut_str mut_bytes mut_int mut_list mut_dict
proof (unfold_locales, goal_cases)
  case (1 b n) show ?case by (cases b) auto
next
  case (2 b n) show ?case by (cases b) auto
next
  case (3 b n) show ?case by (cases b) auto
next
  case (4 b n) show ?case by (cases b) auto
next
  case (5 b s) show ?case by (auto simp: mut_str_def bind_eq_Some_conv split: if_splits)
qed

end
