(* ===== verification/Bencode_Correct.thy ===== *)
theory Bencode_Correct
  imports Bencode "HOL-Library.Sublist"
begin

text \<open>
  Correctness of the bencode package: the decoder inverts the encoder, accepts only canonical
  input, never panics, respects the recursion limit, and hands out buffers that are exactly the
  bytes a value was read from.
\<close>

section \<open>Specification vocabulary\<close>

text \<open>The owned value a borrowed value denotes: forget the buffers.\<close>

fun erase :: "bencode_ref \<Rightarrow> bencode_mut" where
  "erase (RefInt n _) = MutInt n"
| "erase (RefBytes s _) = MutBytes s"
| "erase (RefList xs _) = MutList (map erase xs)"
| "erase (RefDict m _) = MutDict (map (\<lambda>e. (fst e, erase (snd e))) m)"

text \<open>
  The values a Rust program can build: dictionaries are \<^verbatim>\<open>BTreeMap\<close>s, and no byte string is longer
  than \<^verbatim>\<open>isize::MAX\<close> (the limit of an allocation).
\<close>

fun wf_mut :: "bencode_mut \<Rightarrow> bool" where
  "wf_mut (MutInt n) = True"
| "wf_mut (MutBytes s) = (int (length s) \<le> i64_max)"
| "wf_mut (MutList xs) = (\<forall>x \<in> set xs. wf_mut x)"
| "wf_mut (MutDict m) =
    (btm_wf m \<and> (\<forall>e \<in> set m. int (length (fst e)) \<le> i64_max \<and> wf_mut (snd e)))"

text \<open>Nesting depth, as the decoder's recursion counts it.\<close>

fun nesting :: "bencode_mut \<Rightarrow> nat" where
  "nesting (MutInt n) = 1"
| "nesting (MutBytes s) = 1"
| "nesting (MutList xs) = Suc (foldr max (map nesting xs) 0)"
| "nesting (MutDict m) = Suc (foldr max (map (\<lambda>e. nesting (snd e)) m) 0)"

text \<open>The borrowed value that decoding an encoding produces, with the buffer of every part.\<close>

fun annotate :: "bencode_mut \<Rightarrow> bencode_ref" where
  "annotate (MutInt n) = RefInt n (encode (MutInt n) [])"
| "annotate (MutBytes s) = RefBytes s (encode (MutBytes s) [])"
| "annotate (MutList xs) = RefList (map annotate xs) (encode (MutList xs) [])"
| "annotate (MutDict m) =
    RefDict (map (\<lambda>e. (fst e, annotate (snd e))) m) (encode (MutDict m) [])"

lemma erase_annotate [simp]: "erase (annotate b) = b"
proof (induction b)
  case (MutDict m)
  then show ?case by (auto intro!: map_idI)
qed (auto simp: map_idI)

lemma buffer_annotate [simp]: "buffer (annotate b) = encode b []"
  by (cases b) simp_all

section \<open>The encoder as a function of the value\<close>

abbreviation enc :: "bencode_mut \<Rightarrow> bytes" where
  "enc b \<equiv> encode b []"

abbreviation enc_key :: "bytes \<Rightarrow> bytes" where
  "enc_key k \<equiv> encode_bytes k []"

lemma encode_int_append: "encode_int n bs = bs @ encode_int n []"
  by (simp add: encode_int_def)

lemma encode_bytes_append: "encode_bytes s bs = bs @ encode_bytes s []"
  by (simp add: encode_bytes_def)

lemma encode_items_append:
  "(\<And>x bs. x \<in> set xs \<Longrightarrow> encode x bs = bs @ enc x) \<Longrightarrow>
    encode_items xs bs = bs @ concat (map enc xs)"
proof (induction xs arbitrary: bs)
  case (Cons x xs)
  have "encode_items (x # xs) bs = encode_items xs (encode x bs)" by simp
  also have "\<dots> = encode x bs @ concat (map enc xs)"
    by (rule Cons.IH) (rule Cons.prems, simp)
  also have "encode x bs = bs @ enc x" by (rule Cons.prems) simp
  finally show ?case by simp
qed simp

lemma encode_entries_append:
  "(\<And>e bs. e \<in> set m \<Longrightarrow> encode (snd e) bs = bs @ enc (snd e)) \<Longrightarrow>
    encode_entries m bs = bs @ concat (map (\<lambda>e. enc_key (fst e) @ enc (snd e)) m)"
proof (induction m arbitrary: bs)
  case (Cons e m)
  obtain k v where e: "e = (k, v)" by (cases e)
  have "encode_entries (e # m) bs = encode_entries m (encode v (encode_bytes k bs))"
    by (simp add: e)
  also have "\<dots> = encode v (encode_bytes k bs) @
      concat (map (\<lambda>e. enc_key (fst e) @ enc (snd e)) m)"
    by (rule Cons.IH) (rule Cons.prems, simp)
  also have "encode v (encode_bytes k bs) = encode_bytes k bs @ enc v"
    using Cons.prems [of e "encode_bytes k bs"] unfolding e by (metis list.set_intros(1) snd_conv)
  also have "encode_bytes k bs = bs @ enc_key k" by (rule encode_bytes_append)
  finally show ?case by (simp add: e)
qed simp

lemma encode_append: "encode b bs = bs @ enc b"
proof (induction b arbitrary: bs)
  case (MutInt n)
  show ?case using encode_int_append [of n bs] by simp
next
  case (MutBytes s)
  show ?case using encode_bytes_append [of s bs] by simp
next
  case (MutList xs)
  have "encode_items xs bs = bs @ concat (map enc xs)" for bs
    by (rule encode_items_append) (rule MutList.IH)
  then show ?case by simp
next
  case (MutDict m)
  have "encode_entries (sort_key fst m) bs =
      bs @ concat (map (\<lambda>e. enc_key (fst e) @ enc (snd e)) (sort_key fst m))" for bs
  proof (rule encode_entries_append)
    fix e bs assume "e \<in> set (sort_key fst m)"
    then have "e \<in> set m" by simp
    then show "encode (snd e) bs = bs @ enc (snd e)"
      by (intro MutDict.IH [of e]) (simp_all add: Basic_BNFs.snds.intros)
  qed
  then show ?case by (simp add: Let_def)
qed

lemma enc_simps:
  "enc (MutInt n) = INT_START # i64_to_string n @ [BEN_END]"
  "enc (MutBytes s) = enc_key s"
  "enc (MutList xs) = LIST_START # concat (map enc xs) @ [BEN_END]"
  "enc (MutDict m) = DICT_START #
     concat (map (\<lambda>e. enc_key (fst e) @ enc (snd e)) (sort_key fst m)) @ [BEN_END]"
  by (simp_all add: encode_int_def encode_items_append [OF encode_append]
      encode_entries_append [OF encode_append] Let_def)

declare encode.simps [simp del] enc_simps [simp]

text \<open>A \<^verbatim>\<open>BTreeMap\<close> is already sorted, so the encoder's sort leaves its entries in place.\<close>

lemma sort_key_btm: "btm_wf m \<Longrightarrow> sort_key fst m = m"
proof (rule sort_key_id_if_sorted)
  assume "btm_wf m"
  then have "sorted_wrt (\<lambda>x y. x < y) (map fst m)" by (simp add: btm_wf_def)
  then show "sorted (map fst m)" by (rule sorted_wrt_mono_rel [rotated]) simp
qed

lemma enc_dict:
  "btm_wf m \<Longrightarrow> enc (MutDict m) =
    DICT_START # concat (map (\<lambda>e. enc_key (fst e) @ enc (snd e)) m) @ [BEN_END]"
  by (simp only: enc_simps sort_key_btm)

lemma enc_key_eq: "enc_key k = dec_string (length k) @ BYTE_LEN_END # k"
  by (simp add: encode_bytes_def)

section \<open>Decoding what was encoded\<close>

lemma decode_int_render:
  assumes "parse_i64 s = Some n" and "delim \<notin> set s" and "\<forall>b \<in> set s. b < 0x80"
    and "1 < length s \<Longrightarrow> s ! 0 \<noteq> 48 \<and> \<not> (s ! 0 = 45 \<and> s ! 1 = 48)"
  shows "decode_int (pre @ s @ delim # post) (length pre) delim = Ok (n, length pre + length s + 1)"
proof -
  have "position (\<lambda>n. n = delim) (s @ delim # post) = Some (length s)"
    using assms(2) by (intro position_append_skip) auto
  then show ?thesis
    using assms by (auto simp: decode_int_def Let_def from_utf8_ascii)
qed

lemma dec_string_no_padding: "1 < length (dec_string n) \<Longrightarrow> dec_string n ! 0 \<noteq> 48"
proof
  assume l: "1 < length (dec_string n)" and z: "dec_string n ! 0 = 48"
  from z have "hd (dec_string n) = 48" by (simp add: hd_conv_nth)
  then have "n = 0" by (simp add: dec_string_hd_zero)
  with l show False by (simp add: dec_string_single_zero)
qed

lemma digit_not_delim:
  "is_digit b \<Longrightarrow> b \<noteq> BEN_END \<and> b \<noteq> BYTE_LEN_END \<and> b \<noteq> 45 \<and> b \<noteq> INT_START \<and> b \<noteq> LIST_START \<and> b \<noteq> DICT_START"
  by (auto simp: is_digit_def marker_defs)

lemma decode_int_i64:
  "decode_int (pre @ i64_to_string n @ BEN_END # post) (length pre) BEN_END =
    Ok (n, length pre + length (i64_to_string n) + 1)"
proof (rule decode_int_render)
  show "parse_i64 (i64_to_string n) = Some n" by (rule parse_i64_to_string)
  show "BEN_END \<notin> set (i64_to_string n)"
    using i64_to_string_ascii [of n] by (auto simp: marker_defs is_digit_def)
  show "\<forall>b \<in> set (i64_to_string n). b < 0x80"
    using i64_to_string_ascii [of n] by (auto simp: is_digit_ascii)
  show "i64_to_string n ! 0 \<noteq> 48 \<and> \<not> (i64_to_string n ! 0 = 45 \<and> i64_to_string n ! 1 = 48)"
    if "1 < length (i64_to_string n)"
  proof (cases "sint n < 0")
    case True
    then have "hd (dec_string (nat (- sint n))) \<noteq> 48" by (simp add: dec_string_hd_zero)
    then have "dec_string (nat (- sint n)) ! 0 \<noteq> 48" by (simp add: hd_conv_nth)
    with True show ?thesis by (simp add: i64_to_string_def)
  next
    case False
    with that have "dec_string (nat (sint n)) ! 0 \<noteq> 48"
      by (intro dec_string_no_padding) (simp add: i64_to_string_def)
    moreover have "hd (dec_string (nat (sint n))) \<noteq> 45" by (rule dec_string_hd_not_sign)
    ultimately show ?thesis using False by (simp add: i64_to_string_def hd_conv_nth)
  qed
qed

lemma decode_bytes_enc_key:
  assumes "int (length k) \<le> i64_max"
  shows "decode_bytes (pre @ enc_key k @ post) (length pre) = Ok (k, length pre + length (enc_key k))"
proof -
  let ?s = "dec_string (length k)"
  have "decode_int (pre @ ?s @ BYTE_LEN_END # k @ post) (length pre) BYTE_LEN_END =
      Ok (of_nat (length k), length pre + length ?s + 1)"
  proof (rule decode_int_render)
    show "parse_i64 ?s = Some (of_nat (length k))" using assms by (rule parse_i64_dec_string)
    show "BYTE_LEN_END \<notin> set ?s"
      using dec_string_digits [of "length k"] digit_not_delim by auto
    show "\<forall>b \<in> set ?s. b < 0x80"
      using dec_string_digits [of "length k"] by (auto simp: is_digit_ascii)
    have "hd ?s \<noteq> 45" by (rule dec_string_hd_not_sign)
    then show "?s ! 0 \<noteq> 48 \<and> \<not> (?s ! 0 = 45 \<and> ?s ! 1 = 48)" if "1 < length ?s"
      using dec_string_no_padding [OF that] by (simp add: hd_conv_nth)
  qed
  moreover have "sint (of_nat (length k) :: i64) = int (length k)"
    using sint_of_int_i64 [of "int (length k)"] assms by (simp add: i64_min_def)
  moreover have "slice (pre @ ?s @ BYTE_LEN_END # k @ post) (length pre + length ?s + 1)
      (length pre + length ?s + 1 + length k) = k"
    using slice_exact [of "pre @ ?s @ [BYTE_LEN_END]" k post] by simp
  ultimately show ?thesis
    by (simp add: decode_bytes_def enc_key_eq slice_range_def Let_def)
qed

lemma enc_key_not_Nil [simp]: "enc_key k \<noteq> []"
  by (simp add: enc_key_eq)

lemma enc_not_Nil [simp]: "enc b \<noteq> []"
  by (cases b) (simp_all add: enc_key_eq)

lemma hd_enc_key: "is_digit (hd (enc_key k))"
  using dec_string_hd_digit by (simp add: enc_key_eq hd_append)

lemma hd_enc_not_end: "hd (enc b) \<noteq> BEN_END"
proof (cases b)
  case (MutBytes s)
  then show ?thesis using hd_enc_key [of s] digit_not_delim by simp
qed (simp_all add: marker_defs)

lemma peek_hd: "xs \<noteq> [] \<Longrightarrow> peek_byte (pre @ xs @ post) (length pre) = Ok (hd xs)"
  by (cases xs) (simp_all add: peek_byte_def get_at_def)

text \<open>The nested loops, given that the elements decode.\<close>

definition decodes_at_depth :: "bdecode_opt \<Rightarrow> nat \<Rightarrow> bencode_mut \<Rightarrow> bool" where
  "decodes_at_depth opts depth b \<longleftrightarrow>
    (\<forall>pre post. decode (pre @ enc b @ post) (length pre) opts depth =
      Ok (annotate b, length pre + length (enc b)))"

lemma decode_list_enc:
  assumes "\<forall>x \<in> set xs. decodes_at_depth opts (Suc depth) x"
  shows "decode_list (pre @ concat (map enc xs) @ BEN_END # post) (length pre) opts depth acc =
    Ok (acc @ map annotate xs, length pre + length (concat (map enc xs)) + 1)"
  using assms
proof (induction xs arbitrary: pre acc)
  case Nil
  then show ?case
    using peek_hd [of "[BEN_END]" pre post] by (simp add: decode_list.simps)
next
  case (Cons x xs)
  let ?rest = "concat (map enc xs) @ BEN_END # post"
  have "decode (pre @ enc x @ ?rest) (length pre) opts (Suc depth) =
      Ok (annotate x, length (pre @ enc x))"
    using Cons.prems by (simp add: decodes_at_depth_def)
  moreover have "decode_list ((pre @ enc x) @ ?rest) (length (pre @ enc x)) opts depth
      (acc @ [annotate x]) =
      Ok ((acc @ [annotate x]) @ map annotate xs,
        length (pre @ enc x) + length (concat (map enc xs)) + 1)"
    using Cons.prems by (intro Cons.IH) simp
  moreover have "peek_byte (pre @ enc x @ ?rest) (length pre) = Ok (hd (enc x))"
    by (rule peek_hd) simp
  ultimately show ?case
    using hd_enc_not_end [of x] by (subst decode_list.simps) simp
qed

lemma decode_dict_enc:
  assumes "\<forall>e \<in> set m. int (length (fst e)) \<le> i64_max \<and> decodes_at_depth opts (Suc depth) (snd e)"
    and "btm_wf (acc @ map (\<lambda>e. (fst e, annotate (snd e))) m)"
  shows "decode_dict (pre @ concat (map (\<lambda>e. enc_key (fst e) @ enc (snd e)) m) @ BEN_END # post)
      (length pre) opts depth acc =
    Ok (acc @ map (\<lambda>e. (fst e, annotate (snd e))) m,
      length pre + length (concat (map (\<lambda>e. enc_key (fst e) @ enc (snd e)) m)) + 1)"
  using assms
proof (induction m arbitrary: pre acc)
  case Nil
  then show ?case
    using peek_hd [of "[BEN_END]" pre post] by (simp add: decode_dict.simps)
next
  case (Cons e m)
  obtain k v where e: "e = (k, v)" by (cases e)
  let ?rest = "concat (map (\<lambda>e. enc_key (fst e) @ enc (snd e)) m) @ BEN_END # post"
  have above: "\<forall>a \<in> set acc. fst a < k"
    using Cons.prems(2) by (auto simp: btm_wf_def e sorted_wrt_append)
  have last: "\<not> key_out_of_order opts acc k"
    using above by (auto simp: key_out_of_order_def btm_last_key_def dest: less_asym)
  have vac: "btm_get acc k = None"
    using above by (auto simp: btm_get_None)
  have key: "decode_bytes (pre @ enc_key k @ enc v @ ?rest) (length pre) =
      Ok (k, length (pre @ enc_key k))"
    using Cons.prems(1) decode_bytes_enc_key [of k pre] by (simp add: e)
  have val: "decode ((pre @ enc_key k) @ enc v @ ?rest) (length (pre @ enc_key k)) opts (Suc depth) =
      Ok (annotate v, length ((pre @ enc_key k) @ enc v))"
  proof -
    have "decodes_at_depth opts (Suc depth) v" using Cons.prems(1) by (simp add: e)
    from this [unfolded decodes_at_depth_def, rule_format, of "pre @ enc_key k" ?rest]
    show ?thesis by simp
  qed
  have "decode_dict ((pre @ enc_key k @ enc v) @ ?rest) (length (pre @ enc_key k @ enc v)) opts depth
      (acc @ [(k, annotate v)]) =
      Ok ((acc @ [(k, annotate v)]) @ map (\<lambda>e. (fst e, annotate (snd e))) m,
        length (pre @ enc_key k @ enc v) +
          length (concat (map (\<lambda>e. enc_key (fst e) @ enc (snd e)) m)) + 1)"
    using Cons.prems by (intro Cons.IH) (simp_all add: e)
  moreover have "peek_byte (pre @ enc_key k @ enc v @ ?rest) (length pre) = Ok (hd (enc_key k))"
    by (rule peek_hd) (simp add: enc_key_eq)
  ultimately show ?case
    using hd_enc_key [of k] digit_not_delim last vac key val
    by (subst decode_dict.simps) (simp add: e btm_insert_last [OF above] add.assoc)
qed

lemma foldr_max_le: "x \<in> set xs \<Longrightarrow> x \<le> foldr max xs (0::nat)"
  by (induction xs) (auto simp: le_max_iff_disj)

text \<open>One step of the dispatcher per kind of value, as an encoding presents it.\<close>

lemma decode_dispatch:
  assumes "depth < max_recursion opts" and "xs \<noteq> []"
    and "(hd xs = INT_START \<and>
            (\<exists>n. r = RefInt n xs \<and> decode_int (pre @ xs @ post) (length pre + 1) BEN_END = Ok (n, np))) \<or>
         (hd xs = LIST_START \<and>
            (\<exists>l. r = RefList l xs \<and> decode_list (pre @ xs @ post) (length pre + 1) opts depth [] = Ok (l, np))) \<or>
         (hd xs = DICT_START \<and>
            (\<exists>m. r = RefDict m xs \<and> decode_dict (pre @ xs @ post) (length pre + 1) opts depth [] = Ok (m, np))) \<or>
         (is_digit (hd xs) \<and>
            (\<exists>s. r = RefBytes s xs \<and> decode_bytes (pre @ xs @ post) (length pre) = Ok (s, np)))"
    and "np = length pre + length xs"
  shows "decode (pre @ xs @ post) (length pre) opts depth = Ok (r, np)"
proof -
  have pk: "peek_byte (pre @ xs @ post) (length pre) = Ok (hd xs)"
    using assms(2) by (rule peek_hd)
  have sl: "slice_range (pre @ xs @ post) (length pre) np = Ok xs"
    using slice_exact [of pre xs post] by (simp add: slice_range_def assms(4))
  have dg: "is_digit b \<longleftrightarrow> BYTE_LEN_LOW \<le> b \<and> b \<le> BYTE_LEN_HIGH" for b
    by (simp add: is_digit_def marker_defs)
  have neq: "INT_START \<noteq> LIST_START" "INT_START \<noteq> DICT_START" "LIST_START \<noteq> DICT_START"
    by (simp_all add: marker_defs)
  from assms(3) show ?thesis
    using assms(1) digit_not_delim [of "hd xs"] neq
    by (subst decode.simps) (auto simp: pk sl dg [symmetric])
qed

lemma decode_enc:
  assumes "wf_mut b" and "depth + nesting b \<le> max_recursion opts"
  shows "decodes_at_depth opts depth b"
  using assms
proof (induction b arbitrary: depth)
  case (MutInt n)
  have "decode_int (pre @ enc (MutInt n) @ post) (length pre + 1) BEN_END =
      Ok (n, length pre + length (enc (MutInt n)))" for pre post
    using decode_int_i64 [of "pre @ [INT_START]" n post] by simp
  with MutInt.prems show ?case
    unfolding decodes_at_depth_def by (intro allI decode_dispatch) auto
next
  case (MutBytes s)
  have "decode_bytes (pre @ enc (MutBytes s) @ post) (length pre) =
      Ok (s, length pre + length (enc (MutBytes s)))" for pre post
    using MutBytes.prems decode_bytes_enc_key [of s pre post] by simp
  with MutBytes.prems show ?case
    unfolding decodes_at_depth_def by (intro allI decode_dispatch) (auto simp: hd_enc_key)
next
  case (MutList xs)
  have "\<forall>x \<in> set xs. decodes_at_depth opts (Suc depth) x"
  proof
    fix x assume x: "x \<in> set xs"
    then have "nesting x \<le> foldr max (map nesting xs) 0" by (intro foldr_max_le) simp
    with MutList.prems x show "decodes_at_depth opts (Suc depth) x"
      by (intro MutList.IH) auto
  qed
  then have "decode_list (pre @ enc (MutList xs) @ post) (length pre + 1) opts depth [] =
      Ok (map annotate xs, length pre + length (enc (MutList xs)))" for pre post
    using decode_list_enc [of xs opts depth "pre @ [LIST_START]" post "[]"] by simp
  with MutList.prems show ?case
    unfolding decodes_at_depth_def by (intro allI decode_dispatch) auto
next
  case (MutDict m)
  let ?ann = "map (\<lambda>e. (fst e, annotate (snd e))) m"
  have wf: "btm_wf m" using MutDict.prems by simp
  then have wf': "btm_wf ?ann" by (simp add: btm_wf_def comp_def)
  have "\<forall>e \<in> set m. int (length (fst e)) \<le> i64_max \<and> decodes_at_depth opts (Suc depth) (snd e)"
  proof
    fix e assume e: "e \<in> set m"
    then have "nesting (snd e) \<le> foldr max (map (\<lambda>e. nesting (snd e)) m) 0"
      by (intro foldr_max_le) simp
    with MutDict.prems e have "decodes_at_depth opts (Suc depth) (snd e)"
      by (intro MutDict.IH [of e]) (auto simp: Basic_BNFs.snds.intros)
    with MutDict.prems e show "int (length (fst e)) \<le> i64_max \<and> decodes_at_depth opts (Suc depth) (snd e)"
      by auto
  qed
  then have "decode_dict (pre @ enc (MutDict m) @ post) (length pre + 1) opts depth [] =
      Ok (?ann, length pre + length (enc (MutDict m)))" for pre post
    using decode_dict_enc [of m opts depth "[]" "pre @ [DICT_START]" post] wf'
    by (simp add: sort_key_btm [OF wf])
  with MutDict.prems show ?case
    unfolding decodes_at_depth_def by (intro allI decode_dispatch) auto
qed

section \<open>What a successful decoding says about the input\<close>

text \<open>Inversion of the three decoders: the ways they can succeed.\<close>

lemma decode_OkE:
  assumes "decode bs pos opts depth = Ok (r, np)"
  obtains (Int) n where "r = RefInt n (slice bs pos np)" "bs ! pos = INT_START"
      "decode_int bs (pos + 1) BEN_END = Ok (n, np)" "depth < max_recursion opts" "pos < length bs"
  | (List) l where "r = RefList l (slice bs pos np)" "bs ! pos = LIST_START"
      "decode_list bs (pos + 1) opts depth [] = Ok (l, np)" "depth < max_recursion opts" "pos < length bs"
  | (Dict) m where "r = RefDict m (slice bs pos np)" "bs ! pos = DICT_START"
      "decode_dict bs (pos + 1) opts depth [] = Ok (m, np)" "depth < max_recursion opts" "pos < length bs"
  | (Bytes) s where "r = RefBytes s (slice bs pos np)" "is_digit (bs ! pos)"
      "decode_bytes bs pos = Ok (s, np)" "depth < max_recursion opts" "pos < length bs"
proof -
  have d: "depth < max_recursion opts"
    using assms by (simp add: decode.simps [of bs pos] split: if_split_asm)
  have p: "pos < length bs"
    using assms d by (auto simp: decode.simps [of bs pos] and_then_eq_Ok peek_byte_Ok)
  then have pk: "peek_byte bs pos = Ok (bs ! pos)" by (simp add: peek_byte_Ok)
  note run = assms [unfolded decode.simps [of bs pos opts depth] pk and_then.simps]
  consider "bs ! pos = INT_START" | "bs ! pos \<noteq> INT_START" "bs ! pos = LIST_START"
    | "bs ! pos \<noteq> INT_START" "bs ! pos \<noteq> LIST_START" "bs ! pos = DICT_START"
    | "bs ! pos \<noteq> INT_START" "bs ! pos \<noteq> LIST_START" "bs ! pos \<noteq> DICT_START"
      "BYTE_LEN_LOW \<le> bs ! pos \<and> bs ! pos \<le> BYTE_LEN_HIGH"
    using run d by (auto split: if_split_asm)
  then show thesis
  proof cases
    case 1
    with run d obtain n where "decode_int bs (pos + 1) BEN_END = Ok (n, np)"
      "r = RefInt n (slice bs pos np)"
      by (auto simp: and_then_eq_Ok slice_range_Ok)
    with 1 d p show thesis by (intro Int) auto
  next
    case 2
    with run d obtain l where "decode_list bs (pos + 1) opts depth [] = Ok (l, np)"
      "r = RefList l (slice bs pos np)"
      by (auto simp: and_then_eq_Ok slice_range_Ok)
    with 2 d p show thesis by (intro List) auto
  next
    case 3
    with run d obtain m where "decode_dict bs (pos + 1) opts depth [] = Ok (m, np)"
      "r = RefDict m (slice bs pos np)"
      by (auto simp: and_then_eq_Ok slice_range_Ok)
    with 3 d p show thesis by (intro Dict) auto
  next
    case 4
    with run d obtain s where "decode_bytes bs pos = Ok (s, np)"
      "r = RefBytes s (slice bs pos np)"
      by (auto simp: and_then_eq_Ok slice_range_Ok)
    with 4 d p show thesis
      by (intro Bytes) (auto simp: is_digit_def BYTE_LEN_LOW_def BYTE_LEN_HIGH_def)
  qed
qed

lemma decode_list_OkE:
  assumes "decode_list bs pos opts depth acc = Ok (xs, np)"
  obtains (End) "xs = acc" "np = pos + 1" "pos < length bs" "bs ! pos = BEN_END"
  | (Item) v p where "pos < length bs" "bs ! pos \<noteq> BEN_END"
      "decode bs pos opts (depth + 1) = Ok (v, p)"
      "decode_list bs p opts depth (acc @ [v]) = Ok (xs, np)"
  using assms
  by (auto simp: decode_list.simps [of bs pos] and_then_eq_Ok peek_byte_Ok split: if_splits)

lemma decode_dict_OkE:
  assumes "decode_dict bs pos opts depth acc = Ok (m, np)"
  obtains (End) "m = acc" "np = pos + 1" "pos < length bs" "bs ! pos = BEN_END"
  | (Entry) k q v p where "pos < length bs" "bs ! pos \<noteq> BEN_END"
      "decode_bytes bs pos = Ok (k, q)"
      "\<not> key_out_of_order opts acc k"
      "decode bs q opts (depth + 1) = Ok (v, p)"
      "btm_get acc k = None"
      "decode_dict bs p opts depth (btm_insert k v acc) = Ok (m, np)"
  using assms
  by (auto simp: decode_dict.simps [of bs pos] and_then_eq_Ok peek_byte_Ok
      split: if_split_asm option.split_asm)

text \<open>
  Induction over successful runs of the three decoders. It hides the early returns: a property of
  results needs one case per way of succeeding.
\<close>

lemma decode_Ok_induct [consumes 1, case_names Int List Dict Bytes LEnd LItem DEnd DEntry]:
  assumes run: "decode bs pos opts depth = Ok (r, np)"
  and Int: "\<And>pos depth n np. pos < length bs \<Longrightarrow> bs ! pos = INT_START \<Longrightarrow> depth < max_recursion opts \<Longrightarrow>
      decode_int bs (pos + 1) BEN_END = Ok (n, np) \<Longrightarrow>
      decode bs pos opts depth = Ok (RefInt n (slice bs pos np), np) \<Longrightarrow>
      P pos depth (RefInt n (slice bs pos np)) np"
  and List: "\<And>pos depth l np. pos < length bs \<Longrightarrow> bs ! pos = LIST_START \<Longrightarrow> depth < max_recursion opts \<Longrightarrow>
      decode_list bs (pos + 1) opts depth [] = Ok (l, np) \<Longrightarrow> L (pos + 1) depth [] l np \<Longrightarrow>
      decode bs pos opts depth = Ok (RefList l (slice bs pos np), np) \<Longrightarrow>
      P pos depth (RefList l (slice bs pos np)) np"
  and Dict: "\<And>pos depth m np. pos < length bs \<Longrightarrow> bs ! pos = DICT_START \<Longrightarrow> depth < max_recursion opts \<Longrightarrow>
      decode_dict bs (pos + 1) opts depth [] = Ok (m, np) \<Longrightarrow> D (pos + 1) depth [] m np \<Longrightarrow>
      decode bs pos opts depth = Ok (RefDict m (slice bs pos np), np) \<Longrightarrow>
      P pos depth (RefDict m (slice bs pos np)) np"
  and Bytes: "\<And>pos depth s np. pos < length bs \<Longrightarrow> is_digit (bs ! pos) \<Longrightarrow> depth < max_recursion opts \<Longrightarrow>
      decode_bytes bs pos = Ok (s, np) \<Longrightarrow>
      decode bs pos opts depth = Ok (RefBytes s (slice bs pos np), np) \<Longrightarrow>
      P pos depth (RefBytes s (slice bs pos np)) np"
  and LEnd: "\<And>pos depth acc. pos < length bs \<Longrightarrow> bs ! pos = BEN_END \<Longrightarrow> L pos depth acc acc (pos + 1)"
  and LItem: "\<And>pos depth acc v p l np. pos < length bs \<Longrightarrow> bs ! pos \<noteq> BEN_END \<Longrightarrow>
      decode bs pos opts (depth + 1) = Ok (v, p) \<Longrightarrow> P pos (depth + 1) v p \<Longrightarrow>
      decode_list bs p opts depth (acc @ [v]) = Ok (l, np) \<Longrightarrow> L p depth (acc @ [v]) l np \<Longrightarrow>
      L pos depth acc l np"
  and DEnd: "\<And>pos depth acc. pos < length bs \<Longrightarrow> bs ! pos = BEN_END \<Longrightarrow> D pos depth acc acc (pos + 1)"
  and DEntry: "\<And>pos depth acc k q v p m np. pos < length bs \<Longrightarrow> bs ! pos \<noteq> BEN_END \<Longrightarrow>
      decode_bytes bs pos = Ok (k, q) \<Longrightarrow>
      \<not> key_out_of_order opts acc k \<Longrightarrow>
      decode bs q opts (depth + 1) = Ok (v, p) \<Longrightarrow> P q (depth + 1) v p \<Longrightarrow>
      btm_get acc k = None \<Longrightarrow>
      decode_dict bs p opts depth (btm_insert k v acc) = Ok (m, np) \<Longrightarrow>
      D p depth (btm_insert k v acc) m np \<Longrightarrow>
      D pos depth acc m np"
  shows "P pos depth r np"
proof -
  have "bs' = bs \<Longrightarrow> opts' = opts \<Longrightarrow>
      \<forall>r np. decode bs' pos opts' depth = Ok (r, np) \<longrightarrow> P pos depth r np"
    and "bs' = bs \<Longrightarrow> opts' = opts \<Longrightarrow>
      \<forall>l np. decode_list bs' pos opts' depth acc = Ok (l, np) \<longrightarrow> L pos depth acc l np"
    and "bs' = bs \<Longrightarrow> opts' = opts \<Longrightarrow>
      \<forall>m np. decode_dict bs' pos opts' depth accd = Ok (m, np) \<longrightarrow> D pos depth accd m np"
    for bs' opts' acc accd
  proof (induction bs' pos opts' depth and bs' pos opts' depth acc and bs' pos opts' depth accd
      rule: decode_decode_list_decode_dict.induct)
    case (1 bs' pos opts' depth)
    note eqs = "1.prems"
    have l: "L (pos + 1) depth [] l np"
      if "decode_list bs (pos + 1) opts depth [] = Ok (l, np)" "bs ! pos = LIST_START"
        "depth < max_recursion opts" "pos < length bs" for l np
      using "1.IH"(1) [of "bs ! pos"] that eqs by (auto simp: peek_byte_Ok marker_defs)
    have d: "D (pos + 1) depth [] m np"
      if "decode_dict bs (pos + 1) opts depth [] = Ok (m, np)" "bs ! pos = DICT_START"
        "depth < max_recursion opts" "pos < length bs" for m np
      using "1.IH"(2) [of "bs ! pos"] that eqs by (auto simp: peek_byte_Ok marker_defs)
    show ?case
    proof (intro allI impI)
      fix r np
      assume "decode bs' pos opts' depth = Ok (r, np)"
      then have run': "decode bs pos opts depth = Ok (r, np)" by (simp add: eqs)
      then show "P pos depth r np"
        by (cases rule: decode_OkE)
          (insert run', simp_all add: Int List Dict Bytes l d del: One_nat_def add_Suc_right)
    qed
  next
    case (2 bs' pos opts' depth acc)
    note eqs = "2.prems"
    have v: "P pos (depth + 1) v p" if "decode bs pos opts (depth + 1) = Ok (v, p)"
      "pos < length bs" "bs ! pos \<noteq> BEN_END" for v p
      using "2.IH"(1) [of "bs ! pos"] that eqs by (auto simp: peek_byte_Ok)
    have l: "L p depth (acc @ [v]) l np" if "decode_list bs p opts depth (acc @ [v]) = Ok (l, np)"
      "decode bs pos opts (depth + 1) = Ok (v, p)" "pos < length bs" "bs ! pos \<noteq> BEN_END" for v p l np
      using "2.IH"(2) [of "bs ! pos" "(v, p)" v p] that eqs by (auto simp: peek_byte_Ok)
    show ?case
    proof (intro allI impI)
      fix xs np
      assume "decode_list bs' pos opts' depth acc = Ok (xs, np)"
      then have "decode_list bs pos opts depth acc = Ok (xs, np)" by (simp add: eqs)
      then show "L pos depth acc xs np"
      proof (cases rule: decode_list_OkE)
        case End
        then show ?thesis by (simp add: LEnd [simplified])
      next
        case (Item x p)
        then show ?thesis using v l by (intro LItem [of pos depth x p acc]) auto
      qed
    qed
  next
    case (3 bs' pos opts' depth acc)
    note eqs = "3.prems"
    show ?case
    proof (intro allI impI)
      fix m np
      assume "decode_dict bs' pos opts' depth acc = Ok (m, np)"
      then have "decode_dict bs pos opts depth acc = Ok (m, np)" by (simp add: eqs)
      then show "D pos depth acc m np"
      proof (cases rule: decode_dict_OkE)
        case End
        then show ?thesis by (simp add: DEnd [simplified])
      next
        case (Entry k q v p)
        have "P q (depth + 1) v p"
          using "3.IH"(1) [of "bs ! pos" "(k, q)" k q] Entry eqs by (auto simp: peek_byte_Ok)
        moreover have "D p depth (btm_insert k v acc) m np"
          using "3.IH"(2) [of "bs ! pos" "(k, q)" k q "(v, p)" v p] Entry eqs by (auto simp: peek_byte_Ok)
        ultimately show ?thesis using Entry by (intro DEntry [of pos k q acc depth v p m np]) auto
      qed
    qed
  qed
  then show ?thesis using run by blast
qed

lemma decode_buffer: "decode bs pos opts depth = Ok (r, np) \<Longrightarrow> buffer r = slice bs pos np"
  by (erule decode_OkE) simp_all

subsection \<open>Well-formed and within the recursion limit\<close>

lemma decode_bytes_length:
  assumes "decode_bytes bs pos = Ok (s, np)"
  shows "int (length s) \<le> i64_max"
  using assms
proof (rule decode_bytes_OkE)
  fix n :: i64 and start
  assume "0 \<le> sint n" "np = start + nat (sint n)" "s = slice bs start np"
  then have "int (length s) \<le> sint n" by simp
  also have "\<dots> \<le> i64_max" by (rule sint_i64_bounds(2))
  finally show ?thesis .
qed

lemma nesting_le_foldr: "(\<forall>x \<in> set xs. f x \<le> (k::nat)) \<Longrightarrow> foldr max (map f xs) 0 \<le> k"
  by (induction xs) auto

lemma decode_nesting:
  "decode bs pos opts depth = Ok (r, np) \<Longrightarrow> depth + nesting (erase r) \<le> max_recursion opts"
proof (induction pos depth r np rule: decode_Ok_induct [where
    L = "\<lambda>pos depth acc l np. (\<forall>x \<in> set acc. depth + Suc (nesting (erase x)) \<le> max_recursion opts) \<longrightarrow>
      (\<forall>x \<in> set l. depth + Suc (nesting (erase x)) \<le> max_recursion opts)" and
    D = "\<lambda>pos depth acc m np. (\<forall>e \<in> set acc. depth + Suc (nesting (erase (snd e))) \<le> max_recursion opts) \<longrightarrow>
      (\<forall>e \<in> set m. depth + Suc (nesting (erase (snd e))) \<le> max_recursion opts)"])
  case (List pos depth l np)
  then have "foldr max (map (\<lambda>x. nesting (erase x)) l) 0 \<le> max_recursion opts - Suc depth"
    by (intro nesting_le_foldr) fastforce
  with List show ?case by (simp add: comp_def)
next
  case (Dict pos depth m np)
  then have "foldr max (map (\<lambda>e. nesting (erase (snd e))) m) 0 \<le> max_recursion opts - Suc depth"
    by (intro nesting_le_foldr) fastforce
  with Dict show ?case by (simp add: comp_def)
next
  case (DEntry pos depth acc k q v p m np)
  show ?case
  proof
    assume "\<forall>e \<in> set acc. depth + Suc (nesting (erase (snd e))) \<le> max_recursion opts"
    then have "\<forall>e \<in> set (btm_insert k v acc). depth + Suc (nesting (erase (snd e))) \<le> max_recursion opts"
      using DEntry.IH by (intro ball_btm_insert) simp_all
    with DEntry.hyps(8) show "\<forall>e \<in> set m. depth + Suc (nesting (erase (snd e))) \<le> max_recursion opts"
      by blast
  qed
next
  case (LItem pos depth acc v p l np)
  then show ?case by (metis Un_iff add_Suc_right Suc_eq_plus1 add_Suc list.set(1) list.set(2) set_append singletonD)
next
  case (Int pos depth n np)
  then show ?case by simp
next
  case (Bytes pos depth s np)
  then show ?case by simp
next
  case (LEnd pos depth acc)
  then show ?case by blast
next
  case (DEnd pos depth acc)
  then show ?case by blast
qed

lemma decode_wf:
  "decode bs pos opts depth = Ok (r, np) \<Longrightarrow> wf_mut (erase r)"
proof (induction pos depth r np rule: decode_Ok_induct [where
    L = "\<lambda>pos depth acc l np. (\<forall>x \<in> set acc. wf_mut (erase x)) \<longrightarrow> (\<forall>x \<in> set l. wf_mut (erase x))" and
    D = "\<lambda>pos depth acc m np.
      btm_wf acc \<and> (\<forall>e \<in> set acc. int (length (fst e)) \<le> i64_max \<and> wf_mut (erase (snd e))) \<longrightarrow>
      btm_wf m \<and> (\<forall>e \<in> set m. int (length (fst e)) \<le> i64_max \<and> wf_mut (erase (snd e)))"])
  case (Dict pos depth m np)
  then show ?case by (simp add: btm_wf_def comp_def)
next
  case (Bytes pos depth s np)
  then show ?case by (simp add: decode_bytes_length)
next
  case (DEntry pos depth acc k q v p m np)
  show ?case
  proof (rule impI, elim conjE)
    assume acc: "btm_wf acc" "\<forall>e \<in> set acc. int (length (fst e)) \<le> i64_max \<and> wf_mut (erase (snd e))"
    then have "\<forall>e \<in> set (btm_insert k v acc). int (length (fst e)) \<le> i64_max \<and> wf_mut (erase (snd e))"
      using DEntry.IH decode_bytes_length [OF DEntry.hyps(3)]
      by (intro ball_btm_insert [where Q = "\<lambda>e. int (length (fst e)) \<le> i64_max \<and> wf_mut (erase (snd e))"])
        simp_all
    then show "btm_wf m \<and> (\<forall>e \<in> set m. int (length (fst e)) \<le> i64_max \<and> wf_mut (erase (snd e)))"
      using DEntry.hyps(8) btm_wf_insert [OF acc(1)] by blast
  qed
next
  case (LItem pos depth acc v p l np)
  then show ?case by auto
next
  case (List pos depth l np)
  then show ?case by simp
qed simp_all

subsection \<open>Canonical input\<close>

definition canonical_int_text :: "bytes \<Rightarrow> bool" where
  "canonical_int_text s \<longleftrightarrow>
    \<not> (1 < length s \<and> s ! 0 = 45 \<and> s ! 1 = 48) \<and> \<not> (1 < length s \<and> s ! 0 = 48)"

lemma decode_int_OkE:
  assumes "decode_int bs pos delim = Ok (n, np)"
  obtains "pos < np" "np \<le> length bs" "bs ! (np - 1) = delim" "parse_i64 (slice bs pos (np - 1)) = Some n"
    "canonical_int_text (slice bs pos (np - 1))" "delim \<notin> set (slice bs pos (np - 1))"
    "from_utf8 (slice bs pos (np - 1))"
proof -
  from assms have pos: "pos \<le> length bs"
    by (auto simp: decode_int_def split: if_split_asm)
  from assms obtain rel where rel: "position (\<lambda>b. b = delim) (drop pos bs) = Some rel"
    by (auto simp: decode_int_def Let_def split: if_split_asm option.split_asm)
  from rel have r: "rel < length bs - pos" "bs ! (pos + rel) = delim"
    "\<forall>j < rel. drop pos bs ! j \<noteq> delim"
    by (auto simp: position_Some_iff)
  have fresh: "delim \<notin> set (take rel (drop pos bs))"
    using r by (auto simp: in_set_conv_nth)
  from assms rel pos have "np = pos + rel + 1" "parse_i64 (take rel (drop pos bs)) = Some n"
    "canonical_int_text (take rel (drop pos bs))" "from_utf8 (take rel (drop pos bs))"
    by (auto simp: decode_int_def Let_def canonical_int_text_def split: if_split_asm option.split_asm)
  with r fresh show thesis by (intro that) (auto simp: slice_def)
qed

lemma parse_i64_canonical:
  assumes "parse_i64 s = Some n" and "canonical_int_text s" and "43 \<notin> set s"
  shows "i64_to_string n = s"
proof -
  from assms(1) obtain b bs where s: "s = b # bs"
    by (cases s) (auto simp: parse_i64_def)
  show ?thesis
  proof (cases "b = 45")
    case True
    with assms(1) s obtain m where m: "parse_digits 0 bs = Some m" "bs \<noteq> []" "to_i64 (- int m) = Some n"
      by (auto simp: parse_i64_def parse_magnitude_def bind_eq_Some_conv split: if_split_asm)
    have "hd bs \<noteq> 48"
      using assms(2) m(2) by (cases bs) (auto simp: canonical_int_text_def s True)
    then have d: "dec_string m = bs" using m by (intro dec_string_parse) auto
    with \<open>hd bs \<noteq> 48\<close> have "m \<noteq> 0" by (metis dec_string_hd_zero)
    moreover from m(3) have "sint n = - int m"
      by (rule to_i64_SomeD)
    ultimately show ?thesis using d s True by (simp add: i64_to_string_def)
  next
    case False
    from assms(3) s have "b \<noteq> 43" by auto
    with assms(1) s False obtain m where m: "parse_digits 0 s = Some m" "to_i64 (int m) = Some n"
      by (auto simp: parse_i64_def parse_magnitude_def bind_eq_Some_conv split: if_split_asm)
    have "dec_string m = s"
      using m assms(2) s by (intro dec_string_parse) (auto simp: canonical_int_text_def)
    moreover from m(2) have "sint n = int m"
      by (rule to_i64_SomeD)
    ultimately show ?thesis by (simp add: i64_to_string_def)
  qed
qed

text \<open>With an explicit plus sign the number may be padded; its rendering is still a subsequence.\<close>

lemma parse_digits_subseq:
  "parse_digits 0 bs = Some n \<Longrightarrow> bs \<noteq> [] \<Longrightarrow> subseq (dec_string n) bs"
proof (induction bs)
  case (Cons b bs)
  show ?case
  proof (cases "b = 48 \<and> bs \<noteq> []")
    case True
    with Cons show ?thesis by (auto simp: is_digit_def digit_val_def)
  next
    case False
    then have "dec_string n = b # bs"
      using Cons.prems by (intro dec_string_parse) auto
    then show ?thesis by simp
  qed
qed simp

lemma parse_i64_subseq:
  assumes "parse_i64 s = Some n" and "canonical_int_text s"
  shows "subseq (i64_to_string n) s"
proof (cases "\<exists>bs. s = 43 # bs")
  case True
  then obtain bs where s: "s = 43 # bs" ..
  with assms(1) obtain m where m: "parse_digits 0 bs = Some m" "bs \<noteq> []" "to_i64 (int m) = Some n"
    by (auto simp: parse_i64_def parse_magnitude_def bind_eq_Some_conv split: if_split_asm)
  from m(3) have "sint n = int m"
    by (rule to_i64_SomeD)
  then show ?thesis
    using parse_digits_subseq [OF m(1,2)] by (simp add: s i64_to_string_def list_emb_Cons)
next
  case False
  have "43 \<notin> set s"
  proof
    assume plus: "43 \<in> set s"
    have nodigit: "43 \<in> set xs \<Longrightarrow> parse_digits a xs = None" for a xs
      by (induction xs arbitrary: a) (auto simp: is_digit_def)
    from assms(1) plus False show False
      by (auto simp: parse_i64_def parse_magnitude_def bind_eq_Some_conv nodigit
          split: list.split_asm if_split_asm)
  qed
  with assms show ?thesis by (simp add: parse_i64_canonical)
qed

text \<open>
  Re-encoding compared with the input, for any relation that is reflexive, respects
  concatenation and relates the rendering of an accepted integer to its text.
\<close>

lemma slice_snoc: "a \<le> b \<Longrightarrow> b < length xs \<Longrightarrow> slice xs a (Suc b) = slice xs a b @ [xs ! b]"
  using slice_split [of a b "Suc b" xs] slice_Suc [of b xs] by simp

lemma slice_Cons: "a < b \<Longrightarrow> a < length xs \<Longrightarrow> slice xs a b = xs ! a # slice xs (Suc a) b"
  using slice_split [of a "Suc a" b xs] slice_Suc [of a xs] by simp

lemma decode_bytes_reencode:
  fixes R :: "bytes \<Rightarrow> bytes \<Rightarrow> bool"
  assumes refl: "\<And>xs. R xs xs"
    and app: "\<And>a b c d. R a b \<Longrightarrow> R c d \<Longrightarrow> R (a @ c) (b @ d)"
    and int: "\<And>s n. parse_i64 s = Some n \<Longrightarrow> canonical_int_text s \<Longrightarrow> R (i64_to_string n) s"
    and "decode_bytes bs pos = Ok (k, np)"
  shows "R (enc_key k) (slice bs pos np)"
  using assms(4)
proof (rule decode_bytes_OkE)
  fix n :: i64 and start
  assume d: "decode_int bs pos BYTE_LEN_END = Ok (n, start)" and n: "0 \<le> sint n"
    and le: "start \<le> np" and np: "np = start + nat (sint n)" "np \<le> length bs"
    and k: "k = slice bs start np"
  from d have st: "pos < start" "bs ! (start - 1) = BYTE_LEN_END"
    and r: "R (i64_to_string n) (slice bs pos (start - 1))"
    by (auto elim!: decode_int_OkE intro: int)
  have "length k = nat (sint n)" using np k by simp
  then have "i64_to_string n = dec_string (length k)" using n by (simp add: i64_to_string_def)
  then have "enc_key k = (i64_to_string n @ [BYTE_LEN_END]) @ k" by (simp add: enc_key_eq)
  moreover have "slice bs pos np = (slice bs pos (start - 1) @ [BYTE_LEN_END]) @ k"
  proof -
    have "slice bs pos np = slice bs pos (Suc (start - 1)) @ slice bs start np"
      using slice_split [of pos start np bs] st le by simp
    also have "slice bs pos (Suc (start - 1)) = slice bs pos (start - 1) @ [bs ! (start - 1)]"
      using st le np by (intro slice_snoc) auto
    finally show ?thesis using st by (simp add: k)
  qed
  ultimately show "R (enc_key k) (slice bs pos np)"
    using r by (simp only:) (intro app refl)
qed

text \<open>An entry that passes the order and duplicate checks goes behind all earlier ones.\<close>

lemma in_order_above:
  assumes "btm_wf acc" and "check_key_sort opts" and "btm_get acc k = None"
    and "\<not> key_out_of_order opts acc k"
  shows "\<forall>e \<in> set acc. fst e < k"
proof
  fix e assume e: "e \<in> set acc"
  then obtain lk where lk: "btm_last_key acc = Some lk"
    by (cases "acc = []") (auto simp: btm_last_key_def)
  then have "\<not> k < lk" using assms(2,4) by (simp add: key_out_of_order_def)
  then have "lk \<le> k" by (simp only: not_less)
  moreover have "fst e \<le> lk" using assms(1) lk e by (rule btm_last_key_bound)
  ultimately have "fst e \<le> k" by (rule order_trans [rotated])
  moreover have "fst e \<noteq> k" using assms(3) e by (auto simp: btm_get_None)
  ultimately show "fst e < k" by (rule le_neq_trans)
qed

lemma decode_reencode:
  fixes R :: "bytes \<Rightarrow> bytes \<Rightarrow> bool"
  assumes refl: "\<And>xs. R xs xs"
    and app: "\<And>a b c d. R a b \<Longrightarrow> R c d \<Longrightarrow> R (a @ c) (b @ d)"
    and int: "\<And>s n. parse_i64 s = Some n \<Longrightarrow> canonical_int_text s \<Longrightarrow> R (i64_to_string n) s"
    and sorted: "check_key_sort opts"
    and run: "decode bs pos opts depth = Ok (r, np)"
  shows "R (enc (erase r)) (slice bs pos np)"
proof -
  have frame: "R (c # xs @ [BEN_END]) (slice bs pos (Suc q))"
    if "bs ! pos = c" "bs ! q = BEN_END" "pos < q" "q < length bs" "R xs (slice bs (Suc pos) q)"
    for c xs pos q
  proof -
    have "slice bs pos (Suc q) = [c] @ slice bs (Suc pos) q @ [BEN_END]"
      using that slice_Cons [of pos "Suc q" bs] slice_snoc [of "Suc pos" q bs] by simp
    then show ?thesis using app [OF refl [of "[c]"] app [OF that(5) refl [of "[BEN_END]"]]] by simp
  qed
  from run show ?thesis
  proof (induction pos depth r np rule: decode_Ok_induct [where
      L = "\<lambda>pos depth acc l np. \<exists>ys q. l = acc @ ys \<and> np = Suc q \<and> pos \<le> q \<and> q < length bs \<and> bs ! q = BEN_END \<and>
        R (concat (map (\<lambda>x. enc (erase x)) ys)) (slice bs pos q)" and
      D = "\<lambda>pos depth acc m np. btm_wf acc \<longrightarrow>
        (\<exists>ys q. m = acc @ ys \<and> np = Suc q \<and> pos \<le> q \<and> q < length bs \<and> bs ! q = BEN_END \<and>
        btm_wf m \<and> R (concat (map (\<lambda>e. enc_key (fst e) @ enc (erase (snd e))) ys)) (slice bs pos q))"])
    case (Int pos depth n np)
    from Int(4) obtain q where q: "np = Suc q" "pos < q" "q < length bs" "bs ! q = BEN_END"
      and "R (i64_to_string n) (slice bs (pos + 1) q)"
      by (rule decode_int_OkE) (metis Suc_eq_plus1 Suc_le_eq Suc_less_eq Suc_pred' int less_nat_zero_code not_gr_zero)
    with Int frame [of pos INT_START q "i64_to_string n"] show ?case by simp
  next
    case (List pos depth l np)
    then obtain q where "np = Suc q" "Suc pos \<le> q" "q < length bs" "bs ! q = BEN_END"
      "R (concat (map (\<lambda>x. enc (erase x)) l)) (slice bs (Suc pos) q)" by auto
    with List frame [of pos LIST_START q] show ?case by (simp add: comp_def)
  next
    case (Dict pos depth m np)
    then obtain q where q: "np = Suc q" "Suc pos \<le> q" "q < length bs" "bs ! q = BEN_END"
      "R (concat (map (\<lambda>e. enc_key (fst e) @ enc (erase (snd e))) m)) (slice bs (Suc pos) q)"
      and "btm_wf m" by auto
    then have "btm_wf (map (\<lambda>e. (fst e, erase (snd e))) m)" by (simp add: btm_wf_def comp_def)
    with Dict q frame [of pos DICT_START q] show ?case by (simp add: enc_dict comp_def del: enc_simps(4))
  next
    case (Bytes pos depth s np)
    then show ?case using decode_bytes_reencode [of R, OF refl app int] by simp
  next
    case (LEnd pos depth acc)
    then show ?case by (intro exI [of _ "[]"]) (auto simp: slice_def intro: refl)
  next
    case (LItem pos depth acc v p l np)
    then obtain ys q where l: "l = (acc @ [v]) @ ys" and np: "np = Suc q" "p \<le> q" "q < length bs"
      "bs ! q = BEN_END" and ys: "R (concat (map (\<lambda>x. enc (erase x)) ys)) (slice bs p q)"
      by blast
    have pos: "pos < p" using decode_progress [OF LItem.hyps(3)] by simp
    have "R (enc (erase v) @ concat (map (\<lambda>x. enc (erase x)) ys)) (slice bs pos p @ slice bs p q)"
      using LItem.IH ys by (rule app)
    then have "R (concat (map (\<lambda>x. enc (erase x)) (v # ys))) (slice bs pos q)"
      using slice_split [of pos p q bs] pos np by simp
    then show ?case using l np pos by (intro exI [of _ "v # ys"] exI [of _ q]) simp
  next
    case (DEnd pos depth acc)
    then show ?case by (intro impI exI [of _ "[]"]) (auto simp: slice_def intro: refl)
  next
    case (DEntry pos depth acc k q v p m np)
    show ?case
    proof
      assume wf: "btm_wf acc"
      have above: "\<forall>e \<in> set acc. fst e < k"
        using in_order_above wf sorted DEntry.hyps(4,6) by blast
      have "btm_wf (btm_insert k v acc)" using wf by (rule btm_wf_insert)
      with DEntry.hyps(8) obtain ys t where m: "m = btm_insert k v acc @ ys"
        and np: "np = Suc t" "p \<le> t" "t < length bs" "bs ! t = BEN_END" "btm_wf m"
        and ys: "R (concat (map (\<lambda>e. enc_key (fst e) @ enc (erase (snd e))) ys)) (slice bs p t)"
        by blast
      have pos: "pos < q" "q < p"
        using decode_progress [OF DEntry.hyps(5)] decode_bytes_next [OF DEntry.hyps(3)] by auto
      have "R (enc_key k) (slice bs pos q)"
        using decode_bytes_reencode [of R, OF refl app int] DEntry.hyps(3) by blast
      then have "R ((enc_key k @ enc (erase v)) @ concat (map (\<lambda>e. enc_key (fst e) @ enc (erase (snd e))) ys))
          ((slice bs pos q @ slice bs q p) @ slice bs p t)"
        using DEntry.IH ys by (intro app)
      then have "R (concat (map (\<lambda>e. enc_key (fst e) @ enc (erase (snd e))) ((k, v) # ys))) (slice bs pos t)"
        using slice_split [of pos q p bs] slice_split [of pos p t bs] pos np by simp
      then show "\<exists>ys q. m = acc @ ys \<and> np = Suc q \<and> pos \<le> q \<and> q < length bs \<and> bs ! q = BEN_END \<and>
          btm_wf m \<and> R (concat (map (\<lambda>e. enc_key (fst e) @ enc (erase (snd e))) ys)) (slice bs pos q)"
        using m np pos btm_insert_last [OF above, of v]
        by (intro exI [of _ "(k, v) # ys"] exI [of _ t]) simp
    qed
  qed
qed

lemma decode_reencode_subseq:
  assumes "check_key_sort opts" and "decode bs pos opts depth = Ok (r, np)"
  shows "subseq (enc (erase r)) (slice bs pos np)"
  by (rule decode_reencode [OF _ _ _ assms]) (simp_all add: list_emb_append_mono parse_i64_subseq)

lemma decode_reencode_exact:
  assumes "check_key_sort opts" and "decode bs pos opts depth = Ok (r, np)"
    and "43 \<notin> set (slice bs pos np)"
  shows "enc (erase r) = slice bs pos np"
proof -
  have "43 \<notin> set (slice bs pos np) \<longrightarrow> enc (erase r) = slice bs pos np"
    by (rule decode_reencode [where R = "\<lambda>x y. 43 \<notin> set y \<longrightarrow> x = y", OF _ _ _ assms(1,2)])
      (simp_all add: parse_i64_canonical)
  with assms(3) show ?thesis by simp
qed

subsection \<open>No panic\<close>

lemma slice_range_Panic: "slice_range xs a b = Panic \<longleftrightarrow> \<not> (a \<le> b \<and> b \<le> length xs)"
  by (simp add: slice_range_def)

lemma peek_byte_no_panic: "peek_byte bs pos \<noteq> Panic"
  by (simp add: peek_byte_def)

lemma decode_int_no_panic: "pos \<le> length bs \<Longrightarrow> decode_int bs pos delim \<noteq> Panic"
  by (auto simp: decode_int_def Let_def split: option.split)

lemma decode_bytes_no_panic:
  assumes "pos \<le> length bs"
  shows "decode_bytes bs pos \<noteq> Panic"
proof -
  have "start \<le> length bs" if "decode_int bs pos BYTE_LEN_END = Ok (n, start)" for n start
    using decode_int_next [OF that] by simp
  then show ?thesis
    using decode_int_no_panic [OF assms]
    by (auto simp: decode_bytes_def and_then_eq_Panic Let_def slice_range_def split: if_split_asm)
qed

lemma decode_no_panic:
  "decode bs pos opts depth \<noteq> Panic"
  "decode_list bs pos opts depth acc \<noteq> Panic"
  "decode_dict bs pos opts depth accd \<noteq> Panic"
proof (induction bs pos opts depth and bs pos opts depth acc and bs pos opts depth accd
    rule: decode_decode_list_decode_dict.induct)
  case (1 bs pos opts depth)
  show ?case
  proof
    assume panic: "decode bs pos opts depth = Panic"
    then have d: "\<not> max_recursion opts \<le> depth"
      by (auto simp: decode.simps [of bs pos])
    have p: "pos < length bs"
    proof (rule ccontr)
      assume "\<not> pos < length bs"
      then have "peek_byte bs pos = Err (BytesEmpty pos)" by (simp add: peek_byte_def get_at_def)
      with panic d show False by (simp add: decode.simps [of bs pos])
    qed
    then have pk: "peek_byte bs pos = Ok (bs ! pos)" by (simp add: peek_byte_Ok)
    note run = panic [unfolded decode.simps [of bs pos opts depth] pk and_then.simps]
    have leaf: "decode_int bs (pos + 1) BEN_END \<noteq> Panic" "decode_bytes bs pos \<noteq> Panic"
      using p by (simp_all add: decode_int_no_panic decode_bytes_no_panic)
    consider "bs ! pos = INT_START" | "bs ! pos \<noteq> INT_START" "bs ! pos = LIST_START"
      | "bs ! pos \<noteq> INT_START" "bs ! pos \<noteq> LIST_START" "bs ! pos = DICT_START"
      | "bs ! pos \<noteq> INT_START" "bs ! pos \<noteq> LIST_START" "bs ! pos \<noteq> DICT_START"
      by blast
    then show False
    proof cases
      case 1
      with run d leaf show False
        by (auto simp: and_then_eq_Panic slice_range_Panic dest: decode_int_next)
    next
      case 2
      with "1.IH"(1) [OF d pk] run d show False
        by (auto simp: and_then_eq_Panic slice_range_Panic dest: decode_list_progress)
    next
      case 3
      with "1.IH"(2) [OF d pk] run d show False
        by (auto simp: and_then_eq_Panic slice_range_Panic dest: decode_dict_progress)
    next
      case 4
      with run d leaf show False
        by (auto simp: and_then_eq_Panic slice_range_Panic dest: decode_bytes_next split: if_split_asm)
    qed
  qed
next
  case (2 bs pos opts depth acc)
  show ?case
  proof
    assume "decode_list bs pos opts depth acc = Panic"
    then consider "pos < length bs" "bs ! pos \<noteq> BEN_END" "decode bs pos opts (depth + 1) = Panic"
      | v p where "pos < length bs" "bs ! pos \<noteq> BEN_END" "decode bs pos opts (depth + 1) = Ok (v, p)"
        "decode_list bs p opts depth (acc @ [v]) = Panic"
      by (auto simp: decode_list.simps [of bs pos] and_then_eq_Panic peek_byte_no_panic peek_byte_Ok
          split: if_split_asm)
    then show False
    proof cases
      case 1
      then show False using "2.IH"(1) [of "bs ! pos"] by (simp add: peek_byte_Ok)
    next
      case (2 v p)
      then show False using "2.IH"(2) [of "bs ! pos" "(v, p)" v p] by (simp add: peek_byte_Ok)
    qed
  qed
next
  case (3 bs pos opts depth acc)
  show ?case
  proof
    assume "decode_dict bs pos opts depth acc = Panic"
    then consider "pos < length bs" "decode_bytes bs pos = Panic"
      | k q where "pos < length bs" "bs ! pos \<noteq> BEN_END" "decode_bytes bs pos = Ok (k, q)"
        "\<not> key_out_of_order opts acc k"
        "decode bs q opts (depth + 1) = Panic"
      | k q v p where "pos < length bs" "bs ! pos \<noteq> BEN_END" "decode_bytes bs pos = Ok (k, q)"
        "\<not> key_out_of_order opts acc k"
        "decode bs q opts (depth + 1) = Ok (v, p)" "btm_get acc k = None"
        "decode_dict bs p opts depth (btm_insert k v acc) = Panic"
      by (auto simp: decode_dict.simps [of bs pos] and_then_eq_Panic peek_byte_no_panic peek_byte_Ok
          split: if_split_asm option.split_asm)
    then show False
    proof cases
      case 1
      then show False using decode_bytes_no_panic [of pos bs] by simp
    next
      case (2 k q)
      then show False using "3.IH"(1) [of "bs ! pos" "(k, q)" k q] by (simp add: peek_byte_Ok)
    next
      case (3 k q v p)
      then show False
        using "3.IH"(2) [of "bs ! pos" "(k, q)" k q "(v, p)" v p] by (simp add: peek_byte_Ok)
    qed
  qed
qed

subsection \<open>A decoded value does not depend on its surroundings\<close>

text \<open>
  Two inputs that agree on a window of bytes. Decoding reads nothing outside the bytes it
  consumes, so it gives the same value from both, at any smaller depth.
\<close>

definition agree :: "bytes \<Rightarrow> nat \<Rightarrow> bytes \<Rightarrow> nat \<Rightarrow> nat \<Rightarrow> bool" where
  "agree bs pos bs' pos' n \<longleftrightarrow>
    pos + n \<le> length bs \<and> pos' + n \<le> length bs' \<and> (\<forall>i < n. bs ! (pos + i) = bs' ! (pos' + i))"

lemma agree_sub:
  assumes "agree bs pos bs' pos' n" and "a \<le> b" and "b \<le> n"
  shows "agree bs (pos + a) bs' (pos' + a) (b - a)"
  using assms by (auto simp: agree_def add.assoc)

lemma agree_slice:
  assumes "agree bs pos bs' pos' n" and "a \<le> b" and "b \<le> n"
  shows "slice bs (pos + a) (pos + b) = slice bs' (pos' + a) (pos' + b)"
proof (rule nth_equalityI)
  show "length (slice bs (pos + a) (pos + b)) = length (slice bs' (pos' + a) (pos' + b))"
    using assms by (auto simp: agree_def)
next
  fix i assume "i < length (slice bs (pos + a) (pos + b))"
  then have i: "i < b - a" by simp
  then have "a + i < n" using assms by simp
  then have "bs ! (pos + (a + i)) = bs' ! (pos' + (a + i))"
    using assms by (simp add: agree_def)
  then show "slice bs (pos + a) (pos + b) ! i = slice bs' (pos' + a) (pos' + b) ! i"
    using i assms by (auto simp: slice_def agree_def add.assoc)
qed

lemma decode_int_local:
  assumes "decode_int bs pos delim = Ok (n, np)" and "agree bs pos bs' pos' (np - pos)"
  shows "decode_int bs' pos' delim = Ok (n, pos' + (np - pos))"
  using assms(1)
proof (rule decode_int_OkE)
  assume np: "pos < np" "np \<le> length bs" and d: "bs ! (np - 1) = delim"
    and parse: "parse_i64 (slice bs pos (np - 1)) = Some n"
    and can: "canonical_int_text (slice bs pos (np - 1))" and fresh: "delim \<notin> set (slice bs pos (np - 1))"
    and utf: "from_utf8 (slice bs pos (np - 1))"
  from np(1) obtain k where k: "np = pos + Suc k" using less_imp_Suc_add by auto
  have ag: "agree bs pos bs' pos' (Suc k)" using assms(2) k by simp
  then have len: "pos' + k < length bs'" and el: "i \<le> k \<Longrightarrow> bs' ! (pos' + i) = bs ! (pos + i)" for i
    by (auto simp: agree_def)
  have tk: "take k (drop pos' bs') = slice bs pos (np - 1)"
    using agree_slice [OF ag, of 0 k] k by (simp add: slice_def)
  have nth: "j < k \<Longrightarrow> slice bs pos (np - 1) ! j = bs ! (pos + j)" for j
    using np k by (simp add: slice_def)
  have "position (\<lambda>b. b = delim) (drop pos' bs') = Some k"
    unfolding position_Some_iff
  proof (intro conjI allI impI)
    show "k < length (drop pos' bs')" "drop pos' bs' ! k = delim"
      using len el [of k] d k by simp_all
  next
    fix j assume j: "j < k"
    then have "bs ! (pos + j) \<in> set (slice bs pos (np - 1))"
      using nth [OF j] j np k by (auto simp: in_set_conv_nth intro!: exI [of _ j])
    then show "drop pos' bs' ! j \<noteq> delim"
      using fresh el [of j] j len by auto
  qed
  then show ?thesis
    using len tk parse can utf k by (auto simp: decode_int_def Let_def canonical_int_text_def)
qed

lemma decode_bytes_local:
  assumes "decode_bytes bs pos = Ok (k, np)" and "agree bs pos bs' pos' (np - pos)"
  shows "decode_bytes bs' pos' = Ok (k, pos' + (np - pos))"
  using assms(1)
proof (rule decode_bytes_OkE)
  fix n :: i64 and start
  assume d: "decode_int bs pos BYTE_LEN_END = Ok (n, start)" and n: "0 \<le> sint n"
    and le: "start \<le> np" and np: "np = start + nat (sint n)" "np \<le> length bs"
    and k: "k = slice bs start np"
  have st: "pos < start" using decode_int_next [OF d] by simp
  have "agree bs pos bs' pos' (start - pos)"
    using agree_sub [OF assms(2), of 0 "start - pos"] le st by simp
  with d have "decode_int bs' pos' BYTE_LEN_END = Ok (n, pos' + (start - pos))"
    by (rule decode_int_local)
  moreover have "slice bs' (pos' + (start - pos)) (pos' + (np - pos)) = k"
    using agree_slice [OF assms(2), of "start - pos" "np - pos"] le st k by simp
  moreover have "pos' + (np - pos) \<le> length bs'" using assms(2) by (simp add: agree_def)
  moreover have eq: "pos' + (start - pos) + nat (sint n) = pos' + (np - pos)" using st np by simp
  moreover have "\<not> length bs' - (pos' + (start - pos)) < nat (sint n)"
    using calculation(3) eq by simp
  ultimately show ?thesis
    using n le by (simp add: decode_bytes_def Let_def slice_range_def eq diff_le_mono)
qed

lemma agree_peek:
  assumes "agree bs pos bs' pos' n" and "0 < n"
  shows "peek_byte bs' pos' = Ok (bs ! pos)"
  using assms by (auto simp: agree_def peek_byte_Ok)

lemma agree_window: "agree bs pos bs' pos' n \<Longrightarrow> pos \<le> p \<Longrightarrow> p \<le> q \<Longrightarrow> q \<le> pos + n \<Longrightarrow>
  agree bs p bs' (pos' + (p - pos)) (q - p)"
  using agree_sub [of bs pos bs' pos' n "p - pos" "q - pos"] by (simp add: diff_le_mono)

lemma agree_slice_range:
  assumes "agree bs pos bs' pos' n"
  shows "slice_range bs' pos' (pos' + n) = (Ok (slice bs pos (pos + n)) :: bytes parse_result)"
  using assms agree_slice [OF assms, of 0 n] by (auto simp: slice_range_def agree_def)

definition local_run ::
  "bytes \<Rightarrow> nat \<Rightarrow> nat \<Rightarrow> nat \<Rightarrow> (bytes \<Rightarrow> nat \<Rightarrow> nat \<Rightarrow> ('a \<times> nat) parse_result) \<Rightarrow> 'a \<Rightarrow> bool" where
  "local_run bs pos depth np dec x \<longleftrightarrow>
    (\<forall>bs' pos' depth'. agree bs pos bs' pos' (np - pos) \<longrightarrow> depth' \<le> depth \<longrightarrow>
      dec bs' pos' depth' = Ok (x, pos' + (np - pos)))"

lemma local_runI:
  assumes "\<And>bs' pos' depth'. agree bs pos bs' pos' (np - pos) \<Longrightarrow> depth' \<le> depth \<Longrightarrow>
      peek_byte bs' pos' = Ok (bs ! pos) \<Longrightarrow>
      slice_range bs' pos' (pos' + (np - pos)) = (Ok (slice bs pos np) :: bytes parse_result) \<Longrightarrow>
      dec bs' pos' depth' = Ok (x, pos' + (np - pos))"
    and "pos < np"
  shows "local_run bs pos depth np dec x"
  unfolding local_run_def using assms agree_peek agree_slice_range by fastforce

lemma local_runD:
  assumes "local_run bs p depth q dec x" and "agree bs pos bs' pos' n" and "depth' \<le> depth"
    and "pos \<le> p" and "p \<le> q" and "q \<le> pos + n"
  shows "dec bs' (pos' + (p - pos)) depth' = Ok (x, pos' + (q - pos))"
proof -
  have "agree bs p bs' (pos' + (p - pos)) (q - p)"
    using assms by (intro agree_window)
  then have "dec bs' (pos' + (p - pos)) depth' = Ok (x, pos' + (p - pos) + (q - p))"
    using assms(1,3) by (simp add: local_run_def)
  moreover have "pos' + (p - pos) + (q - p) = pos' + (q - pos)" using assms(4-5) by simp
  ultimately show ?thesis by simp
qed

lemma decode_leaf_local:
  assumes "depth < max_recursion opts"
  shows "bs ! pos = INT_START \<Longrightarrow> decode_int bs (pos + 1) BEN_END = Ok (n, np) \<Longrightarrow>
      local_run bs pos depth np (\<lambda>bs p d. decode bs p opts d) (RefInt n (slice bs pos np))"
    and "is_digit (bs ! pos) \<Longrightarrow> decode_bytes bs pos = Ok (s, np) \<Longrightarrow>
      local_run bs pos depth np (\<lambda>bs p d. decode bs p opts d) (RefBytes s (slice bs pos np))"
proof -
  assume b: "bs ! pos = INT_START" and d: "decode_int bs (pos + 1) BEN_END = Ok (n, np)"
  have lt: "pos + 1 < np" using decode_int_next [OF d] by simp
  show "local_run bs pos depth np (\<lambda>bs p d. decode bs p opts d) (RefInt n (slice bs pos np))"
  proof (rule local_runI)
    fix bs' pos' depth' assume ag: "agree bs pos bs' pos' (np - pos)" and "depth' \<le> depth"
      and pk: "peek_byte bs' pos' = Ok (bs ! pos)"
      and sl: "slice_range bs' pos' (pos' + (np - pos)) = (Ok (slice bs pos np) :: bytes parse_result)"
    have "decode_int bs' (pos' + 1) BEN_END = Ok (n, pos' + (np - pos))"
      using decode_int_local [OF d agree_window [OF ag, of "pos + 1" np]] lt by simp
    then show "decode bs' pos' opts depth' = Ok (RefInt n (slice bs pos np), pos' + (np - pos))"
      using pk sl b assms \<open>depth' \<le> depth\<close> by (subst decode.simps) (simp del: add_diff_assoc)
  qed (use lt in simp)
next
  assume b: "is_digit (bs ! pos)" and d: "decode_bytes bs pos = Ok (s, np)"
  have lt: "pos < np" using decode_bytes_next [OF d] by simp
  show "local_run bs pos depth np (\<lambda>bs p d. decode bs p opts d) (RefBytes s (slice bs pos np))"
  proof (rule local_runI)
    fix bs' pos' depth' assume ag: "agree bs pos bs' pos' (np - pos)" and "depth' \<le> depth"
      and pk: "peek_byte bs' pos' = Ok (bs ! pos)"
      and sl: "slice_range bs' pos' (pos' + (np - pos)) = (Ok (slice bs pos np) :: bytes parse_result)"
    show "decode bs' pos' opts depth' = Ok (RefBytes s (slice bs pos np), pos' + (np - pos))"
      using pk sl b assms \<open>depth' \<le> depth\<close> decode_bytes_local [OF d ag] digit_not_delim [OF b]
      by (subst decode.simps)
        (simp add: is_digit_def BYTE_LEN_LOW_def BYTE_LEN_HIGH_def del: add_diff_assoc)
  qed (use lt in simp)
qed

lemma decode_container_local:
  assumes "depth < max_recursion opts" and "pos + 1 < np"
  shows "bs ! pos = LIST_START \<Longrightarrow>
      local_run bs (pos + 1) depth np (\<lambda>bs p d. decode_list bs p opts d []) l \<Longrightarrow>
      local_run bs pos depth np (\<lambda>bs p d. decode bs p opts d) (RefList l (slice bs pos np))"
    and "bs ! pos = DICT_START \<Longrightarrow>
      local_run bs (pos + 1) depth np (\<lambda>bs p d. decode_dict bs p opts d []) m \<Longrightarrow>
      local_run bs pos depth np (\<lambda>bs p d. decode bs p opts d) (RefDict m (slice bs pos np))"
proof -
  assume b: "bs ! pos = LIST_START"
    and l: "local_run bs (pos + 1) depth np (\<lambda>bs p d. decode_list bs p opts d []) l"
  show "local_run bs pos depth np (\<lambda>bs p d. decode bs p opts d) (RefList l (slice bs pos np))"
  proof (rule local_runI)
    fix bs' pos' depth' assume ag: "agree bs pos bs' pos' (np - pos)" and "depth' \<le> depth"
      and pk: "peek_byte bs' pos' = Ok (bs ! pos)"
      and sl: "slice_range bs' pos' (pos' + (np - pos)) = (Ok (slice bs pos np) :: bytes parse_result)"
    have "decode_list bs' (pos' + 1) opts depth' [] = Ok (l, pos' + (np - pos))"
      using local_runD [OF l ag \<open>depth' \<le> depth\<close>] assms(2) by simp
    then show "decode bs' pos' opts depth' = Ok (RefList l (slice bs pos np), pos' + (np - pos))"
      using pk sl b assms \<open>depth' \<le> depth\<close>
      by (subst decode.simps) (simp add: marker_defs del: add_diff_assoc)
  qed (use assms in simp)
next
  assume b: "bs ! pos = DICT_START"
    and m: "local_run bs (pos + 1) depth np (\<lambda>bs p d. decode_dict bs p opts d []) m"
  show "local_run bs pos depth np (\<lambda>bs p d. decode bs p opts d) (RefDict m (slice bs pos np))"
  proof (rule local_runI)
    fix bs' pos' depth' assume ag: "agree bs pos bs' pos' (np - pos)" and "depth' \<le> depth"
      and pk: "peek_byte bs' pos' = Ok (bs ! pos)"
      and sl: "slice_range bs' pos' (pos' + (np - pos)) = (Ok (slice bs pos np) :: bytes parse_result)"
    have "decode_dict bs' (pos' + 1) opts depth' [] = Ok (m, pos' + (np - pos))"
      using local_runD [OF m ag \<open>depth' \<le> depth\<close>] assms(2) by simp
    then show "decode bs' pos' opts depth' = Ok (RefDict m (slice bs pos np), pos' + (np - pos))"
      using pk sl b assms \<open>depth' \<le> depth\<close>
      by (subst decode.simps) (simp add: marker_defs del: add_diff_assoc)
  qed (use assms in simp)
qed

lemma decode_list_local:
  shows "pos < length bs \<Longrightarrow> bs ! pos = BEN_END \<Longrightarrow>
      local_run bs pos depth (pos + 1) (\<lambda>bs p d. decode_list bs p opts d acc) acc"
    and "bs ! pos \<noteq> BEN_END \<Longrightarrow> pos < p \<Longrightarrow> p < np \<Longrightarrow>
      local_run bs pos (depth + 1) p (\<lambda>bs p d. decode bs p opts d) v \<Longrightarrow>
      local_run bs p depth np (\<lambda>bs p d. decode_list bs p opts d (acc @ [v])) l \<Longrightarrow>
      local_run bs pos depth np (\<lambda>bs p d. decode_list bs p opts d acc) l"
proof -
  assume "pos < length bs" "bs ! pos = BEN_END"
  then show "local_run bs pos depth (pos + 1) (\<lambda>bs p d. decode_list bs p opts d acc) acc"
    by (intro local_runI) (simp_all add: decode_list.simps [of _ _ opts])
next
  assume b: "bs ! pos \<noteq> BEN_END" and lt: "pos < p" "p < np"
    and v: "local_run bs pos (depth + 1) p (\<lambda>bs p d. decode bs p opts d) v"
    and l: "local_run bs p depth np (\<lambda>bs p d. decode_list bs p opts d (acc @ [v])) l"
  show "local_run bs pos depth np (\<lambda>bs p d. decode_list bs p opts d acc) l"
  proof (rule local_runI)
    fix bs' pos' depth' assume ag: "agree bs pos bs' pos' (np - pos)" and "depth' \<le> depth"
      and pk: "peek_byte bs' pos' = Ok (bs ! pos)"
    have "decode bs' pos' opts (depth' + 1) = Ok (v, pos' + (p - pos))"
      using local_runD [OF v ag, of "depth' + 1"] lt \<open>depth' \<le> depth\<close> by simp
    moreover have "decode_list bs' (pos' + (p - pos)) opts depth' (acc @ [v]) = Ok (l, pos' + (np - pos))"
      using local_runD [OF l ag \<open>depth' \<le> depth\<close>] lt by simp
    ultimately show "decode_list bs' pos' opts depth' acc = Ok (l, pos' + (np - pos))"
      using pk b by (subst decode_list.simps) (simp del: add_diff_assoc add_diff_assoc2)
  qed (use lt in simp)
qed

lemma decode_dict_local:
  shows "pos < length bs \<Longrightarrow> bs ! pos = BEN_END \<Longrightarrow>
      local_run bs pos depth (pos + 1) (\<lambda>bs p d. decode_dict bs p opts d acc) acc"
    and "bs ! pos \<noteq> BEN_END \<Longrightarrow> decode_bytes bs pos = Ok (k, q) \<Longrightarrow> \<not> key_out_of_order opts acc k \<Longrightarrow>
      btm_get acc k = None \<Longrightarrow> q < p \<Longrightarrow> p < np \<Longrightarrow>
      local_run bs q (depth + 1) p (\<lambda>bs p d. decode bs p opts d) v \<Longrightarrow>
      local_run bs p depth np (\<lambda>bs p d. decode_dict bs p opts d (btm_insert k v acc)) m \<Longrightarrow>
      local_run bs pos depth np (\<lambda>bs p d. decode_dict bs p opts d acc) m"
proof -
  assume "pos < length bs" "bs ! pos = BEN_END"
  then show "local_run bs pos depth (pos + 1) (\<lambda>bs p d. decode_dict bs p opts d acc) acc"
    by (intro local_runI) (simp_all add: decode_dict.simps [of _ _ opts])
next
  assume b: "bs ! pos \<noteq> BEN_END" and k: "decode_bytes bs pos = Ok (k, q)"
    and new: "\<not> key_out_of_order opts acc k" "btm_get acc k = None"
    and lt: "q < p" "p < np"
    and v: "local_run bs q (depth + 1) p (\<lambda>bs p d. decode bs p opts d) v"
    and m: "local_run bs p depth np (\<lambda>bs p d. decode_dict bs p opts d (btm_insert k v acc)) m"
  have "pos < q" using decode_bytes_next [OF k] by simp
  show "local_run bs pos depth np (\<lambda>bs p d. decode_dict bs p opts d acc) m"
  proof (rule local_runI)
    fix bs' pos' depth' assume ag: "agree bs pos bs' pos' (np - pos)" and "depth' \<le> depth"
      and pk: "peek_byte bs' pos' = Ok (bs ! pos)"
    have "decode_bytes bs' pos' = Ok (k, pos' + (q - pos))"
      using decode_bytes_local [OF k] agree_window [OF ag, of pos q] lt \<open>pos < q\<close> by simp
    moreover have "decode bs' (pos' + (q - pos)) opts (depth' + 1) = Ok (v, pos' + (p - pos))"
      using local_runD [OF v ag, of "depth' + 1"] lt \<open>pos < q\<close> \<open>depth' \<le> depth\<close> by simp
    moreover have "decode_dict bs' (pos' + (p - pos)) opts depth' (btm_insert k v acc) = Ok (m, pos' + (np - pos))"
      using local_runD [OF m ag \<open>depth' \<le> depth\<close>] lt \<open>pos < q\<close> by simp
    ultimately show "decode_dict bs' pos' opts depth' acc = Ok (m, pos' + (np - pos))"
      using pk b new by (subst decode_dict.simps) (simp del: add_diff_assoc add_diff_assoc2)
  qed (use lt \<open>pos < q\<close> in simp)
qed

lemma decode_local:
  "decode bs pos opts depth = Ok (r, np) \<Longrightarrow>
    local_run bs pos depth np (\<lambda>bs p d. decode bs p opts d) r"
proof (induction pos depth r np rule: decode_Ok_induct [where
    L = "\<lambda>pos depth acc l np. local_run bs pos depth np (\<lambda>bs p d. decode_list bs p opts d acc) l" and
    D = "\<lambda>pos depth acc m np. local_run bs pos depth np (\<lambda>bs p d. decode_dict bs p opts d acc) m"])
  case (List pos depth l np)
  then show ?case using decode_list_progress by (intro decode_container_local) auto
next
  case (Dict pos depth m np)
  then show ?case using decode_dict_progress by (intro decode_container_local) auto
next
  case (LItem pos depth acc v p l np)
  then show ?case
    using decode_progress [OF LItem.hyps(3)] decode_list_progress [OF LItem.hyps(4)]
    by (intro decode_list_local(2) [of bs pos p np depth opts v acc]) auto
next
  case (DEntry pos depth acc k q v p m np)
  then show ?case
    using decode_progress [OF DEntry.hyps(5)] decode_dict_progress [OF DEntry.hyps(7)]
    by (intro decode_dict_local(2) [of bs pos k q opts acc p np depth v]) auto
qed (auto intro: decode_leaf_local decode_list_local(1) [simplified] decode_dict_local(1) [simplified])

text \<open>Every part of a decoded value, by itself: its buffer decodes to it.\<close>

fun subvalues :: "bencode_ref \<Rightarrow> bencode_ref list" where
  "subvalues (RefInt n b) = [RefInt n b]"
| "subvalues (RefBytes s b) = [RefBytes s b]"
| "subvalues (RefList xs b) = RefList xs b # concat (map subvalues xs)"
| "subvalues (RefDict m b) = RefDict m b # concat (map (\<lambda>e. subvalues (snd e)) m)"

lemma decode_standalone:
  assumes "decode bs pos opts depth = Ok (r, np)"
  shows "decode (buffer r) 0 opts 0 = Ok (r, length (buffer r))"
proof -
  have lt: "pos < np" "np \<le> length bs" using decode_progress [OF assms] by auto
  then have "agree bs pos (slice bs pos np) 0 (np - pos)"
    by (auto simp: agree_def slice_def)
  then have "decode (slice bs pos np) 0 opts 0 = Ok (r, 0 + (np - pos))"
    using decode_local [OF assms] by (auto simp: local_run_def)
  then show ?thesis using decode_buffer [OF assms] lt by simp
qed

lemma decode_subvalues:
  "decode bs pos opts depth = Ok (r, np) \<Longrightarrow>
    \<forall>s \<in> set (subvalues r). decode (buffer s) 0 opts 0 = Ok (s, length (buffer s))"
proof -
  define S where "S x \<longleftrightarrow> (\<forall>s \<in> set (subvalues x). decode (buffer s) 0 opts 0 = Ok (s, length (buffer s)))" for x
  have "S r" if "decode bs pos opts depth = Ok (r, np)"
    using that
  proof (induction pos depth r np rule: decode_Ok_induct [where
      L = "\<lambda>pos depth acc l np. (\<forall>x \<in> set acc. S x) \<longrightarrow> (\<forall>x \<in> set l. S x)" and
      D = "\<lambda>pos depth acc m np. (\<forall>e \<in> set acc. S (snd e)) \<longrightarrow> (\<forall>e \<in> set m. S (snd e))"])
    case (List pos depth l np)
    then have "\<forall>x \<in> set l. S x" by simp
    then show ?case using decode_standalone [OF List(6)] by (simp add: S_def)
  next
    case (Dict pos depth m np)
    then have "\<forall>e \<in> set m. S (snd e)" by simp
    then show ?case using decode_standalone [OF Dict(6)] by (simp add: S_def)
  next
    case (DEntry pos depth acc k q v p m np)
    have "(\<forall>e \<in> set acc. S (snd e)) \<Longrightarrow> (\<forall>e \<in> set (btm_insert k v acc). S (snd e))"
      using DEntry.IH by (intro ball_btm_insert) simp_all
    with DEntry.hyps(8) show ?case by blast
  next
    case (Int pos depth n np)
    then show ?case using decode_standalone [OF Int(5)] by (simp add: S_def)
  next
    case (Bytes pos depth s np)
    then show ?case using decode_standalone [OF Bytes(5)] by (simp add: S_def)
  next
    case (LItem pos depth acc v p l np)
    have "(\<forall>x \<in> set acc. S x) \<Longrightarrow> (\<forall>x \<in> set (acc @ [v]). S x)" using LItem.IH by simp
    with LItem.hyps(5) show ?case by blast
  qed blast+
  then show "decode bs pos opts depth = Ok (r, np) \<Longrightarrow> ?thesis" unfolding S_def .
qed

end
