(* ===== verification/Bencode_Properties.thy ===== *)
theory Bencode_Properties
  imports Bencode_Correct
begin

text \<open>
  The properties of \<^verbatim>\<open>packages/bencode\<close> at its public entry points \<^verbatim>\<open>BencodeRef::decode\<close> and
  \<^verbatim>\<open>BencodeMut::encode\<close>, each a corollary of the correctness lemmas of \<^verbatim>\<open>Bencode_Correct\<close>.
\<close>

lemma bencode_ref_decode_OkD:
  assumes "bencode_ref_decode bs opts = Ok r"
  shows "\<exists>np. decode bs 0 opts 0 = Ok (r, np) \<and> (enforce_full_decode opts \<longrightarrow> np = length bs)"
  using assms by (auto simp: bencode_ref_decode_def and_then_eq_Ok split: if_splits)

lemma bencode_ref_decode_buffer:
  assumes "bencode_ref_decode bs opts = Ok r" and "enforce_full_decode opts"
  shows "decode bs 0 opts 0 = Ok (r, length bs)" and "buffer r = bs"
  using bencode_ref_decode_OkD [OF assms(1)] assms(2) by (auto dest: decode_buffer)

section \<open>Round trip\<close>

text \<open>
  C1. Every value a program can build is decoded back from its encoding: the result denotes the
  same value and its buffer is the whole encoding, whatever the options, as long as the nesting is
  within the recursion limit.
\<close>

theorem encode_decode_roundtrip:
  assumes "wf_mut b" and "nesting b \<le> max_recursion opts"
  shows "\<exists>r. bencode_ref_decode (bencode_mut_encode b) opts = Ok r \<and> erase r = b \<and>
    buffer r = bencode_mut_encode b"
proof -
  have "decodes_at_depth opts 0 b" using assms by (intro decode_enc) simp_all
  then have "decode ([] @ enc b @ []) (length ([] :: bytes)) opts 0 =
      Ok (annotate b, length ([] :: bytes) + length (enc b))"
    unfolding decodes_at_depth_def by blast
  then have "bencode_ref_decode (enc b) opts = Ok (annotate b)"
    by (simp add: bencode_ref_decode_def)
  then show ?thesis by (auto simp: bencode_mut_encode_def)
qed

definition sample_value :: bencode_mut where
  "sample_value = MutDict [([97], MutList [MutInt (- 42), MutBytes []]), ([98], MutBytes [0, 255])]"

theorem encode_decode_roundtrip_witness:
  "wf_mut sample_value \<and> nesting sample_value = 3 \<and>
   bencode_mut_encode sample_value =
     [100, 49, 58, 97, 108, 105, 45, 52, 50, 101, 48, 58, 101, 49, 58, 98, 50, 58, 0, 255, 101] \<and>
   (\<exists>r. bencode_ref_decode (bencode_mut_encode sample_value) bdecode_opt_default = Ok r \<and>
     erase r = sample_value \<and> buffer r = bencode_mut_encode sample_value)"
proof -
  have wf: "wf_mut sample_value"
    by (simp add: sample_value_def i64_max_def btm_wf_def)
  moreover have "nesting sample_value = 3" by (simp add: sample_value_def)
  moreover have "bencode_mut_encode sample_value =
     [100, 49, 58, 97, 108, 105, 45, 52, 50, 101, 48, 58, 101, 49, 58, 98, 50, 58, 0, 255, 101]"
    by code_simp
  ultimately show ?thesis
    using encode_decode_roundtrip [of sample_value bdecode_opt_default]
    by (simp add: bdecode_opt_default_def)
qed

section \<open>Canonical input\<close>

text \<open>
  C2. With key order checking on, what is accepted as a whole is the canonical encoding of its
  value up to characters the integer parser skips: the encoding is a subsequence of the input, and
  when the input has no plus sign it is the input itself.
\<close>

theorem decode_canonical:
  assumes "check_key_sort opts" and "enforce_full_decode opts" and "bencode_ref_decode bs opts = Ok r"
  shows "subseq (bencode_mut_encode (erase r)) bs \<and>
    (43 \<notin> set bs \<longrightarrow> bencode_mut_encode (erase r) = bs)"
  using decode_reencode_subseq [OF assms(1) bencode_ref_decode_buffer(1) [OF assms(3,2)]]
    decode_reencode_exact [OF assms(1) bencode_ref_decode_buffer(1) [OF assms(3,2)]]
  by (simp add: bencode_mut_encode_def)

definition strict_opts :: bdecode_opt where
  "strict_opts = \<lparr>max_recursion = 50, check_key_sort = True, enforce_full_decode = True\<rparr>"

theorem decode_canonical_witness:
  "bencode_ref_decode [108, 105, 55, 101, 101] strict_opts =
     Ok (RefList [RefInt 7 [105, 55, 101]] [108, 105, 55, 101, 101]) \<and>
   bencode_mut_encode (MutList [MutInt 7]) = [108, 105, 55, 101, 101]"
proof -
  have run: "bencode_ref_decode [108, 105, 55, 101, 101] strict_opts =
     Ok (RefList [RefInt 7 [105, 55, 101]] [108, 105, 55, 101, 101])"
    by code_simp
  from decode_canonical [OF _ _ run] run show ?thesis
    by (simp add: strict_opts_def)
qed

text \<open>
  The exception in the canonicity property is real: an integer with a plus sign, zero padding
  after it included, is accepted although its canonical form is shorter, and a dictionary key
  length may carry one too.
\<close>

lemma plus_sign_accepted:
  "map_outcome id erase (bencode_ref_decode [105, 43, 48, 48, 55, 101] strict_opts) = Ok (MutInt 7) \<and>
   bencode_mut_encode (MutInt 7) = [105, 55, 101] \<and>
   bencode_ref_decode [105, 48, 48, 55, 101] strict_opts = Err (InvalidIntZeroPadding 1) \<and>
   map_outcome id erase (bencode_ref_decode [100, 43, 49, 58, 97, 105, 55, 101, 101] strict_opts) =
     Ok (MutDict [([97], MutInt 7)])"
  by code_simp

section \<open>Borrowed parts\<close>

text \<open>
  C3. The buffer of every value inside a decoded value is the bencoding of that value on its own:
  decoding it gives back the same borrowed value and uses every byte. The info hash of a metainfo
  file and the bytes of a nested dictionary are taken this way.
\<close>

theorem subvalue_self_contained:
  assumes "bencode_ref_decode bs opts = Ok r" and "s \<in> set (subvalues r)"
  shows "bencode_ref_decode (buffer s) opts = Ok s"
proof -
  obtain np where "decode bs 0 opts 0 = Ok (r, np)"
    using bencode_ref_decode_OkD [OF assms(1)] by auto
  then have "decode (buffer s) 0 opts 0 = Ok (s, length (buffer s))"
    using decode_subvalues assms(2) by blast
  then show ?thesis by (simp add: bencode_ref_decode_def)
qed

theorem subvalue_self_contained_witness:
  "bencode_ref_decode [100, 49, 58, 97, 108, 105, 55, 101, 101, 101] strict_opts =
     Ok (RefDict [([97], RefList [RefInt 7 [105, 55, 101]] [108, 105, 55, 101, 101])]
       [100, 49, 58, 97, 108, 105, 55, 101, 101, 101]) \<and>
   bencode_ref_decode [108, 105, 55, 101, 101] strict_opts =
     Ok (RefList [RefInt 7 [105, 55, 101]] [108, 105, 55, 101, 101])"
proof -
  let ?l = "RefList [RefInt 7 [105, 55, 101]] [108, 105, 55, 101, 101]"
  have run: "bencode_ref_decode [100, 49, 58, 97, 108, 105, 55, 101, 101, 101] strict_opts =
     Ok (RefDict [([97], ?l)] [100, 49, 58, 97, 108, 105, 55, 101, 101, 101])"
    by code_simp
  from subvalue_self_contained [OF run, of ?l] run show ?thesis by simp
qed

section \<open>Safety\<close>

text \<open>
  C4. Decoding never panics, on any input and with any options: every index and range the decoder
  takes is in range.
\<close>

theorem decode_never_panics: "bencode_ref_decode bs opts \<noteq> Panic"
  using decode_no_panic(1) [of bs 0 opts 0]
  by (auto simp: bencode_ref_decode_def and_then_eq_Panic split: if_splits)

text \<open>
  C5. What is accepted is within the recursion limit and is a value a program could have built:
  its dictionaries are ordered and free of duplicate keys, also when key order is not checked.
\<close>

theorem decode_bounded_wf:
  assumes "bencode_ref_decode bs opts = Ok r"
  shows "nesting (erase r) \<le> max_recursion opts \<and> wf_mut (erase r)"
  using bencode_ref_decode_OkD [OF assms] by (auto dest: decode_nesting decode_wf)

theorem decode_bounded_wf_witness:
  "bencode_ref_decode [100, 49, 58, 98, 48, 58, 49, 58, 97, 108, 101, 101] bdecode_opt_default =
     Ok (RefDict [([97], RefList [] [108, 101]), ([98], RefBytes [] [48, 58])]
       [100, 49, 58, 98, 48, 58, 49, 58, 97, 108, 101, 101]) \<and>
   wf_mut (MutDict [([97], MutList []), ([98], MutBytes [])])"
proof -
  have run: "bencode_ref_decode [100, 49, 58, 98, 48, 58, 49, 58, 97, 108, 101, 101] bdecode_opt_default =
     Ok (RefDict [([97], RefList [] [108, 101]), ([98], RefBytes [] [48, 58])]
       [100, 49, 58, 98, 48, 58, 49, 58, 97, 108, 101, 101])"
    by code_simp
  from decode_bounded_wf [OF run] run show ?thesis by simp
qed

end
