(* ===== verification/Bencode_Convert.thy ===== *)
theory Bencode_Convert
  imports Bencode
begin

text \<open>
  \<^verbatim>\<open>packages/bencode/src/access\<close>: the list interface \<^verbatim>\<open>BListAccess\<close> with its iterator, and the trait
  \<^verbatim>\<open>BConvert\<close>, through which every message and metainfo parser reads decoded values. Its
  \<^verbatim>\<open>handle_error\<close>, which each client implements, is the parameter \<open>he\<close>.
\<close>

section \<open>Lists\<close>

definition blist_get :: "'v list \<Rightarrow> nat \<Rightarrow> 'v option" where
  "blist_get xs index = get_at xs index"

definition blist_index :: "'v list \<Rightarrow> nat \<Rightarrow> ('e, 'v) outcome" where
  "blist_index xs index = (case blist_get xs index of Some v \<Rightarrow> Ok v | None \<Rightarrow> Panic)"

definition blist_remove :: "'v list \<Rightarrow> nat \<Rightarrow> 'v list \<times> 'v option" where
  "blist_remove xs index =
    (if length xs \<le> index then (xs, None)
     else (take index xs @ drop (Suc index) xs, Some (xs ! index)))"

definition blist_insert :: "'v list \<Rightarrow> nat \<Rightarrow> 'v \<Rightarrow> ('e, 'v list) outcome" where
  "blist_insert xs index item =
    (if length xs < index then Panic else Ok (take index xs @ item # drop index xs))"

definition blist_push :: "'v list \<Rightarrow> 'v \<Rightarrow> 'v list" where
  "blist_push xs item = xs @ [item]"

record 'v blist_iter =
  iter_index :: nat
  iter_access :: "'v list"

definition blist_into_iter :: "'v list \<Rightarrow> 'v blist_iter" where
  "blist_into_iter xs = \<lparr>iter_index = 0, iter_access = xs\<rparr>"

definition blist_iter_next :: "'v blist_iter \<Rightarrow> 'v option \<times> 'v blist_iter" where
  "blist_iter_next it =
    (let opt_next = blist_get (iter_access it) (iter_index it) in
     (opt_next, if opt_next \<noteq> None then it\<lparr>iter_index := iter_index it + 1\<rparr> else it))"

text \<open>A \<^verbatim>\<open>for\<close> loop over the list: call \<^verbatim>\<open>next\<close> until it returns \<^verbatim>\<open>None\<close>.\<close>

function blist_collect :: "'v blist_iter \<Rightarrow> 'v list" where
  "blist_collect it =
    (case blist_iter_next it of (Some v, it') \<Rightarrow> v # blist_collect it' | (None, it') \<Rightarrow> [])"
  by pat_completeness auto
termination
  by (relation "measure (\<lambda>it. length (iter_access it) - iter_index it)")
    (auto simp: blist_iter_next_def blist_get_def get_at_def Let_def split: if_splits)

declare blist_collect.simps [simp del]

lemma blist_collect_drop: "blist_collect it = drop (iter_index it) (iter_access it)"
proof (induction it rule: blist_collect.induct)
  case (1 it)
  show ?case
  proof (cases "iter_index it < length (iter_access it)")
    case True
    then have nx: "blist_iter_next it =
        (Some (iter_access it ! iter_index it), it\<lparr>iter_index := iter_index it + 1\<rparr>)"
      by (simp add: blist_iter_next_def blist_get_def get_at_def Let_def)
    then have "blist_collect it =
        iter_access it ! iter_index it # blist_collect (it\<lparr>iter_index := iter_index it + 1\<rparr>)"
      by (subst blist_collect.simps) simp
    with "1.IH" [OF nx [symmetric] refl] True show ?thesis by (simp add: Cons_nth_drop_Suc)
  next
    case False
    then show ?thesis
      by (subst blist_collect.simps) (simp add: blist_iter_next_def blist_get_def get_at_def Let_def)
  qed
qed

lemma blist_collect_all: "blist_collect (blist_into_iter xs) = xs"
  by (simp add: blist_collect_drop blist_into_iter_def)

lemma blist_remove_insert:
  "i \<le> length xs \<Longrightarrow> \<exists>ys. blist_insert xs i v = Ok ys \<and> blist_remove ys i = (xs, Some v)"
  by (simp add: blist_insert_def blist_remove_def nth_append)

section \<open>Conversion\<close>

datatype bencode_convert_error = MissingKey bytes | WrongType bytes string

definition convert_int :: "(bencode_convert_error \<Rightarrow> 'e) \<Rightarrow> bencode_ref \<Rightarrow> bytes \<Rightarrow> ('e, i64) outcome" where
  "convert_int he b error_key = ok_or (he (WrongType error_key ''Integer'')) (ref_int b)"

definition convert_bytes :: "(bencode_convert_error \<Rightarrow> 'e) \<Rightarrow> bencode_ref \<Rightarrow> bytes \<Rightarrow> ('e, bytes) outcome" where
  "convert_bytes he b error_key = ok_or (he (WrongType error_key ''Bytes'')) (ref_bytes b)"

definition convert_str :: "(bencode_convert_error \<Rightarrow> 'e) \<Rightarrow> bencode_ref \<Rightarrow> bytes \<Rightarrow> ('e, bytes) outcome" where
  "convert_str he b error_key = ok_or (he (WrongType error_key ''UTF-8 Bytes'')) (ref_str b)"

definition convert_list ::
    "(bencode_convert_error \<Rightarrow> 'e) \<Rightarrow> bencode_ref \<Rightarrow> bytes \<Rightarrow> ('e, bencode_ref list) outcome" where
  "convert_list he b error_key = ok_or (he (WrongType error_key ''List'')) (ref_list b)"

definition convert_dict ::
    "(bencode_convert_error \<Rightarrow> 'e) \<Rightarrow> bencode_ref \<Rightarrow> bytes \<Rightarrow> ('e, (bytes, bencode_ref) btree_map) outcome" where
  "convert_dict he b error_key = ok_or (he (WrongType error_key ''Dictionary'')) (ref_dict b)"

definition lookup_key ::
    "(bencode_convert_error \<Rightarrow> 'e) \<Rightarrow> (bytes, 'v) btree_map \<Rightarrow> bytes \<Rightarrow> ('e, 'v) outcome" where
  "lookup_key he dictionary key = ok_or (he (MissingKey key)) (btm_get dictionary key)"

definition lookup_and_convert_int ::
    "(bencode_convert_error \<Rightarrow> 'e) \<Rightarrow> (bytes, bencode_ref) btree_map \<Rightarrow> bytes \<Rightarrow> ('e, i64) outcome" where
  "lookup_and_convert_int he d key = and_then (lookup_key he d key) (\<lambda>b. convert_int he b key)"

definition lookup_and_convert_bytes ::
    "(bencode_convert_error \<Rightarrow> 'e) \<Rightarrow> (bytes, bencode_ref) btree_map \<Rightarrow> bytes \<Rightarrow> ('e, bytes) outcome" where
  "lookup_and_convert_bytes he d key = and_then (lookup_key he d key) (\<lambda>b. convert_bytes he b key)"

definition lookup_and_convert_str ::
    "(bencode_convert_error \<Rightarrow> 'e) \<Rightarrow> (bytes, bencode_ref) btree_map \<Rightarrow> bytes \<Rightarrow> ('e, bytes) outcome" where
  "lookup_and_convert_str he d key = and_then (lookup_key he d key) (\<lambda>b. convert_str he b key)"

definition lookup_and_convert_list ::
    "(bencode_convert_error \<Rightarrow> 'e) \<Rightarrow> (bytes, bencode_ref) btree_map \<Rightarrow> bytes \<Rightarrow> ('e, bencode_ref list) outcome" where
  "lookup_and_convert_list he d key = and_then (lookup_key he d key) (\<lambda>b. convert_list he b key)"

definition lookup_and_convert_dict ::
    "(bencode_convert_error \<Rightarrow> 'e) \<Rightarrow> (bytes, bencode_ref) btree_map \<Rightarrow> bytes \<Rightarrow>
      ('e, (bytes, bencode_ref) btree_map) outcome" where
  "lookup_and_convert_dict he d key = and_then (lookup_key he d key) (\<lambda>b. convert_dict he b key)"

named_theorems convert_defs

lemmas convert_basics [convert_defs] = convert_int_def convert_bytes_def convert_str_def
  convert_list_def convert_dict_def lookup_key_def lookup_and_convert_int_def
  lookup_and_convert_bytes_def lookup_and_convert_str_def lookup_and_convert_list_def
  lookup_and_convert_dict_def

text \<open>Success means that the key is there with a value of the right kind.\<close>

lemma lookup_and_convert_Ok [simp]:
  "lookup_and_convert_int he d k = Ok n \<longleftrightarrow> (\<exists>b. btm_get d k = Some b \<and> ref_int b = Some n)"
  "lookup_and_convert_bytes he d k = Ok s \<longleftrightarrow> (\<exists>b. btm_get d k = Some b \<and> ref_bytes b = Some s)"
  "lookup_and_convert_str he d k = Ok s \<longleftrightarrow> (\<exists>b. btm_get d k = Some b \<and> ref_str b = Some s)"
  "lookup_and_convert_list he d k = Ok l \<longleftrightarrow> (\<exists>b. btm_get d k = Some b \<and> ref_list b = Some l)"
  "lookup_and_convert_dict he d k = Ok m \<longleftrightarrow> (\<exists>b. btm_get d k = Some b \<and> ref_dict b = Some m)"
  by (simp_all add: convert_basics and_then_eq_Ok)

text \<open>No conversion panics, and every error is one of the two conversion errors for the key asked.\<close>

lemma lookup_and_convert_no_panic [simp]:
  "lookup_and_convert_int he d k \<noteq> Panic" "lookup_and_convert_bytes he d k \<noteq> Panic"
  "lookup_and_convert_str he d k \<noteq> Panic" "lookup_and_convert_list he d k \<noteq> Panic"
  "lookup_and_convert_dict he d k \<noteq> Panic"
  "convert_int he b k \<noteq> Panic" "convert_bytes he b k \<noteq> Panic" "convert_str he b k \<noteq> Panic"
  "convert_list he b k \<noteq> Panic" "convert_dict he b k \<noteq> Panic" "lookup_key he d k \<noteq> Panic"
  by (simp_all add: convert_basics and_then_eq_Panic)

lemma convert_Ok [simp]:
  "convert_int he b k = Ok n \<longleftrightarrow> ref_int b = Some n"
  "convert_bytes he b k = Ok s \<longleftrightarrow> ref_bytes b = Some s"
  "convert_str he b k = Ok s \<longleftrightarrow> ref_str b = Some s"
  "convert_list he b k = Ok l \<longleftrightarrow> ref_list b = Some l"
  "convert_dict he b k = Ok m \<longleftrightarrow> ref_dict b = Some m"
  "lookup_key he d k = Ok v \<longleftrightarrow> btm_get d k = Some v"
  by (simp_all add: convert_basics)

lemma lookup_and_convert_int_Err:
  "lookup_and_convert_int he d k = Err e \<longleftrightarrow>
    btm_get d k = None \<and> e = he (MissingKey k) \<or>
    (\<exists>b. btm_get d k = Some b \<and> ref_int b = None \<and> e = he (WrongType k ''Integer''))"
  by (auto simp: convert_basics and_then_eq_Err)

lemma lookup_and_convert_bytes_Err:
  "lookup_and_convert_bytes he d k = Err e \<longleftrightarrow>
    btm_get d k = None \<and> e = he (MissingKey k) \<or>
    (\<exists>b. btm_get d k = Some b \<and> ref_bytes b = None \<and> e = he (WrongType k ''Bytes''))"
  by (auto simp: convert_basics and_then_eq_Err)

end
