(* ===== verification/Byte_Order.thy ===== *)
theory Byte_Order
  imports Prelude
begin

text \<open>
  Big-endian conversion between machine words and byte strings, as the standard library's
  \<^verbatim>\<open>to_be_bytes\<close> and \<^verbatim>\<open>from_be_bytes\<close> do it: most significant byte first. The wire formats of the
  handshake, the peer messages and the compact addresses all rest on the two inversion lemmas here.
\<close>

definition to_be_bytes :: "nat \<Rightarrow> 'a::len word \<Rightarrow> bytes" where
  "to_be_bytes n w = map (\<lambda>i. ucast (drop_bit (8 * (n - 1 - i)) w)) [0..<n]"

definition from_be_bytes :: "bytes \<Rightarrow> 'a::len word" where
  "from_be_bytes bs = foldl (\<lambda>acc b. push_bit 8 acc OR ucast b) 0 bs"

lemma length_to_be_bytes [simp]: "length (to_be_bytes n w) = n"
  by (simp add: to_be_bytes_def)

lemma nth_to_be_bytes [simp]:
  "i < n \<Longrightarrow> to_be_bytes n w ! i = ucast (drop_bit (8 * (n - 1 - i)) w)"
  by (simp add: to_be_bytes_def)

lemma from_be_bytes_Nil [simp]: "from_be_bytes [] = 0"
  by (simp add: from_be_bytes_def)

lemma from_be_bytes_snoc [simp]:
  "from_be_bytes (bs @ [b]) = push_bit 8 (from_be_bytes bs) OR ucast b"
  by (simp add: from_be_bytes_def)

lemma bit_from_be_bytes:
  "bit (from_be_bytes bs :: 'a::len word) k \<longleftrightarrow>
    k < LENGTH('a) \<and> k < 8 * length bs \<and> bit (bs ! (length bs - 1 - k div 8)) (k mod 8)"
proof (induction bs arbitrary: k rule: rev_induct)
  case (snoc b bs)
  show ?case
  proof (cases "k < 8")
    case True
    then show ?thesis
      by (simp add: bit_or_iff bit_push_bit_iff bit_ucast_iff)
  next
    case False
    then have idx: "length bs - k div 8 = length bs - 1 - (k - 8) div 8"
      by (simp add: le_div_geq)
    have "\<not> bit b k" using False by (auto dest: bit_imp_le_length)
    moreover have "(k - 8) mod 8 = k mod 8" using False by (metis le_mod_geq not_less)
    moreover have "(bs @ [b]) ! (length bs - k div 8) = bs ! (length bs - k div 8)"
      if "k < 8 * Suc (length bs)" using that False by (auto simp: nth_append)
    ultimately show ?thesis
      using False by (auto simp: bit_or_iff bit_push_bit_iff bit_ucast_iff snoc.IH idx)
  qed
qed simp

lemma from_to_be_bytes:
  assumes "LENGTH('a) \<le> 8 * n"
  shows "from_be_bytes (to_be_bytes n w) = (w :: 'a::len word)"
proof (rule bit_word_eqI)
  fix k assume k: "k < LENGTH('a)"
  then have "k div 8 < n" using assms by auto
  then have "n - Suc (k div 8) < n" and "n - Suc (n - Suc (k div 8)) = k div 8" by auto
  then show "bit (from_be_bytes (to_be_bytes n w) :: 'a word) k = bit w k"
    using k assms by (auto simp: bit_from_be_bytes bit_ucast_iff bit_drop_bit_eq)
qed

lemma to_from_be_bytes:
  assumes "8 * length bs \<le> LENGTH('a)"
  shows "to_be_bytes (length bs) (from_be_bytes bs :: 'a::len word) = bs"
proof (rule nth_equalityI)
  fix i assume "i < length (to_be_bytes (length bs) (from_be_bytes bs :: 'a word))"
  then have i: "i < length bs" by simp
  show "to_be_bytes (length bs) (from_be_bytes bs :: 'a word) ! i = bs ! i"
  proof (rule bit_word_eqI)
    fix k assume k: "k < LENGTH(8)"
    have "8 * (length bs - 1 - i) + k < 8 * length bs" using i k by auto
    moreover have "length bs - 1 - (8 * (length bs - 1 - i) + k) div 8 = i" using i k by auto
    ultimately show "bit (to_be_bytes (length bs) (from_be_bytes bs :: 'a word) ! i) k = bit (bs ! i) k"
      using i k assms by (simp add: bit_ucast_iff bit_drop_bit_eq bit_from_be_bytes)
  qed
qed simp

end
