(* ===== verification/Util_Convert.thy ===== *)
theory Util_Convert
  imports Byte_Order
begin

text \<open>
  \<^verbatim>\<open>packages/util/src/convert.rs\<close> and \<^verbatim>\<open>net.rs\<close>: socket addresses and their big-endian byte forms.
  The address types are those of \<^verbatim>\<open>std::net\<close>. A Rust array \<^verbatim>\<open>[u8; n]\<close> is a byte list; the
  lemmas about functions that take one assume its length.
\<close>

section \<open>Addresses\<close>

datatype ipv4_addr = Ipv4Addr u8 u8 u8 u8

datatype ipv6_addr = Ipv6Addr u16 u16 u16 u16 u16 u16 u16 u16

record socket_addr_v4 =
  v4_ip :: ipv4_addr
  v4_port :: u16

record socket_addr_v6 =
  v6_ip :: ipv6_addr
  v6_port :: u16
  v6_flowinfo :: u32
  v6_scope_id :: u32

datatype socket_addr = SockV4 socket_addr_v4 | SockV6 socket_addr_v6

datatype ip_addr = IpV4 ipv4_addr | IpV6 ipv6_addr

fun octets :: "ipv4_addr \<Rightarrow> bytes" where
  "octets (Ipv4Addr a b c d) = [a, b, c, d]"

fun segments :: "ipv6_addr \<Rightarrow> u16 list" where
  "segments (Ipv6Addr a b c d e f g h) = [a, b, c, d, e, f, g, h]"

fun from_socket_addr :: "socket_addr \<Rightarrow> ip_addr" where
  "from_socket_addr (SockV4 v4_sock_addr) = IpV4 (v4_ip v4_sock_addr)"
| "from_socket_addr (SockV6 v6_sock_addr) = IpV6 (v6_ip v6_sock_addr)"

definition default_route_v4 :: socket_addr where
  "default_route_v4 = SockV4 \<lparr>v4_ip = Ipv4Addr 0 0 0 0, v4_port = 0\<rparr>"

section \<open>To bytes\<close>

definition four_bytes_to_array :: "u32 \<Rightarrow> bytes" where
  "four_bytes_to_array w = to_be_bytes 4 w"

definition four_bytes_to_array_signed :: "32 word \<Rightarrow> bytes" where
  "four_bytes_to_array_signed w = to_be_bytes 4 w"

definition eight_bytes_to_array :: "u64 \<Rightarrow> bytes" where
  "eight_bytes_to_array w =
    [ucast (drop_bit 56 w), ucast (drop_bit 48 w), ucast (drop_bit 40 w), ucast (drop_bit 32 w),
     ucast (drop_bit 24 w), ucast (drop_bit 16 w), ucast (drop_bit 8 w), ucast w]"

definition ipv4_to_bytes_be :: "ipv4_addr \<Rightarrow> bytes" where
  "ipv4_to_bytes_be v4_addr = octets v4_addr"

definition ipv6_to_bytes_be :: "ipv6_addr \<Rightarrow> bytes" where
  "ipv6_to_bytes_be v6_addr = map (\<lambda>index.
    let segment_index = index div 2; segment_byte_index = index mod 2;
        byte_shift_bits = 8 - segment_byte_index * 8
    in ucast (drop_bit byte_shift_bits (segments v6_addr ! segment_index))) [0..<16]"

definition port_to_bytes_be :: "u16 \<Rightarrow> bytes" where
  "port_to_bytes_be port = [ucast (drop_bit 8 port), ucast port]"

definition sock_v4_to_bytes_be :: "socket_addr_v4 \<Rightarrow> bytes" where
  "sock_v4_to_bytes_be v4_sock = ipv4_to_bytes_be (v4_ip v4_sock) @ port_to_bytes_be (v4_port v4_sock)"

definition sock_v6_to_bytes_be :: "socket_addr_v6 \<Rightarrow> bytes" where
  "sock_v6_to_bytes_be v6_sock = ipv6_to_bytes_be (v6_ip v6_sock) @ port_to_bytes_be (v6_port v6_sock)"

section \<open>From bytes\<close>

definition bytes_be_to_ipv4 :: "bytes \<Rightarrow> ipv4_addr" where
  "bytes_be_to_ipv4 bs = Ipv4Addr (bs ! 0) (bs ! 1) (bs ! 2) (bs ! 3)"

text \<open>The loop of \<^verbatim>\<open>bytes_be_to_ipv6\<close>: every byte is or-ed into its segment.\<close>

definition combine_byte :: "bytes \<Rightarrow> nat \<Rightarrow> u16 list \<Rightarrow> u16 list" where
  "combine_byte bs index combined_bytes =
    (let combined_index = index div 2; should_shift = (index mod 2 = 0);
         adjusted_value = (if should_shift then push_bit 8 (ucast (bs ! index)) else ucast (bs ! index))
     in combined_bytes[combined_index := combined_bytes ! combined_index OR adjusted_value])"

definition bytes_be_to_ipv6 :: "bytes \<Rightarrow> ipv6_addr" where
  "bytes_be_to_ipv6 bs =
    (let combined_bytes = fold (combine_byte bs) [0..<length bs] (replicate 8 0)
     in Ipv6Addr (combined_bytes ! 0) (combined_bytes ! 1) (combined_bytes ! 2) (combined_bytes ! 3)
          (combined_bytes ! 4) (combined_bytes ! 5) (combined_bytes ! 6) (combined_bytes ! 7))"

definition bytes_be_to_port :: "bytes \<Rightarrow> u16" where
  "bytes_be_to_port bs =
    (let high_byte = ucast (bs ! 0); low_byte = ucast (bs ! 1) in push_bit 8 high_byte OR low_byte)"

definition bytes_be_to_sock_v4 :: "bytes \<Rightarrow> socket_addr_v4" where
  "bytes_be_to_sock_v4 bs =
    (let ip_bytes = [bs ! 0, bs ! 1, bs ! 2, bs ! 3]; port_bytes = [bs ! 4, bs ! 5]
     in \<lparr>v4_ip = bytes_be_to_ipv4 ip_bytes, v4_port = bytes_be_to_port port_bytes\<rparr>)"

definition bytes_be_to_sock_v6 :: "bytes \<Rightarrow> socket_addr_v6" where
  "bytes_be_to_sock_v6 bs =
    (let port_bytes = [bs ! 16, bs ! 17]; ip_bytes = take 16 bs
     in \<lparr>v6_ip = bytes_be_to_ipv6 ip_bytes, v6_port = bytes_be_to_port port_bytes,
         v6_flowinfo = 0, v6_scope_id = 0\<rparr>)"

section \<open>Round trips\<close>

lemma length_4E:
  assumes "length xs = 4" obtains a b c d where "xs = [a, b, c, d]"
  using assms that by (auto simp: numeral_eq_Suc length_Suc_conv)

lemma length_6E:
  assumes "length xs = 6" obtains a b c d e f where "xs = [a, b, c, d, e, f]"
  using assms that by (auto simp: numeral_eq_Suc length_Suc_conv)

lemma length_8E:
  assumes "length xs = 8" obtains a b c d e f g h where "xs = [a, b, c, d, e, f, g, h]"
  using assms that by (auto simp: numeral_eq_Suc length_Suc_conv)

lemma eight_bytes_eq: "eight_bytes_to_array w = to_be_bytes 8 w"
  by (simp add: eight_bytes_to_array_def to_be_bytes_def upt_rec)

lemma port_to_bytes_eq: "port_to_bytes_be p = to_be_bytes 2 p"
  by (simp add: port_to_bytes_be_def to_be_bytes_def upt_rec)

lemma bytes_be_to_port_eq: "bytes_be_to_port [h, l] = from_be_bytes [h, l]"
  by (simp add: bytes_be_to_port_def from_be_bytes_def)

lemma port_roundtrip: "bytes_be_to_port (port_to_bytes_be p) = p"
proof -
  have "bytes_be_to_port (port_to_bytes_be p) = from_be_bytes (port_to_bytes_be p)"
    by (simp add: port_to_bytes_be_def bytes_be_to_port_eq)
  then show ?thesis by (simp add: port_to_bytes_eq from_to_be_bytes)
qed

lemma port_bytes_roundtrip: "port_to_bytes_be (bytes_be_to_port [h, l]) = [h, l]"
  using to_from_be_bytes [of "[h, l]", where 'a = 16]
  by (simp add: bytes_be_to_port_eq port_to_bytes_eq numeral_2_eq_2)

lemma ipv4_roundtrip: "bytes_be_to_ipv4 (ipv4_to_bytes_be ip) = ip"
  by (cases ip) (simp add: bytes_be_to_ipv4_def ipv4_to_bytes_be_def)

lemma ipv4_bytes_roundtrip: "length bs = 4 \<Longrightarrow> ipv4_to_bytes_be (bytes_be_to_ipv4 bs) = bs"
  by (erule length_4E) (simp add: bytes_be_to_ipv4_def ipv4_to_bytes_be_def)

lemma length_ipv4_to_bytes_be [simp]: "length (ipv4_to_bytes_be ip) = 4"
  by (cases ip) (simp add: ipv4_to_bytes_be_def)

lemma length_ipv6_to_bytes_be [simp]: "length (ipv6_to_bytes_be ip) = 16"
  by (simp add: ipv6_to_bytes_be_def)

lemma length_port_to_bytes_be [simp]: "length (port_to_bytes_be p) = 2"
  by (simp add: port_to_bytes_be_def)

lemma length_sock_v4_to_bytes_be [simp]: "length (sock_v4_to_bytes_be s) = 6"
  by (simp add: sock_v4_to_bytes_be_def)

lemma length_sock_v6_to_bytes_be [simp]: "length (sock_v6_to_bytes_be s) = 18"
  by (simp add: sock_v6_to_bytes_be_def)

lemma combine_two_bytes:
  "length xs = i \<Longrightarrow> combine_byte bs (Suc (2 * i)) (combine_byte bs (2 * i) (xs @ 0 # ys)) =
    xs @ bytes_be_to_port [bs ! (2 * i), bs ! Suc (2 * i)] # ys"
  by (auto simp: combine_byte_def bytes_be_to_port_def Let_def nth_append list_update_append)

lemma combine_loop:
  "i \<le> n \<Longrightarrow> fold (combine_byte bs) [0..<2 * i] (replicate n 0) =
    map (\<lambda>j. bytes_be_to_port [bs ! (2 * j), bs ! Suc (2 * j)]) [0..<i] @ replicate (n - i) 0"
proof (induction i)
  case (Suc i)
  then have "replicate (n - i) (0 :: u16) = 0 # replicate (n - Suc i) 0"
    by (metis Suc_diff_Suc Suc_le_lessD replicate_Suc)
  with Suc show ?case by (simp add: combine_two_bytes)
qed simp

lemma bytes_be_to_ipv6_ports:
  assumes "length bs = 16"
  shows "segments (bytes_be_to_ipv6 bs) =
    map (\<lambda>j. bytes_be_to_port [bs ! (2 * j), bs ! Suc (2 * j)]) [0..<8]"
proof -
  have "fold (combine_byte bs) [0..<16] (replicate 8 0) =
      map (\<lambda>j. bytes_be_to_port [bs ! (2 * j), bs ! Suc (2 * j)]) [0..<8]"
    using combine_loop [of 8 8 bs] by simp
  then show ?thesis using assms by (simp add: bytes_be_to_ipv6_def Let_def upt_rec)
qed

lemma segments_eq_iff: "segments ip = segments ip' \<longleftrightarrow> ip = ip'"
  by (cases ip; cases ip') simp

lemma length_segments [simp]: "length (segments ip) = 8"
  by (cases ip) simp

lemma ipv6_bytes_nth:
  "j < 8 \<Longrightarrow> [ipv6_to_bytes_be ip ! (2 * j), ipv6_to_bytes_be ip ! Suc (2 * j)] =
    port_to_bytes_be (segments ip ! j)"
  by (simp add: ipv6_to_bytes_be_def port_to_bytes_be_def Let_def)

lemma ipv6_roundtrip: "bytes_be_to_ipv6 (ipv6_to_bytes_be ip) = ip"
proof -
  have "segments (bytes_be_to_ipv6 (ipv6_to_bytes_be ip)) = map (\<lambda>j. segments ip ! j) [0..<8]"
    by (simp add: bytes_be_to_ipv6_ports ipv6_bytes_nth port_roundtrip)
  also have "\<dots> = segments ip" using map_nth [of "segments ip"] by simp
  finally show ?thesis by (simp add: segments_eq_iff)
qed

lemma sock_v4_roundtrip: "bytes_be_to_sock_v4 (sock_v4_to_bytes_be s) = s"
proof (cases s)
  case (fields ip p)
  have "bytes_be_to_port [ucast (drop_bit 8 p), ucast p] = p"
    using port_roundtrip [of p] by (simp add: port_to_bytes_be_def)
  then show ?thesis
    by (cases ip) (simp add: fields bytes_be_to_sock_v4_def sock_v4_to_bytes_be_def
        ipv4_to_bytes_be_def port_to_bytes_be_def bytes_be_to_ipv4_def)
qed

lemma sock_v4_bytes_roundtrip:
  "length bs = 6 \<Longrightarrow> sock_v4_to_bytes_be (bytes_be_to_sock_v4 bs) = bs"
  by (erule length_6E) (simp add: bytes_be_to_sock_v4_def sock_v4_to_bytes_be_def
      ipv4_bytes_roundtrip port_bytes_roundtrip)

text \<open>The byte form has no room for the flow information and the scope of an IPv6 socket.\<close>

lemma sock_v6_roundtrip:
  "bytes_be_to_sock_v6 (sock_v6_to_bytes_be s) = s\<lparr>v6_flowinfo := 0, v6_scope_id := 0\<rparr>"
proof (cases s)
  case (fields ip p flow scope)
  have "bytes_be_to_port [ucast (drop_bit 8 p), ucast p] = p"
    using port_roundtrip [of p] by (simp add: port_to_bytes_be_def)
  then show ?thesis
    by (simp add: fields bytes_be_to_sock_v6_def sock_v6_to_bytes_be_def ipv6_roundtrip
        port_to_bytes_be_def nth_append)
qed

end
