(* ===== verification/Util_Sha.thy ===== *)
theory Util_Sha
  imports Byte_Order
begin

text \<open>
  \<^verbatim>\<open>packages/util/src/sha\<close>: the 20-byte hash that identifies nodes, peers and torrents, its xor and
  the iterator over its bits. A \<^verbatim>\<open>ShaHash\<close> is its byte array, ordered and compared as such; the
  digest itself is computed by the \<^verbatim>\<open>sha1\<close> crate and is a parameter wherever it is used.
\<close>

section \<open>Length errors (\<^verbatim>\<open>error.rs\<close>)\<close>

datatype length_error_kind = LengthExceeded | LengthExpected | LengthMultipleExpected

record length_error =
  err_kind :: length_error_kind
  err_length :: nat
  err_index :: "nat option"

definition length_error_new :: "length_error_kind \<Rightarrow> nat \<Rightarrow> length_error" where
  "length_error_new k n = \<lparr>err_kind = k, err_length = n, err_index = None\<rparr>"

definition length_error_with_index :: "length_error_kind \<Rightarrow> nat \<Rightarrow> nat \<Rightarrow> length_error" where
  "length_error_with_index k n i = \<lparr>err_kind = k, err_length = n, err_index = Some i\<rparr>"

section \<open>Hashes\<close>

type_synonym sha_hash = bytes
type_synonym node_id = sha_hash
type_synonym info_hash = sha_hash

definition SHA_HASH_LEN :: nat where "SHA_HASH_LEN = 20"

definition sha_wf :: "sha_hash \<Rightarrow> bool" where
  "sha_wf h \<longleftrightarrow> length h = SHA_HASH_LEN"

definition from_hash :: "bytes \<Rightarrow> (length_error, sha_hash) outcome" where
  "from_hash h =
    (if length h = SHA_HASH_LEN then Ok (map snd (zip (replicate SHA_HASH_LEN (0 :: u8)) h))
     else Err (length_error_new LengthExpected SHA_HASH_LEN))"

definition sha_eq_bytes :: "sha_hash \<Rightarrow> bytes \<Rightarrow> bool" where
  "sha_eq_bytes h other =
    fold (\<lambda>(a, b) prev. prev \<and> a = b) (zip h other) (length other = length h)"

definition bitxor :: "sha_hash \<Rightarrow> sha_hash \<Rightarrow> sha_hash" where
  "bitxor self rhs = map2 (\<lambda>src dst. dst XOR src) rhs self"

text \<open>\<^verbatim>\<open>ShaHash::from_bytes\<close> and the builder: the digest of everything added, in order.\<close>

record sha_hash_builder =
  added :: bytes

definition builder_new :: sha_hash_builder where
  "builder_new = \<lparr>added = []\<rparr>"

definition add_bytes :: "sha_hash_builder \<Rightarrow> bytes \<Rightarrow> sha_hash_builder" where
  "add_bytes b bs = b\<lparr>added := added b @ bs\<rparr>"

definition build_hash :: "(bytes \<Rightarrow> sha_hash) \<Rightarrow> sha_hash_builder \<Rightarrow> sha_hash" where
  "build_hash sha1 b = sha1 (added b)"

definition from_bytes :: "(bytes \<Rightarrow> sha_hash) \<Rightarrow> bytes \<Rightarrow> sha_hash" where
  "from_bytes sha1 bs = build_hash sha1 (add_bytes builder_new bs)"

section \<open>Bits\<close>

datatype xor_rep = Diff | Same
datatype bit_rep = BitSet | BitUnset

fun bit_eq_xor :: "bit_rep \<Rightarrow> xor_rep \<Rightarrow> bool" where
  "bit_eq_xor BitSet Diff = True"
| "bit_eq_xor BitUnset Same = True"
| "bit_eq_xor _ _ = False"

record bits =
  bits_bytes :: bytes
  bit_pos :: nat

definition bits_new :: "bytes \<Rightarrow> bits" where
  "bits_new bs = \<lparr>bits_bytes = bs, bit_pos = 0\<rparr>"

definition bits_next :: "bits \<Rightarrow> bit_rep option \<times> bits" where
  "bits_next s =
    (if bit_pos s < length (bits_bytes s) * 8 then
       let byte_index = bit_pos s div 8;
           bit_offset = 7 - bit_pos s mod 8;
           bit_value = drop_bit bit_offset (bits_bytes s ! byte_index)
       in (Some (if bit_value = 1 then BitSet else BitUnset), s\<lparr>bit_pos := bit_pos s + 1\<rparr>)
     else (None, s))"

text \<open>\<^verbatim>\<open>bits().take_while(|&x| x == XorRep::Same).count()\<close>, the way every client uses the iterator.\<close>

function count_while_same :: "bits \<Rightarrow> nat" where
  "count_while_same s =
    (case bits_next s of
       (Some x, s') \<Rightarrow> if bit_eq_xor x Same then Suc (count_while_same s') else 0
     | (None, s') \<Rightarrow> 0)"
  by pat_completeness auto
termination
  by (relation "measure (\<lambda>s. length (bits_bytes s) * 8 - bit_pos s)")
    (auto simp: bits_next_def Let_def split: if_splits)

declare count_while_same.simps [simp del]

definition leading_bit_count :: "node_id \<Rightarrow> node_id \<Rightarrow> nat" where
  "leading_bit_count id_one id_two = (let diff_id = bitxor id_one id_two in count_while_same (bits_new diff_id))"

section \<open>Hash lemmas\<close>

lemma from_hash_Ok: "from_hash h = Ok r \<longleftrightarrow> sha_wf h \<and> r = h"
  by (auto simp: from_hash_def sha_wf_def)

lemma fold_zip_eq:
  "fold (\<lambda>(a, b) prev. prev \<and> a = b) (zip xs ys) c \<longleftrightarrow>
    c \<and> take (length ys) xs = take (length xs) ys"
  by (induction xs ys arbitrary: c rule: list_induct2') auto

lemma sha_eq_bytes_iff: "sha_eq_bytes h other \<longleftrightarrow> h = other"
  unfolding sha_eq_bytes_def fold_zip_eq
  by (cases "length h = length other") auto

lemma length_bitxor [simp]: "length (bitxor a b) = min (length a) (length b)"
  by (simp add: bitxor_def)

lemma nth_bitxor: "i < length a \<Longrightarrow> i < length b \<Longrightarrow> bitxor a b ! i = a ! i XOR b ! i"
  by (simp add: bitxor_def)

lemma bitxor_self: "bitxor a a = replicate (length a) 0"
  by (rule nth_equalityI) (simp_all add: nth_bitxor)

lemma bitxor_commute: "bitxor a b = bitxor b a"
  by (rule nth_equalityI) (auto simp: nth_bitxor xor.commute)

section \<open>What the bit iterator sees\<close>

text \<open>Bit \<open>i\<close> of a byte string, most significant bit of the first byte first.\<close>

definition bit_at :: "bytes \<Rightarrow> nat \<Rightarrow> bool" where
  "bit_at bs i = bit (bs ! (i div 8)) (7 - i mod 8)"

lemma bit_at_bitxor:
  "i < 8 * length a \<Longrightarrow> length b = length a \<Longrightarrow> bit_at (bitxor a b) i \<longleftrightarrow> bit_at a i \<noteq> bit_at b i"
proof -
  assume "i < 8 * length a" "length b = length a"
  then have "i div 8 < length a" "i div 8 < length b" by auto
  then show ?thesis by (simp add: bit_at_def nth_bitxor bit_xor_iff)
qed

lemma byte_index:
  assumes "m < 8"
  shows "(8 * q + m) div 8 = q" and "(8 * q + m) mod 8 = (m :: nat)"
  using assms by simp_all

lemma byte_eqI: "(\<And>k. k < 8 \<Longrightarrow> bit a k = bit b k) \<Longrightarrow> a = (b :: u8)"
  by (rule bit_word_eqI) simp

lemma drop_bit_eq_1_iff:
  "drop_bit n (w :: u8) = 1 \<longleftrightarrow> bit w n \<and> (\<forall>k > n. \<not> bit w k)"
proof
  assume *: "drop_bit n w = 1"
  have "bit w (n + j) \<longleftrightarrow> j = 0" for j
    using * bit_drop_bit_eq [of n w] by (metis bit_1_iff comp_apply)
  then show "bit w n \<and> (\<forall>k > n. \<not> bit w k)"
    by (metis add_0_right less_imp_add_positive less_numeral_extra(3))
next
  assume *: "bit w n \<and> (\<forall>k > n. \<not> bit w k)"
  show "drop_bit n w = 1"
  proof (rule byte_eqI)
    fix k show "bit (drop_bit n w) k = bit (1 :: u8) k"
      using * by (cases k) (auto simp: bit_drop_bit_eq bit_1_iff)
  qed
qed

text \<open>
  The iterator shifts without masking: it reports a set bit only when no higher bit of the same
  byte is set. After the first set bit of a byte it is wrong, up to that bit it is right.
\<close>

lemma bits_next_Some:
  assumes "bit_pos s < length (bits_bytes s) * 8"
  shows "bits_next s =
    (Some (if bit_at (bits_bytes s) (bit_pos s) \<and>
        (\<forall>j. 8 * (bit_pos s div 8) \<le> j \<and> j < bit_pos s \<longrightarrow> \<not> bit_at (bits_bytes s) j)
      then BitSet else BitUnset), s\<lparr>bit_pos := bit_pos s + 1\<rparr>)"
proof -
  define p where "p = bit_pos s"
  define w where "w = bits_bytes s ! (p div 8)"
  have up: "(\<forall>k > 7 - p mod 8. \<not> bit w k) \<longleftrightarrow>
      (\<forall>j. 8 * (p div 8) \<le> j \<and> j < p \<longrightarrow> \<not> bit_at (bits_bytes s) j)"
  proof (intro iffI allI impI)
    fix j assume *: "\<forall>k > 7 - p mod 8. \<not> bit w k" and j: "8 * (p div 8) \<le> j \<and> j < p"
    then have "j div 8 = p div 8" by linarith
    moreover have "7 - p mod 8 < 7 - j mod 8"
    proof -
      have "j mod 8 < p mod 8" using j calculation by (metis mod_less_eq_dividend
            add_less_cancel_left div_mult_mod_eq)
      moreover have "p mod 8 < 8" by simp
      ultimately show ?thesis by linarith
    qed
    ultimately show "\<not> bit_at (bits_bytes s) j" using * by (simp add: bit_at_def w_def)
  next
    fix k assume *: "\<forall>j. 8 * (p div 8) \<le> j \<and> j < p \<longrightarrow> \<not> bit_at (bits_bytes s) j"
      and k: "7 - p mod 8 < k"
    show "\<not> bit w k"
    proof
      assume "bit w k"
      then have "k < 8" using bit_imp_le_length [of w k] by simp
      define j where "j = 8 * (p div 8) + (7 - k)"
      have "j div 8 = p div 8" "j mod 8 = 7 - k" unfolding j_def by (rule byte_index, simp)+
      moreover have "j < p"
      proof -
        have "7 - k < p mod 8" using k \<open>k < 8\<close> by linarith
        moreover have "p = 8 * (p div 8) + p mod 8" by simp
        ultimately show ?thesis unfolding j_def by linarith
      qed
      moreover have "8 * (p div 8) \<le> j" by (simp add: j_def)
      ultimately have "\<not> bit w (7 - (7 - k))" using * by (metis bit_at_def w_def)
      with \<open>bit w k\<close> \<open>k < 8\<close> show False by simp
    qed
  qed
  have "drop_bit (7 - p mod 8) w = 1 \<longleftrightarrow> bit_at (bits_bytes s) p \<and>
      (\<forall>j. 8 * (p div 8) \<le> j \<and> j < p \<longrightarrow> \<not> bit_at (bits_bytes s) j)"
    unfolding drop_bit_eq_1_iff up by (simp add: bit_at_def w_def)
  then show ?thesis using assms by (simp add: bits_next_def Let_def p_def w_def)
qed

lemma count_while_same_spec:
  assumes "\<forall>j < bit_pos s. \<not> bit_at (bits_bytes s) j" and "bit_pos s \<le> 8 * length (bits_bytes s)"
  shows "(\<forall>j < bit_pos s + count_while_same s. \<not> bit_at (bits_bytes s) j) \<and>
    bit_pos s + count_while_same s \<le> 8 * length (bits_bytes s) \<and>
    (bit_pos s + count_while_same s < 8 * length (bits_bytes s) \<longrightarrow>
      bit_at (bits_bytes s) (bit_pos s + count_while_same s))"
  using assms
proof (induction s rule: count_while_same.induct)
  case (1 s)
  let ?p = "bit_pos s" and ?bs = "bits_bytes s"
  consider "?p = length ?bs * 8" | "?p < length ?bs * 8" "bit_at ?bs ?p"
    | "?p < length ?bs * 8" "\<not> bit_at ?bs ?p"
    using "1.prems" by fastforce
  then show ?case
  proof cases
    case 1
    then show ?thesis using "1.prems" by (simp add: count_while_same.simps [of s] bits_next_def)
  next
    case 2
    then have "bits_next s = (Some BitSet, s\<lparr>bit_pos := ?p + 1\<rparr>)"
      using "1.prems" by (simp add: bits_next_Some)
    then have "count_while_same s = 0" by (simp add: count_while_same.simps [of s])
    then show ?thesis using 2 "1.prems" by simp
  next
    case 3
    define s' where "s' = s\<lparr>bit_pos := ?p + 1\<rparr>"
    have next_s: "bits_next s = (Some BitUnset, s')"
      using "1.prems" 3 by (simp add: bits_next_Some s'_def)
    have "\<forall>j < bit_pos s'. \<not> bit_at (bits_bytes s') j" "bit_pos s' \<le> 8 * length (bits_bytes s')"
      using "1.prems" 3 by (auto simp: s'_def less_Suc_eq)
    note "1.IH" [OF next_s [symmetric] refl _ this]
    moreover have "count_while_same s = Suc (count_while_same s')"
      by (simp add: count_while_same.simps [of s] next_s)
    ultimately show ?thesis by (simp add: s'_def)
  qed
qed

lemma leading_bit_count_spec:
  assumes "length a = length b"
  shows "leading_bit_count a b \<le> 8 * length a"
    and "\<And>j. j < leading_bit_count a b \<Longrightarrow> bit_at a j = bit_at b j"
    and "leading_bit_count a b < 8 * length a \<Longrightarrow>
      bit_at a (leading_bit_count a b) \<noteq> bit_at b (leading_bit_count a b)"
proof -
  let ?n = "leading_bit_count a b"
  have n: "(\<forall>j < ?n. \<not> bit_at (bitxor a b) j) \<and> ?n \<le> 8 * length a \<and>
      (?n < 8 * length a \<longrightarrow> bit_at (bitxor a b) ?n)"
    using count_while_same_spec [of "bits_new (bitxor a b)"] assms
    by (simp add: leading_bit_count_def bits_new_def Let_def)
  then show "?n \<le> 8 * length a" by simp
  then show "bit_at a j = bit_at b j" if "j < ?n" for j
    using n that assms by (metis bit_at_bitxor order_less_le_trans)
  show "bit_at a ?n \<noteq> bit_at b ?n" if "?n < 8 * length a"
    using n that assms by (metis bit_at_bitxor)
qed

lemma leading_bit_count_eqI:
  assumes "length a = length b" and "n \<le> 8 * length a"
    and "\<And>j. j < n \<Longrightarrow> bit_at a j = bit_at b j"
    and "n < 8 * length a \<Longrightarrow> bit_at a n \<noteq> bit_at b n"
  shows "leading_bit_count a b = n"
  using assms leading_bit_count_spec [OF assms(1)]
  by (metis linorder_neqE_nat order_less_le_trans)

lemma bit_at_eqI:
  assumes "length a = length b" and "\<And>j. j < 8 * length a \<Longrightarrow> bit_at a j = bit_at b j"
  shows "a = b"
proof (rule nth_equalityI [OF assms(1)])
  fix i assume i: "i < length a"
  show "a ! i = b ! i"
  proof (rule byte_eqI)
    fix k :: nat assume "k < 8"
    define j where "j = 8 * i + (7 - k)"
    have "j div 8 = i" "j mod 8 = 7 - k" unfolding j_def by (rule byte_index, simp)+
    moreover have "j < 8 * length a" using i unfolding j_def by linarith
    ultimately show "bit (a ! i) k = bit (b ! i) k"
      using assms(2) [of j] \<open>k < 8\<close> by (simp add: bit_at_def)
  qed
qed

lemma leading_bit_count_self: "leading_bit_count a a = 8 * length a"
  by (rule leading_bit_count_eqI) simp_all

lemma leading_bit_count_full_iff:
  "length a = length b \<Longrightarrow> leading_bit_count a b = 8 * length a \<longleftrightarrow> a = b"
  using leading_bit_count_spec(2) [of a b] bit_at_eqI [of a b] leading_bit_count_self by metis

lemma leading_bit_count_commute: "leading_bit_count a b = leading_bit_count b a"
  by (simp add: leading_bit_count_def bitxor_commute)

end
