(* ===== verification/Util_Buffer.thy ===== *)
theory Util_Buffer
  imports Prelude
begin

text \<open>
  \<^verbatim>\<open>packages/util/src/contiguous.rs\<close>: the trait \<^verbatim>\<open>ContiguousBuffer\<close>, its implementation for \<^verbatim>\<open>Vec\<close>
  and the one that strings many buffers together. The trait is the locale below; the second
  implementation is a function of the operations of its element type, as the generic \<^verbatim>\<open>impl\<close> is.
  \<^verbatim>\<open>read\<close> passes slices to a closure: the model returns the slices in the order of the calls.
\<close>

section \<open>A vector with a fixed capacity\<close>

record 'a vec_buffer =
  vec_items :: "'a list"
  vec_capacity :: nat

definition vec_length :: "'a vec_buffer \<Rightarrow> nat" where
  "vec_length v = length (vec_items v)"

definition vec_clear :: "'a vec_buffer \<Rightarrow> 'a vec_buffer" where
  "vec_clear v = v\<lparr>vec_items := []\<rparr>"

definition vec_write :: "'a vec_buffer \<Rightarrow> 'a list \<Rightarrow> (unit, 'a vec_buffer) outcome" where
  "vec_write v data =
    (let available_space = vec_capacity v - vec_length v in
     if available_space < length data then Panic
     else Ok (v\<lparr>vec_items := vec_items v @ data\<rparr>))"

definition vec_read :: "'a vec_buffer \<Rightarrow> 'a list list" where
  "vec_read v = (if 0 < vec_length v then [vec_items v] else [])"

definition vec_wf :: "'a vec_buffer \<Rightarrow> bool" where
  "vec_wf v \<longleftrightarrow> vec_length v \<le> vec_capacity v"

section \<open>Many buffers as one\<close>

definition bufs_pack :: "'b list \<Rightarrow> 'b list \<Rightarrow> 'b list" where
  "bufs_pack self buffer = self @ buffer"

definition bufs_unpack :: "'b list \<Rightarrow> 'b list list" where
  "bufs_unpack self = map (\<lambda>b. [b]) self"

definition bufs_capacity :: "('b \<Rightarrow> nat) \<Rightarrow> 'b list \<Rightarrow> nat" where
  "bufs_capacity cap bufs = sum_list (map cap bufs)"

definition bufs_length :: "('b \<Rightarrow> nat) \<Rightarrow> 'b list \<Rightarrow> nat" where
  "bufs_length len bufs = sum_list (map len bufs)"

definition bufs_clear :: "('b \<Rightarrow> 'b) \<Rightarrow> 'b list \<Rightarrow> 'b list" where
  "bufs_clear clr bufs = map clr bufs"

fun bufs_write_loop ::
  "('b \<Rightarrow> nat) \<Rightarrow> ('b \<Rightarrow> nat) \<Rightarrow> ('b \<Rightarrow> 'a list \<Rightarrow> (unit, 'b) outcome) \<Rightarrow> 'a list \<Rightarrow> nat \<Rightarrow> 'b list \<Rightarrow>
    (unit, 'b list \<times> nat) outcome" where
  "bufs_write_loop cap len wr data bytes_written [] = Ok ([], bytes_written)"
| "bufs_write_loop cap len wr data bytes_written (b # bufs) =
    (if bytes_written = length data then Ok (b # bufs, bytes_written)
     else
       let available_capacity = cap b - len b;
           amount_to_write = min available_capacity (length data - bytes_written);
           start = bytes_written; stop = bytes_written + amount_to_write
       in and_then (slice_range data start stop) (\<lambda>d.
          and_then (wr b d) (\<lambda>b'.
          and_then (bufs_write_loop cap len wr data (bytes_written + amount_to_write) bufs) (\<lambda>(bufs', n).
            Ok (b' # bufs', n)))))"

definition bufs_write ::
  "('b \<Rightarrow> nat) \<Rightarrow> ('b \<Rightarrow> nat) \<Rightarrow> ('b \<Rightarrow> 'a list \<Rightarrow> (unit, 'b) outcome) \<Rightarrow> 'b list \<Rightarrow> 'a list \<Rightarrow>
    (unit, 'b list) outcome" where
  "bufs_write cap len wr bufs data =
    and_then (bufs_write_loop cap len wr data 0 bufs) (\<lambda>(bufs', bytes_written).
      if bytes_written = length data then Ok bufs' else Panic)"

definition bufs_read :: "('b \<Rightarrow> 'a list list) \<Rightarrow> 'b list \<Rightarrow> 'a list list" where
  "bufs_read rd bufs = concat (map rd bufs)"

text \<open>
  Data goes to the first buffer with room, so it lands behind everything stored before only when
  the buffers were filled from the front: every buffer before a non-empty one is full.
\<close>

fun bufs_packed :: "('b \<Rightarrow> nat) \<Rightarrow> ('b \<Rightarrow> nat) \<Rightarrow> 'b list \<Rightarrow> bool" where
  "bufs_packed cap len [] = True"
| "bufs_packed cap len (b # bufs) =
    ((len b = cap b \<or> (\<forall>b' \<in> set bufs. len b' = 0)) \<and> bufs_packed cap len bufs)"

definition bufs_wf :: "('b \<Rightarrow> bool) \<Rightarrow> ('b \<Rightarrow> nat) \<Rightarrow> ('b \<Rightarrow> nat) \<Rightarrow> 'b list \<Rightarrow> bool" where
  "bufs_wf w cap len bufs \<longleftrightarrow> (\<forall>b \<in> set bufs. w b) \<and> bufs_packed cap len bufs"

section \<open>The trait\<close>

locale contiguous_buffer =
  fixes cap :: "'b \<Rightarrow> nat"
    and len :: "'b \<Rightarrow> nat"
    and clr :: "'b \<Rightarrow> 'b"
    and wr :: "'b \<Rightarrow> 'a list \<Rightarrow> (unit, 'b) outcome"
    and rd :: "'b \<Rightarrow> 'a list list"
    and valid :: "'b \<Rightarrow> bool"
  assumes len_cap: "valid b \<Longrightarrow> len b \<le> cap b"
    and len_read: "valid b \<Longrightarrow> length (concat (rd b)) = len b"
    and read_nonempty: "valid b \<Longrightarrow> [] \<notin> set (rd b)"
    and clear_buffer: "valid b \<Longrightarrow> valid (clr b) \<and> cap (clr b) = cap b \<and> len (clr b) = 0"
    and write_fits: "valid b \<Longrightarrow> length data \<le> cap b - len b \<Longrightarrow>
      \<exists>b'. wr b data = Ok b' \<and> valid b' \<and> cap b' = cap b \<and> len b' = len b + length data \<and>
        concat (rd b') = concat (rd b) @ data"
    and write_overflow: "valid b \<Longrightarrow> cap b - len b < length data \<Longrightarrow> wr b data = Panic"
begin

lemma write_clear_read:
  assumes "valid b" and "length data \<le> cap b"
  shows "\<exists>b'. wr (clr b) data = Ok b' \<and> concat (rd b') = data"
proof -
  have c: "valid (clr b)" "cap (clr b) = cap b" "len (clr b) = 0"
    using clear_buffer [OF assms(1)] by auto
  then have "concat (rd (clr b)) = []" using len_read [of "clr b"] by simp
  with write_fits [of "clr b" data] c assms(2) show ?thesis by auto
qed

lemma bufs_len_cap: "\<forall>b \<in> set bufs. valid b \<Longrightarrow> bufs_length len bufs \<le> bufs_capacity cap bufs"
  by (induction bufs) (auto simp: bufs_length_def bufs_capacity_def add_mono len_cap)

lemma bufs_len_read: "\<forall>b \<in> set bufs. valid b \<Longrightarrow> length (concat (bufs_read rd bufs)) = bufs_length len bufs"
  by (induction bufs) (auto simp: bufs_length_def bufs_read_def len_read)

lemma bufs_read_Cons: "concat (bufs_read rd (b # bufs)) = concat (rd b) @ concat (bufs_read rd bufs)"
  by (simp add: bufs_read_def)

lemma bufs_length_0: "bufs_length len bufs = 0 \<longleftrightarrow> (\<forall>b \<in> set bufs. len b = 0)"
  by (simp add: bufs_length_def)

text \<open>
  What the loop has done when it ends: it took as much of the data as the buffers had room for,
  and on packed buffers it put it behind what was stored.
\<close>

definition written :: "'b list \<Rightarrow> nat \<Rightarrow> 'a list \<Rightarrow> nat" where
  "written bufs n data = min (bufs_capacity cap bufs - bufs_length len bufs) (length data - n)"

definition loop_post :: "'b list \<Rightarrow> nat \<Rightarrow> 'a list \<Rightarrow> 'b list \<Rightarrow> bool" where
  "loop_post bufs n data bufs' \<longleftrightarrow>
    (\<forall>b \<in> set bufs'. valid b) \<and> map cap bufs' = map cap bufs \<and>
    bufs_length len bufs' = bufs_length len bufs + written bufs n data \<and>
    (bufs_packed cap len bufs \<longrightarrow> bufs_packed cap len bufs' \<and>
      concat (bufs_read rd bufs') = concat (bufs_read rd bufs) @ slice data n (n + written bufs n data))"

lemma loop_post_packed:
  assumes valid: "valid b" "\<forall>b \<in> set bufs. valid b" and n: "n \<le> length data"
    and amt: "amt = min (cap b - len b) (length data - n)"
    and b': "cap b' = cap b" "len b' = len b + amt" "concat (rd b') = concat (rd b) @ slice data n (n + amt)"
    and post: "loop_post bufs (n + amt) data bufs'" and packed: "bufs_packed cap len (b # bufs)"
  shows "bufs_packed cap len (b' # bufs')"
    and "concat (bufs_read rd (b' # bufs')) = concat (bufs_read rd (b # bufs)) @
      slice data n (n + amt + written bufs (n + amt) data)"
proof -
  have *: "bufs_packed cap len bufs'" "concat (bufs_read rd bufs') = concat (bufs_read rd bufs) @
      slice data (n + amt) (n + amt + written bufs (n + amt) data)"
    "bufs_length len bufs' = bufs_length len bufs + written bufs (n + amt) data"
    using post packed by (auto simp: loop_post_def)
  have split: "slice data n (n + amt + w) = slice data n (n + amt) @ slice data (n + amt) (n + amt + w)" for w
    by (rule slice_split) simp_all
  have cases: "amt = 0 \<and> len b = cap b \<or> concat (bufs_read rd bufs) = [] \<and> bufs_length len bufs = 0"
  proof (cases "len b = cap b")
    case False
    with packed have "bufs_length len bufs = 0" by (auto simp: bufs_length_0)
    with bufs_len_read [OF valid(2)] show ?thesis by simp
  qed (simp add: amt)
  then show "concat (bufs_read rd (b' # bufs')) = concat (bufs_read rd (b # bufs)) @
      slice data n (n + amt + written bufs (n + amt) data)"
    unfolding bufs_read_Cons *(2) b'(3) split
    by (elim disjE conjE) (simp_all only: append_assoc append_Nil append_Nil2 add_0_right slice_same)
  have "len b' = cap b' \<or> bufs_length len bufs' = 0"
  proof (cases "amt = cap b - len b")
    case True
    with len_cap [OF valid(1)] b' show ?thesis by simp
  next
    case False
    then have "amt = length data - n" "len b \<noteq> cap b" using amt by auto
    then have "written bufs (n + amt) data = 0" using n by (simp add: written_def)
    with * cases \<open>len b \<noteq> cap b\<close> show ?thesis by simp
  qed
  with *(1) show "bufs_packed cap len (b' # bufs')" by (auto simp: bufs_length_0)
qed

lemma written_Cons:
  assumes "valid b" "\<forall>b \<in> set bufs. valid b" "n \<le> length data"
    and "amt = min (cap b - len b) (length data - n)"
  shows "written (b # bufs) n data = amt + written bufs (n + amt) data"
  using len_cap [OF assms(1)] bufs_len_cap [OF assms(2)] assms(3,4)
  by (auto simp: written_def bufs_capacity_def bufs_length_def min_def)

lemma write_loop:
  assumes "\<forall>b \<in> set bufs. valid b" and "n \<le> length data"
  shows "\<exists>bufs'. bufs_write_loop cap len wr data n bufs = Ok (bufs', n + written bufs n data) \<and>
    loop_post bufs n data bufs'"
  using assms
proof (induction bufs arbitrary: n)
  case Nil
  then show ?case
    by (simp add: written_def bufs_capacity_def bufs_length_def loop_post_def bufs_read_def slice_def)
next
  case (Cons b bufs)
  show ?case
  proof (cases "n = length data")
    case True
    then show ?thesis using Cons.prems by (simp add: written_def loop_post_def slice_def)
  next
    case False
    define amt where "amt = min (cap b - len b) (length data - n)"
    have amt: "n + amt \<le> length data" "length (slice data n (n + amt)) = amt"
      using Cons.prems by (auto simp: amt_def)
    have slice: "(slice_range data n (n + amt) :: (unit, 'a list) outcome) = Ok (slice data n (n + amt))"
      using amt(1) by (simp add: slice_range_def)
    obtain b' where b': "wr b (slice data n (n + amt)) = Ok b'" "valid b'" "cap b' = cap b"
      "len b' = len b + amt" "concat (rd b') = concat (rd b) @ slice data n (n + amt)"
      using write_fits [of b "slice data n (n + amt)"] Cons.prems amt by (auto simp: amt_def)
    obtain bufs' where bufs': "bufs_write_loop cap len wr data (n + amt) bufs =
        Ok (bufs', n + amt + written bufs (n + amt) data)" "loop_post bufs (n + amt) data bufs'"
      using Cons.IH [of "n + amt"] Cons.prems amt by auto
    have w: "written (b # bufs) n data = amt + written bufs (n + amt) data"
      using Cons.prems by (intro written_Cons) (simp_all add: amt_def)
    have "bufs_write_loop cap len wr data n (b # bufs) = Ok (b' # bufs', n + written (b # bufs) n data)"
      using False slice b'(1) bufs'(1) by (simp add: amt_def [symmetric] Let_def w)
    moreover have "loop_post (b # bufs) n data (b' # bufs')"
      using loop_post_packed [of b bufs n data amt b' bufs'] Cons.prems b' bufs'(2)
      by (auto simp: loop_post_def w amt_def bufs_length_def add.assoc)
    ultimately show ?thesis by blast
  qed
qed

lemma bufs_clear_contract:
  assumes "\<forall>b \<in> set bufs. valid b"
  shows "bufs_wf valid cap len (bufs_clear clr bufs) \<and>
    bufs_capacity cap (bufs_clear clr bufs) = bufs_capacity cap bufs \<and>
    bufs_length len (bufs_clear clr bufs) = 0"
  using assms
  by (induction bufs)
    (auto simp: bufs_wf_def bufs_clear_def bufs_capacity_def bufs_length_def clear_buffer)

lemma bufs_contract:
  "contiguous_buffer (bufs_capacity cap) (bufs_length len) (bufs_clear clr) (bufs_write cap len wr)
    (bufs_read rd) (bufs_wf valid cap len)"
proof (unfold_locales, goal_cases)
  case (3 bufs)
  then show ?case by (auto simp: bufs_wf_def bufs_read_def read_nonempty)
next
  case (4 bufs)
  then show ?case using bufs_clear_contract [of bufs] by (simp add: bufs_wf_def)
next
  case (5 bufs data)
  then obtain bufs' where "bufs_write_loop cap len wr data 0 bufs = Ok (bufs', length data)"
    "loop_post bufs 0 data bufs'" "written bufs 0 data = length data"
    using write_loop [of bufs 0 data] by (auto simp: bufs_wf_def written_def)
  then show ?case using 5
    by (auto simp: bufs_write_def loop_post_def bufs_wf_def bufs_capacity_def)
next
  case (6 bufs data)
  then show ?case using write_loop [of bufs 0 data]
    by (auto simp: bufs_wf_def bufs_write_def written_def)
qed (auto simp: bufs_wf_def bufs_len_cap bufs_len_read)

end

interpretation vec_buf: contiguous_buffer vec_capacity vec_length vec_clear vec_write vec_read vec_wf
proof (unfold_locales, goal_cases)
  case (5 b data)
  then show ?case by (auto simp: vec_write_def vec_length_def vec_wf_def vec_read_def Let_def)
qed (auto simp: vec_wf_def vec_read_def vec_length_def vec_clear_def vec_write_def)

interpretation vec_bufs: contiguous_buffer "bufs_capacity vec_capacity" "bufs_length vec_length"
  "bufs_clear vec_clear" "bufs_write vec_capacity vec_length vec_write" "bufs_read vec_read"
  "bufs_wf vec_wf vec_capacity vec_length"
  by (rule vec_buf.bufs_contract)

section \<open>Where the data goes\<close>

text \<open>On any buffers, packed or not: each takes the part of the data that fits its room.\<close>

fun vec_shares :: "'a list \<Rightarrow> 'a vec_buffer list \<Rightarrow> 'a list list" where
  "vec_shares data [] = []"
| "vec_shares data (b # bufs) =
    take (vec_capacity b - vec_length b) data # vec_shares (drop (vec_capacity b - vec_length b) data) bufs"

definition vec_extend :: "'a vec_buffer \<Rightarrow> 'a list \<Rightarrow> 'a vec_buffer" where
  "vec_extend b part = b\<lparr>vec_items := vec_items b @ part\<rparr>"

lemma length_vec_shares [simp]: "length (vec_shares data bufs) = length bufs"
  by (induction bufs arbitrary: data) auto

lemma vec_shares_empty: "part \<in> set (vec_shares [] bufs) \<Longrightarrow> part = []"
  by (induction bufs) auto

lemma vec_shares_Nil: "map2 vec_extend bufs (vec_shares [] bufs) = bufs"
  by (induction bufs) (auto simp: vec_extend_def)

lemma vec_write_loop_shares:
  assumes "n \<le> length data" and "bufs_write_loop vec_capacity vec_length vec_write data n bufs = Ok (bufs', k)"
  shows "bufs' = map2 vec_extend bufs (vec_shares (drop n data) bufs)"
  using assms
proof (induction bufs arbitrary: n bufs' k)
  case (Cons b bufs)
  show ?case
  proof (cases "n = length data")
    case True
    then show ?thesis using Cons.prems vec_shares_Nil [of "b # bufs"] by simp
  next
    case False
    define room where "room = vec_capacity b - vec_length b"
    define amt where "amt = min room (length data - n)"
    have amt: "n + amt \<le> length data" "amt \<le> room" using Cons.prems(1) by (auto simp: amt_def)
    have part: "slice data n (n + amt) = take room (drop n data)"
      by (auto simp: slice_def amt_def min_def)
    have rest: "drop (n + amt) data = drop room (drop n data)"
      by (auto simp: amt_def min_def add.commute)
    obtain bufs1 where run: "bufs_write_loop vec_capacity vec_length vec_write data (n + amt) bufs = Ok (bufs1, k)"
      and bufs': "bufs' = vec_extend b (slice data n (n + amt)) # bufs1"
      using Cons.prems(2) False amt
      by (auto simp: Let_def and_then_eq_Ok vec_write_def [of b] slice_range_def vec_extend_def room_def [symmetric] amt_def [symmetric]
          split: if_splits)
    from Cons.IH [OF amt(1) run] show ?thesis
      unfolding bufs' part rest by (simp add: room_def)
  qed
qed simp

lemma concat_vec_shares:
  "\<forall>b \<in> set bufs. vec_wf b \<Longrightarrow> length data \<le> bufs_capacity vec_capacity bufs - bufs_length vec_length bufs \<Longrightarrow>
   concat (vec_shares data bufs) = data"
proof (induction bufs arbitrary: data)
  case Nil
  then show ?case by (simp add: bufs_capacity_def)
next
  case (Cons b bufs)
  have "bufs_length vec_length bufs \<le> bufs_capacity vec_capacity bufs" "vec_length b \<le> vec_capacity b"
    using Cons.prems(1) vec_buf.bufs_len_cap by (auto simp: vec_wf_def)
  then have "length (drop (vec_capacity b - vec_length b) data) \<le> bufs_capacity vec_capacity bufs - bufs_length vec_length bufs"
    using Cons.prems(2) by (simp add: bufs_capacity_def bufs_length_def)
  then show ?case using Cons by simp
qed

lemma vec_shares_greedy:
  "i < j \<Longrightarrow> j < length bufs \<Longrightarrow> vec_wf (bufs ! i) \<Longrightarrow> vec_shares data bufs ! j \<noteq> [] \<Longrightarrow>
   vec_length (bufs ! i) + length (vec_shares data bufs ! i) = vec_capacity (bufs ! i)"
proof (induction bufs arbitrary: data i j)
  case (Cons b bufs)
  obtain j' where j: "j = Suc j'" using Cons.prems(1) by (cases j) auto
  have empty: "vec_shares [] bufs ! j' = []" using Cons.prems(2) j
    by (metis length_vec_shares nth_mem Suc_less_SucD length_Cons vec_shares_empty)
  show ?case
  proof (cases i)
    case 0
    then show ?thesis using Cons.prems empty j by (cases "length data \<le> vec_capacity b - vec_length b") (auto simp: vec_wf_def)
  next
    case (Suc i')
    then show ?thesis using Cons j by simp
  qed
qed simp

lemma vec_bufs_write_any:
  assumes "\<forall>b \<in> set bufs. vec_wf b"
    and "length data \<le> bufs_capacity vec_capacity bufs - bufs_length vec_length bufs"
  shows "\<exists>bufs'. bufs_write vec_capacity vec_length vec_write bufs data = Ok bufs' \<and>
    bufs' = map2 vec_extend bufs (vec_shares data bufs) \<and> (\<forall>b \<in> set bufs'. vec_wf b) \<and>
    (bufs_packed vec_capacity vec_length bufs \<longrightarrow> bufs_packed vec_capacity vec_length bufs' \<and>
      concat (bufs_read vec_read bufs') = concat (bufs_read vec_read bufs) @ data)"
proof -
  have n: "vec_buf.written bufs 0 data = length data" using assms(2) by (simp add: vec_buf.written_def)
  then obtain bufs' where run: "bufs_write_loop vec_capacity vec_length vec_write data 0 bufs = Ok (bufs', length data)"
    and post: "vec_buf.loop_post bufs 0 data bufs'"
    using vec_buf.write_loop [OF assms(1), of 0 data] by auto
  have "bufs' = map2 vec_extend bufs (vec_shares data bufs)" using vec_write_loop_shares [OF _ run] by simp
  then show ?thesis using run post n by (simp add: bufs_write_def vec_buf.loop_post_def)
qed

lemma vec_bufs_overflow:
  assumes "\<forall>b \<in> set bufs. vec_wf b"
    and "\<not> length data \<le> bufs_capacity vec_capacity bufs - bufs_length vec_length bufs"
  shows "bufs_write vec_capacity vec_length vec_write bufs data = Panic"
  using vec_buf.write_loop [OF assms(1), of 0 data] assms(2) by (auto simp: bufs_write_def vec_buf.written_def)

end
