(* ===== verification/Util_Trans.thy ===== *)
theory Util_Trans
  imports Prelude "HOL-Library.Multiset"
begin

text \<open>
  Transaction identifiers: \<^verbatim>\<open>packages/util/src/trans\<close> and the shuffle of \<^verbatim>\<open>lib.rs\<close>. The random number
  generator of the \<^verbatim>\<open>rand\<close> crate is a parameter: a function from a range and a generator state to
  a pick and the next state. The identifier type is a machine word of any width; its least and
  greatest value are parameters, since the sources are generic over signed and unsigned types.
\<close>

type_synonym 'r random_range = "nat \<Rightarrow> nat \<Rightarrow> 'r \<Rightarrow> nat \<times> 'r"

text \<open>The documented contract of \<^verbatim>\<open>random_range(lo..hi)\<close>.\<close>

definition in_range :: "'r random_range \<Rightarrow> bool" where
  "in_range rr \<longleftrightarrow> (\<forall>lo hi r. lo < hi \<longrightarrow> lo \<le> fst (rr lo hi r) \<and> fst (rr lo hi r) < hi)"

section \<open>Shuffling\<close>

text \<open>One round: both values are taken out, a default left behind, and put back crosswise.\<close>

definition take_swap :: "'a \<Rightarrow> nat \<Rightarrow> nat \<Rightarrow> 'a list \<Rightarrow> 'a list" where
  "take_swap dflt i swap_index list =
    (let src_val = list ! i; list = list[i := dflt];
         dst_val = list ! swap_index; list = list[swap_index := dflt];
         list = list[i := dst_val]
     in list[swap_index := src_val])"

definition fisher_shuffle :: "'r random_range \<Rightarrow> 'a \<Rightarrow> 'a list \<Rightarrow> 'r \<Rightarrow> 'a list \<times> 'r" where
  "fisher_shuffle rr dflt list r =
    fold (\<lambda>i (list, r). let (swap_index, r) = rr i (length list) r in (take_swap dflt i swap_index list, r))
      [0..<length list] (list, r)"

section \<open>Sequential identifiers\<close>

record 'i sequential_ids =
  next_id :: 'i

definition sequential_start_at :: "'a::len word \<Rightarrow> 'a word sequential_ids" where
  "sequential_start_at start = \<lparr>next_id = start\<rparr>"

definition sequential_generate :: "'a::len word sequential_ids \<Rightarrow> 'a word \<times> 'a word sequential_ids" where
  "sequential_generate s = (let curr_id = next_id s in (curr_id, s\<lparr>next_id := next_id s + 1\<rparr>))"

section \<open>Locally shuffled identifiers\<close>

definition TRANSACTION_ID_PREALLOC_LEN :: nat where "TRANSACTION_ID_PREALLOC_LEN = 2048"

record 'i locally_shuffled_ids =
  sequential :: "'i sequential_ids"
  stored_ids :: "'i list"

definition shuffled_start_at :: "'a::len word \<Rightarrow> 'a word locally_shuffled_ids" where
  "shuffled_start_at start = \<lparr>sequential = sequential_start_at start, stored_ids = []\<rparr>"

definition shuffled_new :: "'a::len word locally_shuffled_ids" where
  "shuffled_new = shuffled_start_at 0"

function refill_loop :: "'a::len word \<Rightarrow> 'a word \<Rightarrow> nat \<Rightarrow> bool \<Rightarrow> bool \<Rightarrow>
    'a word sequential_ids \<Rightarrow> 'a word list \<Rightarrow> 'a word sequential_ids \<times> 'a word list" where
  "refill_loop min_value max_value num_ids_generated contains_min_value contains_max_value sq stored =
    (if num_ids_generated < TRANSACTION_ID_PREALLOC_LEN \<and> (\<not> contains_min_value \<or> \<not> contains_max_value)
     then
       let (next_id, sq) = sequential_generate sq in
       refill_loop min_value max_value (num_ids_generated + 1)
         (contains_min_value \<or> next_id = min_value) (contains_max_value \<or> next_id = max_value)
         sq (stored @ [next_id])
     else (sq, stored))"
  by pat_completeness auto
termination
  by (relation "measure (\<lambda>(_, _, n, _). TRANSACTION_ID_PREALLOC_LEN - n)") auto

declare refill_loop.simps [simp del]

definition refill_stored_ids :: "'r random_range \<Rightarrow> 'a::len word \<Rightarrow> 'a word \<Rightarrow>
    'a word locally_shuffled_ids \<Rightarrow> 'r \<Rightarrow> 'a word locally_shuffled_ids \<times> 'r" where
  "refill_stored_ids rr min_value max_value s r =
    (let (sq, stored) = refill_loop min_value max_value 0 False False (sequential s) [];
         (stored, r) = fisher_shuffle rr 0 stored r
     in (\<lparr>sequential = sq, stored_ids = stored\<rparr>, r))"

lemma length_take_swap [simp]: "length (take_swap d i j xs) = length xs"
  by (simp add: take_swap_def Let_def)

lemma length_fisher_shuffle [simp]: "length (fst (fisher_shuffle rr d xs r)) = length xs"
proof -
  have "length (fst (fold (\<lambda>i (xs, r). let (j, r) = rr i (length xs) r in (take_swap d i j xs, r))
      is (ys, r))) = length ys" for "is" ys r
    by (induction "is" arbitrary: ys r) (auto simp: Let_def split: prod.splits)
  then show ?thesis by (simp add: fisher_shuffle_def)
qed

lemma refill_loop_length:
  "length stored \<le> length (snd (refill_loop mn mx n cmin cmax sq stored))"
proof (induction mn mx n cmin cmax sq stored rule: refill_loop.induct)
  case (1 mn mx n cmin cmax sq stored)
  show ?case
  proof (cases "n < TRANSACTION_ID_PREALLOC_LEN \<and> (\<not> cmin \<or> \<not> cmax)")
    case True
    with 1 show ?thesis
      by (subst refill_loop.simps) (force simp: sequential_generate_def Let_def)
  next
    case False
    then show ?thesis by (subst refill_loop.simps) auto
  qed
qed

lemma refill_loop_nonempty: "snd (refill_loop mn mx 0 False False sq []) \<noteq> []"
proof -
  have "length [next_id sq] \<le> length (snd (refill_loop mn mx 0 False False sq []))"
    using refill_loop_length [of "[next_id sq]"]
    by (subst refill_loop.simps) (simp add: TRANSACTION_ID_PREALLOC_LEN_def sequential_generate_def Let_def)
  then show ?thesis by auto
qed

lemma refill_nonempty: "stored_ids (fst (refill_stored_ids rr mn mx s r)) \<noteq> []"
proof -
  obtain sq stored where l: "refill_loop mn mx 0 False False (sequential s) [] = (sq, stored)"
    by (cases "refill_loop mn mx 0 False False (sequential s) []")
  then have "stored \<noteq> []" using refill_loop_nonempty [of mn mx "sequential s"] by simp
  then have "fst (fisher_shuffle rr 0 stored r) \<noteq> []"
    using length_fisher_shuffle [of rr 0 stored r] by (metis length_0_conv)
  with l show ?thesis by (auto simp: refill_stored_ids_def split: prod.splits)
qed

text \<open>\<^verbatim>\<open>generate\<close> calls itself after a refill; a refill never leaves the block empty.\<close>

function shuffled_generate :: "'r random_range \<Rightarrow> 'a::len word \<Rightarrow> 'a word \<Rightarrow>
    'a word locally_shuffled_ids \<Rightarrow> 'r \<Rightarrow> 'a word \<times> 'a word locally_shuffled_ids \<times> 'r" where
  "shuffled_generate rr min_value max_value s r =
    (if stored_ids s \<noteq> [] then (last (stored_ids s), s\<lparr>stored_ids := butlast (stored_ids s)\<rparr>, r)
     else let (s, r) = refill_stored_ids rr min_value max_value s r
       in shuffled_generate rr min_value max_value s r)"
  by pat_completeness auto
termination
proof (relation "measure (\<lambda>(rr, mn, mx, s, r). if stored_ids s = [] then 1 else 0)", goal_cases)
  case (2 rr mn mx s r x s' r')
  then show ?case using refill_nonempty [of rr mn mx s r] by (auto simp: case_prod_unfold)
qed simp

declare shuffled_generate.simps [simp del]

fun generate_many :: "'r random_range \<Rightarrow> 'a::len word \<Rightarrow> 'a word \<Rightarrow> nat \<Rightarrow>
    'a word locally_shuffled_ids \<Rightarrow> 'r \<Rightarrow> 'a word list \<times> 'a word locally_shuffled_ids \<times> 'r" where
  "generate_many rr mn mx 0 s r = ([], s, r)"
| "generate_many rr mn mx (Suc n) s r =
    (let (tid, s, r) = shuffled_generate rr mn mx s r; (tids, s, r) = generate_many rr mn mx n s r
     in (tid # tids, s, r))"

section \<open>The shuffle is a permutation\<close>

lemma take_swap_eq:
  assumes "i < length xs" "j < length xs"
  shows "take_swap d i j xs = xs[i := xs ! j, j := xs ! i]"
  using assms by (cases "i = j") (auto simp: take_swap_def Let_def list_update_swap)

lemma mset_fisher_shuffle:
  assumes "in_range rr"
  shows "mset (fst (fisher_shuffle rr d xs r)) = mset xs"
proof -
  have "mset (fst (fold (\<lambda>i (xs, r). let (j, r) = rr i (length xs) r in (take_swap d i j xs, r))
      is (ys, r))) = mset ys" if "\<forall>i \<in> set is. i < length ys" for "is" ys r
    using that
  proof (induction "is" arbitrary: ys r)
    case (Cons i "is")
    obtain j r' where j: "rr i (length ys) r = (j, r')" by fastforce
    then have "j < length ys" using assms Cons.prems by (metis in_range_def fst_conv list.set_intros(1))
    then have "mset (take_swap d i j ys) = mset ys"
      using Cons.prems by (simp add: take_swap_eq mset_swap)
    with Cons show ?case by (simp add: j)
  qed simp
  then show ?thesis by (simp add: fisher_shuffle_def)
qed

section \<open>A block of identifiers\<close>

text \<open>The \<open>k\<close> identifiers from \<open>start\<close> on.\<close>

definition id_run :: "'a::len word \<Rightarrow> nat \<Rightarrow> 'a word list" where
  "id_run start k = map (\<lambda>i. start + of_nat i) [0..<k]"

lemma id_run_0 [simp]: "id_run start 0 = []"
  by (simp add: id_run_def)

lemma id_run_Suc: "id_run start (Suc k) = id_run start k @ [start + of_nat k]"
  by (simp add: id_run_def)

lemma id_run_add: "id_run start (j + k) = id_run start j @ id_run (start + of_nat j) k"
  by (induction k) (simp_all add: id_run_Suc add.assoc)

lemma distinct_id_run: "k \<le> 2 ^ LENGTH('a) \<Longrightarrow> distinct (id_run (start :: 'a::len word) k)"
proof -
  assume k: "k \<le> 2 ^ LENGTH('a)"
  have "inj_on (\<lambda>i. start + of_nat i) {0..<k}"
  proof (rule inj_onI)
    fix i j assume "i \<in> {0..<k}" "j \<in> {0..<k}" and eq: "start + of_nat i = start + of_nat j"
    then have "i < 2 ^ LENGTH('a)" "j < 2 ^ LENGTH('a)" using k by auto
    moreover have "(of_nat i :: 'a word) = of_nat j" using eq by simp
    ultimately show "i = j" by (metis mod_less unat_of_nat)
  qed
  then show ?thesis by (simp add: id_run_def distinct_map)
qed

text \<open>A run as long as the number of values contains every value.\<close>

lemma id_run_all: "w \<in> set (id_run (start :: 'a::len word) (2 ^ LENGTH('a)))"
proof -
  have "w = start + of_nat (unat (w - start))" by simp
  moreover have "unat (w - start) < 2 ^ LENGTH('a)" by simp
  ultimately show ?thesis
    unfolding id_run_def set_map set_upt by (intro image_eqI [of _ _ "unat (w - start)"]) simp_all
qed

lemma refill_loop_run:
  fixes start :: "'a::len word"
  assumes "n \<le> 2 ^ LENGTH('a)" and "n \<le> TRANSACTION_ID_PREALLOC_LEN"
    and "cmin \<longleftrightarrow> mn \<in> set (id_run start n)" and "cmax \<longleftrightarrow> mx \<in> set (id_run start n)"
  shows "\<exists>k. n \<le> k \<and> k \<le> 2 ^ LENGTH('a) \<and> k \<le> TRANSACTION_ID_PREALLOC_LEN \<and>
    refill_loop mn mx n cmin cmax \<lparr>next_id = start + of_nat n\<rparr> (id_run start n) =
      (\<lparr>next_id = start + of_nat k\<rparr>, id_run start k)"
  using assms
proof (induction "TRANSACTION_ID_PREALLOC_LEN - n" arbitrary: n cmin cmax)
  case 0
  then have "refill_loop mn mx n cmin cmax \<lparr>next_id = start + of_nat n\<rparr> (id_run start n) =
      (\<lparr>next_id = start + of_nat n\<rparr>, id_run start n)"
    by (subst refill_loop.simps) simp
  with 0 show ?case by blast
next
  case (Suc m)
  show ?case
  proof (cases "cmin \<and> cmax")
    case True
    then have "refill_loop mn mx n cmin cmax \<lparr>next_id = start + of_nat n\<rparr> (id_run start n) =
        (\<lparr>next_id = start + of_nat n\<rparr>, id_run start n)"
      by (subst refill_loop.simps) simp
    with Suc.prems show ?thesis by blast
  next
    case False
    then have "n \<noteq> 2 ^ LENGTH('a)" using Suc.prems id_run_all [of mn start] id_run_all [of mx start] by blast
    then have n: "Suc n \<le> 2 ^ LENGTH('a)" "n < TRANSACTION_ID_PREALLOC_LEN"
      using Suc.prems Suc.hyps(2) by auto
    have "refill_loop mn mx n cmin cmax \<lparr>next_id = start + of_nat n\<rparr> (id_run start n) =
        refill_loop mn mx (Suc n) (cmin \<or> start + of_nat n = mn) (cmax \<or> start + of_nat n = mx)
          \<lparr>next_id = start + of_nat (Suc n)\<rparr> (id_run start (Suc n))"
      using False n(2)
      by (subst refill_loop.simps) (simp add: sequential_generate_def id_run_Suc add.commute add.left_commute)
    moreover have "\<exists>k. Suc n \<le> k \<and> k \<le> 2 ^ LENGTH('a) \<and> k \<le> TRANSACTION_ID_PREALLOC_LEN \<and>
      refill_loop mn mx (Suc n) (cmin \<or> start + of_nat n = mn) (cmax \<or> start + of_nat n = mx)
          \<lparr>next_id = start + of_nat (Suc n)\<rparr> (id_run start (Suc n)) =
        (\<lparr>next_id = start + of_nat k\<rparr>, id_run start k)"
      using Suc.hyps n Suc.prems(3,4) by (intro Suc.hyps(1)) (auto simp: id_run_Suc)
    ultimately show ?thesis by (metis Suc_leD)
  qed
qed

lemma refill_block:
  fixes s :: "'a::len word locally_shuffled_ids"
  assumes "in_range rr" and "refill_stored_ids rr mn mx s r = (s', r')"
  obtains k where "0 < k" "k \<le> 2 ^ LENGTH('a)" "k \<le> TRANSACTION_ID_PREALLOC_LEN"
    and "mset (stored_ids s') = mset (id_run (next_id (sequential s)) k)"
    and "next_id (sequential s') = next_id (sequential s) + of_nat k"
proof -
  let ?start = "next_id (sequential s)"
  obtain k where k: "k \<le> 2 ^ LENGTH('a)" "k \<le> TRANSACTION_ID_PREALLOC_LEN"
    "refill_loop mn mx 0 False False (sequential s) [] = (\<lparr>next_id = ?start + of_nat k\<rparr>, id_run ?start k)"
    using refill_loop_run [of 0 False mn ?start False mx] by (cases "sequential s") auto
  have "k \<noteq> 0" using refill_loop_nonempty [of mn mx "sequential s"] k(3) by (cases k) auto
  moreover have "mset (stored_ids s') = mset (id_run ?start k)"
    "next_id (sequential s') = ?start + of_nat k"
    using assms k(3) mset_fisher_shuffle [OF assms(1), of 0 "id_run ?start k" r]
    by (auto simp: refill_stored_ids_def split: prod.splits)
  ultimately show thesis using k that by simp
qed

section \<open>No identifier is handed out twice\<close>

text \<open>
  Handed out and stored identifiers together are a run of sequential ones; this is the invariant of
  every generator that started at \<open>start\<close>.
\<close>

definition ids_inv :: "'a::len word \<Rightarrow> 'a word list \<Rightarrow> 'a word locally_shuffled_ids \<Rightarrow> nat \<Rightarrow> bool" where
  "ids_inv start used s tot \<longleftrightarrow>
    mset used + mset (stored_ids s) = mset (id_run start tot) \<and>
    next_id (sequential s) = start + of_nat tot"

lemma mset_pop: "xs \<noteq> [] \<Longrightarrow> mset xs = add_mset (last xs) (mset (butlast xs))"
  by (induction xs rule: rev_induct) simp_all

lemma shuffled_generate_inv:
  assumes "in_range rr" and "ids_inv start used s tot" and "tot \<le> length used + TRANSACTION_ID_PREALLOC_LEN"
    and "shuffled_generate rr mn mx s r = (tid, s', r')"
  shows "\<exists>tot'. tot \<le> tot' \<and> tot' \<le> length (used @ [tid]) + TRANSACTION_ID_PREALLOC_LEN \<and>
    ids_inv start (used @ [tid]) s' tot'"
proof (cases "stored_ids s = []")
  case False
  then have "s' = s\<lparr>stored_ids := butlast (stored_ids s)\<rparr>" "tid = last (stored_ids s)"
    using assms(4) by (auto simp: shuffled_generate.simps [of rr mn mx s r])
  then show ?thesis using assms(2,3) mset_pop [OF False]
    by (intro exI [of _ tot]) (simp add: ids_inv_def)
next
  case True
  obtain s1 r1 where re: "refill_stored_ids rr mn mx s r = (s1, r1)" by fastforce
  then obtain k where k: "0 < k" "k \<le> TRANSACTION_ID_PREALLOC_LEN"
    "mset (stored_ids s1) = mset (id_run (next_id (sequential s)) k)"
    "next_id (sequential s1) = next_id (sequential s) + of_nat k"
    using refill_block [OF assms(1) re] by metis
  have ne: "stored_ids s1 \<noteq> []" using refill_nonempty [of rr mn mx s r] re by simp
  have "shuffled_generate rr mn mx s r = shuffled_generate rr mn mx s1 r1"
    using True re by (subst shuffled_generate.simps) simp
  then have s': "s' = s1\<lparr>stored_ids := butlast (stored_ids s1)\<rparr>" "tid = last (stored_ids s1)"
    using assms(4) ne by (auto simp: shuffled_generate.simps [of rr mn mx s1 r1])
  have "mset used = mset (id_run start tot)" "next_id (sequential s) = start + of_nat tot"
    using assms(2) True by (simp_all add: ids_inv_def)
  moreover from this have "length used = tot" by (metis id_run_def length_map length_upt minus_nat.diff_0 size_mset)
  ultimately show ?thesis using k s' mset_pop [OF ne]
    by (intro exI [of _ "tot + k"]) (simp add: ids_inv_def id_run_add add.assoc)
qed

lemma generate_many_inv:
  assumes "in_range rr" and "ids_inv start used s tot" and "tot \<le> length used + TRANSACTION_ID_PREALLOC_LEN"
    and "generate_many rr mn mx n s r = (tids, s', r')"
  shows "\<exists>tot'. tot' \<le> length (used @ tids) + TRANSACTION_ID_PREALLOC_LEN \<and>
    ids_inv start (used @ tids) s' tot' \<and> length tids = n"
  using assms(2-)
proof (induction n arbitrary: used s tot r tids)
  case 0
  then show ?case by auto
next
  case (Suc n)
  obtain tid s1 r1 where g: "shuffled_generate rr mn mx s r = (tid, s1, r1)" by (metis prod_cases3)
  obtain rest where rest: "generate_many rr mn mx n s1 r1 = (rest, s', r')" "tids = tid # rest"
    using Suc.prems(3) g by (auto split: prod.splits)
  from shuffled_generate_inv [OF assms(1) Suc.prems(1,2) g] obtain tot1 where
    "tot1 \<le> length (used @ [tid]) + TRANSACTION_ID_PREALLOC_LEN" "ids_inv start (used @ [tid]) s1 tot1"
    by blast
  from Suc.IH [OF this(2,1) rest(1)] rest(2) show ?case by simp
qed

lemma generate_many_distinct:
  fixes start :: "'a::len word"
  assumes "in_range rr" and "n + TRANSACTION_ID_PREALLOC_LEN \<le> 2 ^ LENGTH('a)"
    and "generate_many rr mn mx n (shuffled_start_at start) r = (tids, s', r')"
  shows "distinct tids" and "length tids = n"
proof -
  have "ids_inv start [] (shuffled_start_at start) 0"
    by (simp add: ids_inv_def shuffled_start_at_def sequential_start_at_def)
  from generate_many_inv [OF assms(1) this _ assms(3)] obtain tot where
    tot: "tot \<le> length tids + TRANSACTION_ID_PREALLOC_LEN" "ids_inv start tids s' tot" "length tids = n"
    by auto
  then have "distinct (id_run start tot)" using assms(2) by (intro distinct_id_run) simp
  then have "distinct (tids @ stored_ids s')"
    using tot(2) by (metis ids_inv_def mset_append mset_eq_imp_distinct_iff)
  then show "distinct tids" "length tids = n" using tot(3) by simp_all
qed

end
