(* ===== verification/Util_Properties.thy ===== *)
theory Util_Properties
  imports Util_Convert Util_Sha Util_Buffer Util_Trans
begin

text \<open>
  The properties of \<^verbatim>\<open>packages/util\<close>: the xor prefix length that orders the routing table, the byte
  forms of socket addresses, buffers strung together, and transaction identifiers.
\<close>

section \<open>Hashes\<close>

text \<open>
  C6. \<^verbatim>\<open>leading_bit_count\<close> is the length in bits of the longest common prefix of two identifiers:
  all bits before it agree, and the bit at it, when there is one, differs.
\<close>

theorem leading_bit_count_common_prefix:
  assumes "sha_wf a" and "sha_wf b"
  shows "leading_bit_count a b \<le> 160 \<and>
    (\<forall>j < leading_bit_count a b. bit_at a j = bit_at b j) \<and>
    (leading_bit_count a b < 160 \<longrightarrow>
      bit_at a (leading_bit_count a b) \<noteq> bit_at b (leading_bit_count a b)) \<and>
    (leading_bit_count a b = 160 \<longleftrightarrow> a = b)"
proof -
  have len: "length a = length b" "8 * length a = 160"
    using assms by (simp_all add: sha_wf_def SHA_HASH_LEN_def)
  from leading_bit_count_spec [OF len(1)] leading_bit_count_full_iff [OF len(1)] len(2)
  show ?thesis by auto
qed

definition low_id :: node_id where "low_id = replicate 20 0"
definition high_id :: node_id where "high_id = [0, 28] @ replicate 18 255"

theorem leading_bit_count_common_prefix_witness:
  "leading_bit_count low_id high_id = 11 \<and> bit_at low_id 10 = bit_at high_id 10 \<and>
    bit_at low_id 11 \<noteq> bit_at high_id 11"
proof -
  have "leading_bit_count low_id high_id = 11" by code_simp
  with leading_bit_count_common_prefix [of low_id high_id] show ?thesis
    by (simp add: sha_wf_def SHA_HASH_LEN_def low_id_def high_id_def)
qed

text \<open>
  The bit iterator itself is wrong after the first set bit of a byte: it shifts without
  masking, so the second bit of \<^verbatim>\<open>0b1100_0000\<close> is reported as not set. Counting leading equal bits
  stops at the first set bit and is not affected.
\<close>

lemma bits_iterator_unmasked:
  "bit_at [192] 0 \<and> bit_at [192] 1 \<and>
   fst (bits_next (bits_new [192])) = Some BitSet \<and>
   fst (bits_next (snd (bits_next (bits_new [192])))) = Some BitUnset"
  by code_simp

section \<open>Addresses\<close>

text \<open>
  C7. Socket addresses survive the trip through their byte form: a v4 socket exactly, a v6 socket
  up to its flow information and scope, which the 18 bytes do not carry; and the six bytes of a
  compact v4 peer survive the trip through a socket.
\<close>

theorem socket_bytes_roundtrip:
  "bytes_be_to_sock_v4 (sock_v4_to_bytes_be s4) = s4 \<and>
   bytes_be_to_sock_v6 (sock_v6_to_bytes_be s6) = s6\<lparr>v6_flowinfo := 0, v6_scope_id := 0\<rparr> \<and>
   sock_v4_to_bytes_be (bytes_be_to_sock_v4 [a, b, c, d, e, f]) = [a, b, c, d, e, f]"
  by (simp add: sock_v4_roundtrip sock_v6_roundtrip sock_v4_bytes_roundtrip)

section \<open>Buffers\<close>

text \<open>
  C8. Writing to several vectors strung together, however full each of them is. Data longer than the joint free space
  panics. Data that fits is cut into one part for each vector, in order; a part goes behind what its vector holds,
  no vector grows beyond its capacity, and a later vector gets something only when the earlier ones are full. On
  packed buffers, where every buffer before a non-empty one is full, this means that what a read returns is extended
  by the data, and the buffers stay packed. Buffers strung together by \<^verbatim>\<open>pack\<close> need not be packed, and then the data ends
  up between what was stored.
\<close>

theorem contiguous_buffers_write:
  assumes "\<forall>b \<in> set bufs. vec_wf b"
  shows "if length data \<le> bufs_capacity vec_capacity bufs - bufs_length vec_length bufs
    then \<exists>bufs' parts. bufs_write vec_capacity vec_length vec_write bufs data = Ok bufs' \<and>
      length parts = length bufs \<and> concat parts = data \<and>
      bufs' = map2 (\<lambda>b part. b\<lparr>vec_items := vec_items b @ part\<rparr>) bufs parts \<and>
      (\<forall>b \<in> set bufs'. vec_wf b) \<and>
      (\<forall>i j. i < j \<and> j < length bufs \<and> parts ! j \<noteq> [] \<longrightarrow> vec_length (bufs' ! i) = vec_capacity (bufs' ! i)) \<and>
      (bufs_packed vec_capacity vec_length bufs \<longrightarrow> bufs_packed vec_capacity vec_length bufs' \<and>
        concat (bufs_read vec_read bufs') = concat (bufs_read vec_read bufs) @ data)
    else bufs_write vec_capacity vec_length vec_write bufs data = Panic"
proof (cases "length data \<le> bufs_capacity vec_capacity bufs - bufs_length vec_length bufs")
  case True
  let ?parts = "vec_shares data bufs"
  obtain bufs' where w: "bufs_write vec_capacity vec_length vec_write bufs data = Ok bufs'"
    and bufs': "bufs' = map2 vec_extend bufs ?parts" and wf: "\<forall>b \<in> set bufs'. vec_wf b"
    and packed: "bufs_packed vec_capacity vec_length bufs \<longrightarrow> bufs_packed vec_capacity vec_length bufs' \<and>
      concat (bufs_read vec_read bufs') = concat (bufs_read vec_read bufs) @ data"
    using vec_bufs_write_any [OF assms True] by blast
  have full: "vec_length (bufs' ! i) = vec_capacity (bufs' ! i)" if "i < j" "j < length bufs" "?parts ! j \<noteq> []" for i j
    using vec_shares_greedy [OF that(1,2) _ that(3)] that(1,2) assms
    by (simp add: bufs' vec_extend_def vec_length_def)
  have map: "bufs' = map2 (\<lambda>b part. b\<lparr>vec_items := vec_items b @ part\<rparr>) bufs ?parts"
    using bufs' by (simp add: vec_extend_def [abs_def])
  show ?thesis
    unfolding if_P [OF True]
    by (rule exI [of _ bufs'], rule exI [of _ ?parts])
      (use w wf packed full map concat_vec_shares [OF assms True] in \<open>blast intro: length_vec_shares\<close>)
next
  case False
  then show ?thesis using vec_bufs_overflow [OF assms] by simp
qed

definition two_buffers :: "nat vec_buffer list" where
  "two_buffers = bufs_pack [\<lparr>vec_items = [1], vec_capacity = 2\<rparr>] [\<lparr>vec_items = [2], vec_capacity = 3\<rparr>]"

theorem contiguous_buffers_write_witness:
  "(\<exists>bufs'. bufs_write vec_capacity vec_length vec_write two_buffers [7, 8, 9] = Ok bufs' \<and>
     concat (bufs_read vec_read bufs') = [1, 7, 2, 8, 9]) \<and>
   bufs_write vec_capacity vec_length vec_write two_buffers [5, 6, 7, 8, 9] = Panic"
proof -
  have wf: "\<forall>b \<in> set two_buffers. vec_wf b"
    by (simp add: two_buffers_def bufs_pack_def vec_wf_def vec_length_def)
  have "bufs_write vec_capacity vec_length vec_write two_buffers [5, 6, 7, 8, 9] = Panic"
    using contiguous_buffers_write [OF wf, of "[5, 6, 7, 8, 9]"]
    by (simp add: two_buffers_def bufs_pack_def bufs_capacity_def bufs_length_def vec_length_def)
  moreover have "bufs_write vec_capacity vec_length vec_write two_buffers [7, 8, 9] =
     Ok [\<lparr>vec_items = [1, 7], vec_capacity = 2\<rparr>, \<lparr>vec_items = [2, 8, 9], vec_capacity = 3\<rparr>]"
    by code_simp
  ultimately show ?thesis by (simp add: bufs_read_def vec_read_def vec_length_def)
qed

section \<open>Transaction identifiers\<close>

text \<open>
  C9. A generator hands out no identifier twice as long as the number handed out and one
  preallocated block fit in the identifier type, whatever the start and the random choices.
\<close>

theorem transaction_ids_unique:
  fixes start :: "'a::len word"
  assumes "in_range rr" and "n + TRANSACTION_ID_PREALLOC_LEN \<le> 2 ^ LENGTH('a)"
    and "generate_many rr mn mx n (shuffled_start_at start) r = (tids, s', r')"
  shows "distinct tids \<and> length tids = n"
  using generate_many_distinct [OF assms] by simp

definition pick_first :: "unit random_range" where
  "pick_first lo hi r = (lo, r)"

theorem transaction_ids_unique_witness:
  "in_range pick_first \<and>
   distinct (fst (generate_many pick_first 0 (- 1) 5000 (shuffled_start_at (7 :: u64)) ()))"
proof -
  have rr: "in_range pick_first" by (simp add: in_range_def pick_first_def)
  obtain tids s' r' where
    run: "generate_many pick_first 0 (- 1) 5000 (shuffled_start_at (7 :: u64)) () = (tids, s', r')"
    using prod_cases3 by blast
  from transaction_ids_unique [OF rr _ run] have "distinct tids"
    by (simp add: TRANSACTION_ID_PREALLOC_LEN_def)
  with rr run show ?thesis by simp
qed

end
