(* ===== verification/Dht_Node.thy ===== *)
theory Dht_Node
  imports Util_Convert Util_Sha
begin

text \<open>
  \<^verbatim>\<open>packages/dht/src/routing/node.rs\<close>: a node of the routing table and its status. Points in time are
  integers in milliseconds; the clock that \<^verbatim>\<open>Utc::now()\<close> reads is the argument \<open>now\<close>, the same for
  all reads of one operation. The counters and times that the sources keep behind \<^verbatim>\<open>Arc\<close> are fields
  of the value.
\<close>

type_synonym time = int

definition minutes :: "int \<Rightarrow> time" where
  "minutes n = n * 60 * 1000"

definition MAX_LAST_SEEN_MINS :: int where "MAX_LAST_SEEN_MINS = 15"
definition MAX_REFRESH_REQUESTS :: u64 where "MAX_REFRESH_REQUESTS = 2"

datatype node_status = Bad | Questionable | Good

text \<open>The derived order: variants further down are greater.\<close>

fun status_rank :: "node_status \<Rightarrow> nat" where
  "status_rank Bad = 0"
| "status_rank Questionable = 1"
| "status_rank Good = 2"

instantiation node_status :: linorder
begin

definition less_eq_node_status :: "node_status \<Rightarrow> node_status \<Rightarrow> bool" where
  "less_eq_node_status a b \<longleftrightarrow> status_rank a \<le> status_rank b"

definition less_node_status :: "node_status \<Rightarrow> node_status \<Rightarrow> bool" where
  "less_node_status a b \<longleftrightarrow> status_rank a < status_rank b"

instance
proof
  fix a b :: node_status
  show "a \<le> b \<Longrightarrow> b \<le> a \<Longrightarrow> a = b"
    by (cases a; cases b) (simp_all add: less_eq_node_status_def)
qed (auto simp: less_eq_node_status_def less_node_status_def)

end

record node =
  node_id :: node_id
  node_addr :: socket_addr
  last_request :: "time option"
  last_response :: "time option"
  refresh_requests :: u64

section \<open>Operations\<close>

definition as_good :: "time \<Rightarrow> node_id \<Rightarrow> socket_addr \<Rightarrow> node" where
  "as_good now nid addr = \<lparr>node_id = nid, node_addr = addr, last_request = None,
    last_response = Some now, refresh_requests = 0\<rparr>"

definition as_questionable :: "time \<Rightarrow> node_id \<Rightarrow> socket_addr \<Rightarrow> node" where
  "as_questionable now nid addr =
    (let last_response_offset = minutes MAX_LAST_SEEN_MINS; response = now - last_response_offset
     in \<lparr>node_id = nid, node_addr = addr, last_request = None,
         last_response = Some response, refresh_requests = 0\<rparr>)"

definition as_bad :: "node_id \<Rightarrow> socket_addr \<Rightarrow> node" where
  "as_bad nid addr = \<lparr>node_id = nid, node_addr = addr, last_request = None,
    last_response = None, refresh_requests = 0\<rparr>"

definition recently_responded :: "node \<Rightarrow> time \<Rightarrow> node_status" where
  "recently_responded n curr_time =
    (case last_response n of
       None \<Rightarrow> Bad
     | Some response_time \<Rightarrow>
         let since_response = curr_time - response_time;
             max_last_response = minutes MAX_LAST_SEEN_MINS
         in if since_response < max_last_response then Good else Questionable)"

definition recently_requested :: "node \<Rightarrow> time \<Rightarrow> node_status" where
  "recently_requested n curr_time =
    (let max_last_request = minutes MAX_LAST_SEEN_MINS in
     if (case last_request n of Some request_time \<Rightarrow> curr_time - request_time < max_last_request
         | None \<Rightarrow> False)
     then Good
     else if refresh_requests n < MAX_REFRESH_REQUESTS then Questionable
     else Bad)"

definition status :: "time \<Rightarrow> node \<Rightarrow> node_status" where
  "status now n =
    (case recently_responded n now of
       Good \<Rightarrow> Good
     | Bad \<Rightarrow> Bad
     | Questionable \<Rightarrow> recently_requested n now)"

definition local_request :: "time \<Rightarrow> node \<Rightarrow> node" where
  "local_request now n =
    (if status now n \<noteq> Good then n\<lparr>refresh_requests := refresh_requests n + 1\<rparr> else n)"

definition remote_request :: "time \<Rightarrow> node \<Rightarrow> node" where
  "remote_request now n = n\<lparr>last_request := Some now\<rparr>"

definition remote_response :: "time \<Rightarrow> node \<Rightarrow> node" where
  "remote_response now n = n\<lparr>last_response := Some now, refresh_requests := 0\<rparr>"

definition node_eq :: "node \<Rightarrow> node \<Rightarrow> bool" where
  "node_eq a b \<longleftrightarrow> node_id a = node_id b \<and> node_addr a = node_addr b"

text \<open>The array of 26 zero bytes into which \<^verbatim>\<open>encode\<close> copies id, address and port.\<close>

definition node_encode :: "node \<Rightarrow> ('e, bytes) outcome" where
  "node_encode n =
    (case node_addr n of
       SockV6 _ \<Rightarrow> Panic
     | SockV4 v4 \<Rightarrow>
         let copied = take 26 (node_id n @ octets (v4_ip v4));
             encoded = copied @ replicate (26 - length copied) 0;
             port = v4_port v4
         in Ok (encoded[24 := ucast (drop_bit 8 port), 25 := ucast port]))"

section \<open>Status\<close>

type_synonym node_key = "node_id \<times> socket_addr"

definition node_key :: "node \<Rightarrow> node_key" where
  "node_key n = (node_id n, node_addr n)"

lemma node_eq_key: "node_eq a b \<longleftrightarrow> node_key a = node_key b"
  by (simp add: node_eq_def node_key_def)

lemma status_cases:
  "status now n =
    (case last_response n of
       None \<Rightarrow> Bad
     | Some r \<Rightarrow>
         if now - r < minutes 15 then Good
         else if (\<exists>q. last_request n = Some q \<and> now - q < minutes 15) then Good
         else if refresh_requests n < 2 then Questionable else Bad)"
  by (auto simp: status_def recently_responded_def recently_requested_def MAX_LAST_SEEN_MINS_def
      MAX_REFRESH_REQUESTS_def Let_def split: option.splits)

lemma status_never_responded [simp]: "last_response n = None \<Longrightarrow> status now n = Bad"
  by (simp add: status_cases)

lemma status_not_Bad_responded: "status now n \<noteq> Bad \<Longrightarrow> last_response n \<noteq> None"
  using status_never_responded by blast

lemma Bad_less_iff [simp]: "Bad < s \<longleftrightarrow> s \<noteq> Bad"
  by (cases s) (simp_all add: less_node_status_def)

lemma not_less_Bad [simp]: "\<not> s < Bad"
  by (simp add: less_node_status_def)

lemma Bad_le [simp]: "Bad \<le> s"
  by (simp add: less_eq_node_status_def)

lemma le_Good [simp]: "s \<le> Good"
  by (cases s) (simp_all add: less_eq_node_status_def)

lemma le_Bad [simp]: "s \<le> Bad \<longleftrightarrow> s = Bad"
  by (cases s) (simp_all add: less_eq_node_status_def)

lemma Good_le [simp]: "Good \<le> s \<longleftrightarrow> s = Good"
  by (cases s) (simp_all add: less_eq_node_status_def)

lemma status_as_bad [simp]: "status now (as_bad nid addr) = Bad"
  by (simp add: as_bad_def)

lemma status_as_good: "status now (as_good now nid addr) = Good"
  by (simp add: as_good_def status_cases minutes_def)

lemma status_as_questionable: "status now (as_questionable now nid addr) = Questionable"
  by (simp add: as_questionable_def status_cases Let_def MAX_LAST_SEEN_MINS_def)

lemma status_remote_response: "status now (remote_response now n) = Good"
  by (simp add: remote_response_def status_cases minutes_def)

lemma status_remote_request:
  "last_response n \<noteq> None \<Longrightarrow> status now (remote_request now n) = Good"
  by (auto simp: remote_request_def status_cases minutes_def split: option.splits)

text \<open>Two unanswered requests make a questionable node bad.\<close>

lemma status_two_requests:
  assumes "status now n = Questionable" and "refresh_requests n = 0"
  shows "status now (local_request now n) = Questionable"
    and "status now (local_request now (local_request now n)) = Bad"
proof -
  have resp: "status now (n\<lparr>refresh_requests := k\<rparr>) = (if k < 2 then Questionable else Bad)" for k
    using assms(1) by (auto simp: status_cases split: option.splits if_splits)
  then show one: "status now (local_request now n) = Questionable"
    using assms by (simp add: local_request_def)
  then have "local_request now (local_request now n) = n\<lparr>refresh_requests := 2\<rparr>"
    using assms by (simp add: local_request_def)
  then show "status now (local_request now (local_request now n)) = Bad"
    using resp by simp
qed

lemma node_encode_v4:
  assumes "sha_wf (node_id n)" and "node_addr n = SockV4 v4"
  shows "node_encode n = Ok (node_id n @ sock_v4_to_bytes_be v4)"
proof -
  obtain a b c d where ip: "v4_ip v4 = Ipv4Addr a b c d" by (cases "v4_ip v4")
  have len: "length (node_id n) = 20" using assms(1) by (simp add: sha_wf_def SHA_HASH_LEN_def)
  show ?thesis using assms(2)
    by (simp add: node_encode_def ip len Let_def list_update_append sock_v4_to_bytes_be_def
        ipv4_to_bytes_be_def port_to_bytes_be_def numeral_2_eq_2)
qed

end
