(* ===== verification/Dht_Bucket.thy ===== *)
theory Dht_Bucket
  imports Dht_Node
begin

text \<open>
  \<^verbatim>\<open>packages/dht/src/routing/bucket.rs\<close>: a bucket of eight node slots. A slot that was never used holds
  a placeholder node that never responded. \<^verbatim>\<open>add_node\<close> returns the new bucket with the flag the
  sources return.
\<close>

definition MAX_BUCKET_SIZE :: nat where "MAX_BUCKET_SIZE = 8"

record bucket =
  bucket_nodes :: "node list"

definition placeholder :: node where
  "placeholder = as_bad (replicate SHA_HASH_LEN 0)
    (SockV4 \<lparr>v4_ip = Ipv4Addr 127 0 0 1, v4_port = 0\<rparr>)"

definition bucket_new :: bucket where
  "bucket_new = \<lparr>bucket_nodes = [placeholder, placeholder, placeholder, placeholder,
    placeholder, placeholder, placeholder, placeholder]\<rparr>"

definition good_nodes_filter :: "time \<Rightarrow> node \<Rightarrow> bool" where
  "good_nodes_filter now n \<longleftrightarrow> status now n = Good"

definition good_nodes :: "time \<Rightarrow> bucket \<Rightarrow> node list" where
  "good_nodes now b = filter (good_nodes_filter now) (bucket_nodes b)"

definition pingable_nodes_filter :: "time \<Rightarrow> node \<Rightarrow> bool" where
  "pingable_nodes_filter now n \<longleftrightarrow> (let s = status now n in s = Good \<or> s = Questionable)"

definition pingable_nodes :: "time \<Rightarrow> bucket \<Rightarrow> node list" where
  "pingable_nodes now b = filter (pingable_nodes_filter now) (bucket_nodes b)"

definition needs_refresh :: "time \<Rightarrow> bucket \<Rightarrow> bool" where
  "needs_refresh now b = list_all (\<lambda>n. status now n \<noteq> Good) (bucket_nodes b)"

definition bucket_add_node :: "time \<Rightarrow> node \<Rightarrow> bucket \<Rightarrow> bucket \<times> bool" where
  "bucket_add_node now new_node b =
    (let nodes = bucket_nodes b; new_node_status = status now new_node in
     if new_node_status = Bad then (b, True)
     else case position (\<lambda>n. node_eq n new_node) nodes of
       Some index \<Rightarrow>
         let other_node_status = status now (nodes ! index) in
         (if other_node_status \<le> new_node_status then b\<lparr>bucket_nodes := nodes[index := new_node]\<rparr> else b,
          True)
     | None \<Rightarrow>
         (case position (\<lambda>n. status now n < new_node_status) nodes of
            Some index \<Rightarrow> (b\<lparr>bucket_nodes := nodes[index := new_node]\<rparr>, True)
          | None \<Rightarrow> (b, False)))"

section \<open>Invariant\<close>

text \<open>A node that has responded to us at some time, as opposed to a placeholder.\<close>

definition responded :: "node \<Rightarrow> bool" where
  "responded n \<longleftrightarrow> last_response n \<noteq> None"

definition live_nodes :: "bucket \<Rightarrow> node list" where
  "live_nodes b = filter responded (bucket_nodes b)"

text \<open>
  Eight slots, each either the placeholder or a node that responded, and no node twice. The third
  clause is what keeps a node with the placeholder's own key unique: it sits before every
  remaining placeholder.
\<close>

definition bucket_wf :: "bucket \<Rightarrow> bool" where
  "bucket_wf b \<longleftrightarrow> length (bucket_nodes b) = MAX_BUCKET_SIZE \<and>
    (\<forall>n \<in> set (bucket_nodes b). responded n \<or> n = placeholder) \<and>
    (\<forall>i j. i < j \<and> j < length (bucket_nodes b) \<and> responded (bucket_nodes b ! j) \<longrightarrow>
      node_key (bucket_nodes b ! i) \<noteq> node_key (bucket_nodes b ! j))"

lemma not_responded_placeholder [simp]: "\<not> responded placeholder"
  by (simp add: responded_def placeholder_def as_bad_def)

lemma status_placeholder [simp]: "status now placeholder = Bad"
  by (simp add: placeholder_def)

lemma responded_if_not_Bad: "status now n \<noteq> Bad \<Longrightarrow> responded n"
  using status_not_Bad_responded by (simp add: responded_def)

lemma bucket_nodes_new: "bucket_nodes bucket_new = replicate MAX_BUCKET_SIZE placeholder"
  by (simp add: bucket_new_def MAX_BUCKET_SIZE_def numeral_eq_Suc)

lemma bucket_wf_new: "bucket_wf bucket_new"
  by (auto simp: bucket_wf_def bucket_nodes_new)

lemma bucket_wf_length: "bucket_wf b \<Longrightarrow> length (bucket_nodes b) = MAX_BUCKET_SIZE"
  by (simp add: bucket_wf_def)

lemma bucket_wf_distinct:
  assumes "bucket_wf b"
  shows "distinct (map node_key (live_nodes b))"
proof -
  have "distinct (map node_key (filter responded xs))"
    if "\<forall>i j. i < j \<and> j < length xs \<and> responded (xs ! j) \<longrightarrow> node_key (xs ! i) \<noteq> node_key (xs ! j)" for xs
    using that
  proof (induction xs)
    case (Cons x xs)
    have "\<forall>i j. i < j \<and> j < length xs \<and> responded (xs ! j) \<longrightarrow> node_key (xs ! i) \<noteq> node_key (xs ! j)"
      using Cons.prems by (metis Suc_less_eq length_Cons nth_Cons_Suc)
    moreover have "node_key x \<noteq> node_key y" if "y \<in> set xs" "responded y" for y
    proof -
      obtain j where "j < length xs" "y = xs ! j"
        using \<open>y \<in> set xs\<close> by (metis in_set_conv_nth)
      then show ?thesis using Cons.prems [rule_format, of 0 "Suc j"] that by simp
    qed
    ultimately show ?case using Cons.IH by auto
  qed simp
  with assms show ?thesis by (simp add: bucket_wf_def live_nodes_def)
qed

section \<open>Adding a node\<close>

text \<open>What \<^verbatim>\<open>add_node\<close> does, one rule per path through the code.\<close>

lemma bucket_add_cases:
  assumes "bucket_add_node now n b = (b', ok)"
  obtains
    (bad) "status now n = Bad" "b' = b" "ok"
  | (keep) i where "status now n \<noteq> Bad" "i < length (bucket_nodes b)"
      "node_key (bucket_nodes b ! i) = node_key n" "status now n < status now (bucket_nodes b ! i)"
      "b' = b" "ok"
  | (update) i where "status now n \<noteq> Bad" "i < length (bucket_nodes b)"
      "node_key (bucket_nodes b ! i) = node_key n" "status now (bucket_nodes b ! i) \<le> status now n"
      "\<forall>j < i. node_key (bucket_nodes b ! j) \<noteq> node_key n"
      "b' = b\<lparr>bucket_nodes := (bucket_nodes b)[i := n]\<rparr>" "ok"
  | (replace) i where "status now n \<noteq> Bad" "i < length (bucket_nodes b)"
      "\<forall>m \<in> set (bucket_nodes b). node_key m \<noteq> node_key n"
      "status now (bucket_nodes b ! i) < status now n"
      "b' = b\<lparr>bucket_nodes := (bucket_nodes b)[i := n]\<rparr>" "ok"
  | (full) "status now n \<noteq> Bad" "\<forall>m \<in> set (bucket_nodes b). node_key m \<noteq> node_key n"
      "\<forall>m \<in> set (bucket_nodes b). status now n \<le> status now m" "b' = b" "\<not> ok"
proof (cases "status now n = Bad")
  case True
  with assms bad show thesis by (simp add: bucket_add_node_def Let_def)
next
  case notbad: False
  show thesis
  proof (cases "position (\<lambda>m. node_eq m n) (bucket_nodes b)")
    case (Some i)
    then have i: "i < length (bucket_nodes b)" "node_key (bucket_nodes b ! i) = node_key n"
      "\<forall>j < i. node_key (bucket_nodes b ! j) \<noteq> node_key n"
      by (auto simp: position_Some_iff node_eq_key)
    show thesis
    proof (cases "status now (bucket_nodes b ! i) \<le> status now n")
      case True
      then have "bucket_add_node now n b = (b\<lparr>bucket_nodes := (bucket_nodes b)[i := n]\<rparr>, True)"
        by (simp add: bucket_add_node_def Let_def notbad Some)
      with assms show thesis by (intro update [OF notbad i(1,2) True i(3)]) simp_all
    next
      case False
      then have "bucket_add_node now n b = (b, True)"
        by (simp add: bucket_add_node_def Let_def notbad Some)
      with assms False show thesis by (intro keep [OF notbad i(1,2)]) simp_all
    qed
  next
    case None
    then have none: "\<forall>m \<in> set (bucket_nodes b). node_key m \<noteq> node_key n"
      by (auto simp: position_None_iff node_eq_key)
    show thesis
    proof (cases "position (\<lambda>m. status now m < status now n) (bucket_nodes b)")
      case (Some i)
      then have i: "i < length (bucket_nodes b)" "status now (bucket_nodes b ! i) < status now n"
        by (auto simp: position_Some_iff)
      have "bucket_add_node now n b = (b\<lparr>bucket_nodes := (bucket_nodes b)[i := n]\<rparr>, True)"
        by (simp add: bucket_add_node_def Let_def notbad None Some)
      with assms show thesis by (intro replace [OF notbad i(1) none i(2)]) simp_all
    next
      case full': None
      then have le: "\<forall>m \<in> set (bucket_nodes b). status now n \<le> status now m"
        by (auto simp: position_None_iff not_less)
      have "bucket_add_node now n b = (b, False)"
        by (simp add: bucket_add_node_def Let_def notbad None full')
      with assms show thesis by (intro full [OF notbad none le]) simp_all
    qed
  qed
qed

lemma bucket_wf_update:
  assumes "bucket_wf b" and "responded n" and "i < length (bucket_nodes b)"
    and "\<forall>j < length (bucket_nodes b). node_key (bucket_nodes b ! j) = node_key n \<longrightarrow> i \<le> j"
    and "\<forall>j < length (bucket_nodes b). i < j \<and> responded (bucket_nodes b ! j) \<longrightarrow>
      node_key (bucket_nodes b ! j) \<noteq> node_key n"
  shows "bucket_wf (b\<lparr>bucket_nodes := (bucket_nodes b)[i := n]\<rparr>)"
proof -
  let ?ns = "bucket_nodes b"
  have "node_key (?ns[i := n] ! k) \<noteq> node_key (?ns[i := n] ! j)"
    if "k < j" "j < length ?ns" "responded (?ns[i := n] ! j)" for k j
  proof -
    consider "k = i" | "j = i" | "k \<noteq> i" "j \<noteq> i" by blast
    then show ?thesis
    proof cases
      case 1
      with that assms(3) assms(5) [rule_format, of j] show ?thesis by auto
    next
      case 2
      with that assms(3) assms(4) [rule_format, of k] show ?thesis by auto
    next
      case 3
      with that assms(1) show ?thesis by (simp add: bucket_wf_def)
    qed
  qed
  moreover have "\<forall>m \<in> set (?ns[i := n]). responded m \<or> m = placeholder"
    using assms(1,2) set_update_subset_insert [of ?ns i n] by (auto simp: bucket_wf_def)
  ultimately show ?thesis using assms(1) by (simp add: bucket_wf_def)
qed

lemma bucket_add_wf:
  assumes "bucket_wf b" and "bucket_add_node now n b = (b', ok)"
  shows "bucket_wf b'"
  using assms(2)
proof (cases rule: bucket_add_cases)
  case (update i)
  have "\<forall>j < length (bucket_nodes b). node_key (bucket_nodes b ! j) = node_key n \<longrightarrow> i \<le> j"
    using update(5) not_less by blast
  moreover have "\<forall>j < length (bucket_nodes b). i < j \<and> responded (bucket_nodes b ! j) \<longrightarrow>
      node_key (bucket_nodes b ! j) \<noteq> node_key n"
    using assms(1) update(3) unfolding bucket_wf_def by metis
  ultimately show ?thesis
    using bucket_wf_update [OF assms(1) responded_if_not_Bad [OF update(1)] update(2)] update(6) by simp
next
  case (replace i)
  then have "\<forall>j < length (bucket_nodes b). node_key (bucket_nodes b ! j) \<noteq> node_key n" by simp
  then show ?thesis
    using bucket_wf_update [OF assms(1) responded_if_not_Bad [OF replace(1)] replace(2)] replace(5) by blast
qed (use assms(1) in simp_all)

text \<open>
  What is in the bucket afterwards: nothing but the old nodes and the new one, and every old node
  whose status is at least that of the new one is still represented, with no worse status.
\<close>

lemma bucket_add_subset:
  assumes "bucket_add_node now n b = (b', ok)"
  shows "set (bucket_nodes b') \<subseteq> insert n (set (bucket_nodes b))"
  using assms by (cases rule: bucket_add_cases) (auto dest: set_update_subset_insert [THEN subsetD])

lemma bucket_add_keeps:
  assumes "bucket_add_node now n b = (b', ok)" and "m \<in> set (bucket_nodes b)"
    and "status now n \<le> status now m"
  shows "\<exists>m' \<in> set (bucket_nodes b'). node_key m' = node_key m \<and> status now m \<le> status now m'"
proof -
  have keep: "\<exists>m' \<in> set ((bucket_nodes b)[i := n]). node_key m' = node_key m \<and> status now m \<le> status now m'"
    if "i < length (bucket_nodes b)"
      "bucket_nodes b ! i = m \<longrightarrow> node_key m = node_key n \<and> status now m \<le> status now n" for i
  proof (cases "bucket_nodes b ! i = m")
    case True
    then show ?thesis using that by (intro bexI [of _ n]) (auto simp: set_update_memI)
  next
    case False
    then obtain j where "j < length (bucket_nodes b)" "j \<noteq> i" "bucket_nodes b ! j = m"
      using assms(2) by (metis in_set_conv_nth)
    then have "m \<in> set ((bucket_nodes b)[i := n])"
      by (metis length_list_update nth_list_update_neq nth_mem)
    then show ?thesis by auto
  qed
  from assms(1) show ?thesis
  proof (cases rule: bucket_add_cases)
    case (update i)
    then show ?thesis using keep [of i] by auto
  next
    case (replace i)
    then have "bucket_nodes b ! i \<noteq> m" using assms(3) by auto
    with keep [OF replace(2)] replace(5) show ?thesis by simp
  qed (use assms(2) in auto)
qed

lemma bucket_add_present:
  assumes "bucket_add_node now n b = (b', True)" and "status now n \<noteq> Bad"
  shows "\<exists>m \<in> set (bucket_nodes b'). node_key m = node_key n \<and> status now n \<le> status now m"
  using assms(1)
proof (cases rule: bucket_add_cases)
  case (keep i)
  then show ?thesis by (intro bexI [of _ "bucket_nodes b ! i"]) auto
next
  case (update i)
  then show ?thesis by (intro bexI [of _ n]) (auto simp: set_update_memI)
next
  case (replace i)
  then show ?thesis by (intro bexI [of _ n]) (auto simp: set_update_memI)
qed (use assms in auto)

text \<open>The flag is false exactly when there is neither a place for the node nor the node itself.\<close>

lemma bucket_add_full_iff:
  "\<not> snd (bucket_add_node now n b) \<longleftrightarrow> status now n \<noteq> Bad \<and>
    (\<forall>m \<in> set (bucket_nodes b). node_key m \<noteq> node_key n \<and> status now n \<le> status now m)"
  by (auto simp: bucket_add_node_def Let_def node_eq_key position_None_iff position_Some_iff not_less
      split: option.splits) (metis leD nth_mem)

lemma bucket_full_no_placeholder:
  assumes "\<not> snd (bucket_add_node now n b)" and "m \<in> set (bucket_nodes b)"
  shows "status now m \<noteq> Bad"
  using assms by (auto simp: bucket_add_full_iff)

end
