(* ===== verification/Dht_Table.thy ===== *)
theory Dht_Table
  imports Dht_Bucket
begin

text \<open>
  \<^verbatim>\<open>packages/dht/src/routing/table.rs\<close>: the routing table, insertion with bucket splitting, and lookup.
  The recursion between \<^verbatim>\<open>add_node\<close>, \<^verbatim>\<open>bucket_node\<close> and \<^verbatim>\<open>split_bucket\<close> is bounded by fuel, one unit
  per attempt to place a node; \<open>None\<close> means that the fuel ran out or that the code panics on an
  empty table. A table has at most 160 buckets, every split adds one, so 161 units are enough; that
  they are, for every well-formed table, is proved and not assumed.
\<close>

definition MAX_BUCKETS :: nat where "MAX_BUCKETS = SHA_HASH_LEN * 8"

record routing_table =
  buckets :: "bucket list"
  table_id :: node_id

definition table_new :: "node_id \<Rightarrow> routing_table" where
  "table_new nid = \<lparr>buckets = [bucket_new], table_id = nid\<rparr>"

definition can_split_bucket :: "nat \<Rightarrow> nat \<Rightarrow> bool" where
  "can_split_bucket num_buckets bucket_index \<longleftrightarrow>
    bucket_index = num_buckets - 1 \<and> bucket_index \<noteq> MAX_BUCKETS - 1"

definition bucket_placement :: "nat \<Rightarrow> nat \<Rightarrow> nat" where
  "bucket_placement num_same_bits num_buckets =
    (let ideal_index = num_same_bits in
     if num_buckets \<le> ideal_index then num_buckets - 1 else ideal_index)"

function (sequential) bucket_node :: "nat \<Rightarrow> time \<Rightarrow> node \<Rightarrow> nat \<Rightarrow> routing_table \<Rightarrow> routing_table option"
  and split_bucket :: "nat \<Rightarrow> time \<Rightarrow> nat \<Rightarrow> routing_table \<Rightarrow> (routing_table \<times> bool) option"
  and add_nodes :: "nat \<Rightarrow> time \<Rightarrow> node list \<Rightarrow> routing_table \<Rightarrow> routing_table option"
  and table_add_node :: "nat \<Rightarrow> time \<Rightarrow> node \<Rightarrow> routing_table \<Rightarrow> routing_table option"
where
  "bucket_node 0 now n num_same_bits t = None"
| "bucket_node (Suc fuel) now n num_same_bits t =
    (let bucket_index = bucket_placement num_same_bits (length (buckets t)) in
     if length (buckets t) \<le> bucket_index then None
     else let (b, placed) = bucket_add_node now n (buckets t ! bucket_index);
              t = t\<lparr>buckets := (buckets t)[bucket_index := b]\<rparr>
       in if \<not> placed then
            (case split_bucket fuel now bucket_index t of
               None \<Rightarrow> None
             | Some (t, did_split) \<Rightarrow>
                 if did_split then bucket_node fuel now n num_same_bits t else Some t)
          else Some t)"
| "split_bucket fuel now bucket_index t =
    (if \<not> can_split_bucket (length (buckets t)) bucket_index then Some (t, False)
     else if buckets t = [] then None
     else
       let split = last (buckets t);
           t = t\<lparr>buckets := (butlast (buckets t) @ [bucket_new]) @ [bucket_new]\<rparr>
       in (case add_nodes fuel now (bucket_nodes split) t of
             None \<Rightarrow> None
           | Some t \<Rightarrow> Some (t, True)))"
| "add_nodes fuel now [] t = Some t"
| "add_nodes fuel now (n # ns) t =
    (case table_add_node fuel now n t of None \<Rightarrow> None | Some t \<Rightarrow> add_nodes fuel now ns t)"
| "table_add_node fuel now n t =
    (if status now n = Bad then Some t
     else let num_same_bits = leading_bit_count (table_id t) (node_id n) in
       if num_same_bits \<noteq> MAX_BUCKETS then bucket_node fuel now n num_same_bits t else Some t)"
  by pat_completeness auto
termination bucket_node
  by (relation "measures
      [\<lambda>x. case x of Inl (Inl (f, _)) \<Rightarrow> f | Inl (Inr (f, _)) \<Rightarrow> f | Inr (Inl (f, _)) \<Rightarrow> f | Inr (Inr (f, _)) \<Rightarrow> f,
       \<lambda>x. case x of Inl (Inl _) \<Rightarrow> 0 | Inl (Inr _) \<Rightarrow> 3 | Inr (Inl _) \<Rightarrow> 2 | Inr (Inr _) \<Rightarrow> (1 :: nat),
       \<lambda>x. case x of Inr (Inl (_, _, ns, _)) \<Rightarrow> length ns | _ \<Rightarrow> 0]") simp_all

declare bucket_node.simps [simp del] split_bucket.simps [simp del] table_add_node.simps [simp del]

definition add_node :: "time \<Rightarrow> node \<Rightarrow> routing_table \<Rightarrow> routing_table option" where
  "add_node now n t = table_add_node (Suc MAX_BUCKETS) now n t"

section \<open>Iteration over buckets and lookup\<close>

datatype bucket_contents = EmptyBucket | Sorted bucket | Assorted bucket

record buckets_iter =
  iter_buckets :: "bucket list"
  iter_pos :: nat

definition buckets_iter_new :: "routing_table \<Rightarrow> buckets_iter" where
  "buckets_iter_new t = \<lparr>iter_buckets = buckets t, iter_pos = 0\<rparr>"

definition buckets_next :: "buckets_iter \<Rightarrow> bucket_contents option \<times> buckets_iter" where
  "buckets_next it =
    (let bs = iter_buckets it; i = iter_pos it; stepped = it\<lparr>iter_pos := i + 1\<rparr> in
     if MAX_BUCKETS < i then (None, it)
     else if i = MAX_BUCKETS then
       (if length bs = MAX_BUCKETS \<or> bs = [] then (None, stepped)
        else (Some (Assorted (bs ! (length bs - 1))), stepped))
     else if i + 1 < length bs \<or> length bs = MAX_BUCKETS then (Some (Sorted (bs ! i)), stepped)
     else (Some EmptyBucket, stepped))"

text \<open>\<^verbatim>\<open>Iterator::nth\<close> and \<^verbatim>\<open>Iterator::find\<close> over it.\<close>

fun buckets_nth :: "nat \<Rightarrow> buckets_iter \<Rightarrow> bucket_contents option" where
  "buckets_nth 0 it = fst (buckets_next it)"
| "buckets_nth (Suc n) it =
    (case buckets_next it of (None, it) \<Rightarrow> None | (Some _, it) \<Rightarrow> buckets_nth n it)"

function buckets_find :: "(bucket_contents \<Rightarrow> bool) \<Rightarrow> buckets_iter \<Rightarrow> bucket_contents option" where
  "buckets_find p it =
    (case buckets_next it of
       (None, it') \<Rightarrow> None
     | (Some c, it') \<Rightarrow> if p c then Some c else buckets_find p it')"
  by pat_completeness auto
termination
  by (relation "measure (\<lambda>(p, it). Suc MAX_BUCKETS - iter_pos it)")
    (auto simp: buckets_next_def Let_def split: if_splits)

declare buckets_find.simps [simp del]

fun is_assorted :: "bucket_contents \<Rightarrow> bool" where
  "is_assorted (Assorted _) = True"
| "is_assorted _ = False"

definition find_node :: "time \<Rightarrow> node \<Rightarrow> routing_table \<Rightarrow> node option" where
  "find_node now n t =
    (let bucket_index = leading_bit_count (table_id t) (node_id n);
         opt_bucket_contents =
           (case buckets_nth bucket_index (buckets_iter_new t) of
              Some c \<Rightarrow> Some c
            | None \<Rightarrow> buckets_find is_assorted (buckets_iter_new t))
     in case opt_bucket_contents of
          Some (Sorted b) \<Rightarrow> find (\<lambda>m. node_eq m n) (pingable_nodes now b)
        | Some (Assorted b) \<Rightarrow> find (\<lambda>m. node_eq m n) (pingable_nodes now b)
        | _ \<Rightarrow> None)"

section \<open>Invariant\<close>

text \<open>The index at which a node belongs, and what it takes to belong in the table at all.\<close>

definition home :: "routing_table \<Rightarrow> node \<Rightarrow> nat" where
  "home t n = bucket_placement (leading_bit_count (table_id t) (node_id n)) (length (buckets t))"

definition admissible :: "node_id \<Rightarrow> node \<Rightarrow> bool" where
  "admissible self n \<longleftrightarrow> sha_wf (node_id n) \<and> node_id n \<noteq> self"

definition table_wf :: "routing_table \<Rightarrow> bool" where
  "table_wf t \<longleftrightarrow> sha_wf (table_id t) \<and> 0 < length (buckets t) \<and> length (buckets t) \<le> MAX_BUCKETS \<and>
    (\<forall>b \<in> set (buckets t). bucket_wf b) \<and>
    (\<forall>i < length (buckets t). \<forall>n \<in> set (bucket_nodes (buckets t ! i)).
      responded n \<longrightarrow> admissible (table_id t) n \<and> home t n = i)"

definition table_nodes :: "routing_table \<Rightarrow> node list" where
  "table_nodes t = concat (map bucket_nodes (buckets t))"

definition good_keys :: "time \<Rightarrow> routing_table \<Rightarrow> node_key set" where
  "good_keys now t = node_key ` {m \<in> set (table_nodes t). status now m = Good}"

lemma MAX_BUCKETS_eq: "MAX_BUCKETS = 160"
  by (simp add: MAX_BUCKETS_def SHA_HASH_LEN_def)

lemma table_wf_new: "sha_wf nid \<Longrightarrow> table_wf (table_new nid)"
  by (auto simp: table_wf_def table_new_def bucket_wf_new bucket_nodes_new MAX_BUCKETS_eq)

lemma prefix_full_iff:
  assumes "sha_wf a" and "sha_wf b"
  shows "leading_bit_count a b = MAX_BUCKETS \<longleftrightarrow> a = b" and "leading_bit_count a b \<le> MAX_BUCKETS"
  using assms leading_bit_count_full_iff [of a b] leading_bit_count_spec(1) [of a b]
  by (simp_all add: sha_wf_def MAX_BUCKETS_eq SHA_HASH_LEN_def)

lemma bucket_placement_less: "0 < k \<Longrightarrow> bucket_placement n k < k"
  by (simp add: bucket_placement_def Let_def)

lemma bucket_placement_eq: "0 < k \<Longrightarrow> bucket_placement n k = min n (k - 1)"
  by (auto simp: bucket_placement_def Let_def)

lemma home_less: "table_wf t \<Longrightarrow> home t n < length (buckets t)"
  by (simp add: home_def table_wf_def bucket_placement_less)

lemma mem_table_nodes:
  "m \<in> set (table_nodes t) \<longleftrightarrow> (\<exists>i < length (buckets t). m \<in> set (bucket_nodes (buckets t ! i)))"
  by (auto simp: table_nodes_def set_conv_nth [of "buckets t"])

lemma table_wf_node:
  "table_wf t \<Longrightarrow> i < length (buckets t) \<Longrightarrow> n \<in> set (bucket_nodes (buckets t ! i)) \<Longrightarrow> responded n \<Longrightarrow>
    admissible (table_id t) n \<and> home t n = i"
  by (simp add: table_wf_def)

lemma table_wf_basic:
  "table_wf t \<Longrightarrow> sha_wf (table_id t) \<and> 0 < length (buckets t) \<and> length (buckets t) \<le> MAX_BUCKETS"
  by (simp add: table_wf_def)

lemma table_wf_buckets: "table_wf t \<Longrightarrow> \<forall>b \<in> set (buckets t). bucket_wf b"
  by (simp add: table_wf_def)

lemma table_wfI:
  "sha_wf (table_id t) \<Longrightarrow> 0 < length (buckets t) \<Longrightarrow> length (buckets t) \<le> MAX_BUCKETS \<Longrightarrow>
    \<forall>b \<in> set (buckets t). bucket_wf b \<Longrightarrow>
    (\<And>i n. i < length (buckets t) \<Longrightarrow> n \<in> set (bucket_nodes (buckets t ! i)) \<Longrightarrow> responded n \<Longrightarrow>
      admissible (table_id t) n \<and> home t n = i) \<Longrightarrow> table_wf t"
  by (simp add: table_wf_def)

lemma table_wf_bucket: "table_wf t \<Longrightarrow> i < length (buckets t) \<Longrightarrow> bucket_wf (buckets t ! i)"
  by (simp add: table_wf_def)

text \<open>Replacing one bucket by the result of adding a node that belongs there keeps the invariant.\<close>

definition place :: "time \<Rightarrow> node \<Rightarrow> routing_table \<Rightarrow> routing_table" where
  "place now n t = t\<lparr>buckets := (buckets t)[home t n := fst (bucket_add_node now n (buckets t ! home t n))]\<rparr>"

lemma place_simps [simp]:
  "table_id (place now n t) = table_id t" "length (buckets (place now n t)) = length (buckets t)"
  "home (place now n t) m = home t m"
  by (simp_all add: place_def home_def)

lemma place_wf:
  assumes "table_wf t" and "admissible (table_id t) n"
  shows "table_wf (place now n t)"
proof -
  let ?i = "home t n"
  obtain b ok where b: "bucket_add_node now n (buckets t ! ?i) = (b, ok)" by fastforce
  have bs: "buckets (place now n t) = (buckets t)[?i := b]" by (simp add: place_def b)
  have i: "?i < length (buckets t)" using home_less [OF assms(1)] .
  have wf_i: "bucket_wf (buckets t ! ?i)" using table_wf_bucket [OF assms(1) i] .
  have sub: "set (bucket_nodes b) \<subseteq> insert n (set (bucket_nodes (buckets t ! ?i)))"
    by (rule bucket_add_subset [OF b])
  show ?thesis
  proof (rule table_wfI)
    show "\<forall>b' \<in> set (buckets (place now n t)). bucket_wf b'"
      unfolding bs using table_wf_buckets [OF assms(1)] bucket_add_wf [OF wf_i b]
        set_update_subset_insert [of "buckets t" ?i b] by blast
  next
    fix j m
    assume "j < length (buckets (place now n t))" "m \<in> set (bucket_nodes (buckets (place now n t) ! j))"
      and m: "responded m"
    then have j: "j < length (buckets t)" "m \<in> set (bucket_nodes ((buckets t)[?i := b] ! j))"
      by (simp_all add: bs)
    have "admissible (table_id t) m \<and> home t m = j"
    proof (cases "j = ?i")
      case True
      then have "m = n \<or> m \<in> set (bucket_nodes (buckets t ! ?i))" using j sub i by auto
      then show ?thesis using True assms(2) table_wf_node [OF assms(1) i] m by blast
    next
      case False
      then show ?thesis using table_wf_node [OF assms(1) j(1)] j(2) m by simp
    qed
    then show "admissible (table_id (place now n t)) m \<and> home (place now n t) m = j" by simp
  qed (use table_wf_basic [OF assms(1)] in simp_all)
qed

lemma place_good_keys:
  assumes "table_wf t"
  shows "good_keys now t \<subseteq> good_keys now (place now n t)"
proof
  let ?i = "home t n"
  obtain b ok where b: "bucket_add_node now n (buckets t ! ?i) = (b, ok)" by fastforce
  fix k assume "k \<in> good_keys now t"
  then obtain m j where m: "k = node_key m" "status now m = Good" "j < length (buckets t)"
    "m \<in> set (bucket_nodes (buckets t ! j))"
    by (auto simp: good_keys_def mem_table_nodes)
  have "\<exists>m' \<in> set (bucket_nodes ((buckets t)[?i := b] ! j)). node_key m' = k \<and> status now m' = Good"
  proof (cases "j = ?i")
    case True
    with m bucket_add_keeps [OF b, of m] show ?thesis by auto
  next
    case False
    with m show ?thesis by auto
  qed
  then show "k \<in> good_keys now (place now n t)"
    using m(3) by (force simp: good_keys_def mem_table_nodes place_def b)
qed

lemma place_present:
  assumes "table_wf t" and "snd (bucket_add_node now n (buckets t ! home t n))" and "status now n \<noteq> Bad"
  shows "\<exists>m \<in> set (table_nodes (place now n t)). node_key m = node_key n \<and> status now n \<le> status now m"
proof -
  let ?i = "home t n"
  obtain b where b: "bucket_add_node now n (buckets t ! ?i) = (b, True)"
    using assms(2) by (cases "bucket_add_node now n (buckets t ! ?i)") auto
  from bucket_add_present [OF b assms(3)] home_less [OF assms(1), of n] show ?thesis
    by (force simp: mem_table_nodes place_def b)
qed

lemma place_nodes_subset: "set (table_nodes (place now n t)) \<subseteq> insert n (set (table_nodes t))"
proof (cases "home t n < length (buckets t)")
  case True
  obtain b ok where b: "bucket_add_node now n (buckets t ! home t n) = (b, ok)" by fastforce
  show ?thesis
  proof
    fix m assume "m \<in> set (table_nodes (place now n t))"
    then obtain j where j: "j < length (buckets t)" "m \<in> set (bucket_nodes ((buckets t)[home t n := b] ! j))"
      by (auto simp: mem_table_nodes place_def b)
    then show "m \<in> insert n (set (table_nodes t))"
      using bucket_add_subset [OF b] True
      by (cases "j = home t n") (auto simp: mem_table_nodes)
  qed
qed (auto simp: place_def list_update_beyond)

end
