(* ===== verification/Dht_Table_Correct.thy ===== *)
theory Dht_Table_Correct
  imports Dht_Table
begin

text \<open>
  Correctness of insertion into the routing table: it always returns, keeps the invariant, loses no
  good node (also when buckets are split), and turns a node away only when its bucket is full of
  nodes that are at least as good and cannot be split.
\<close>

lemma good_keysI: "m \<in> set (table_nodes t) \<Longrightarrow> status now m = Good \<Longrightarrow> node_key m \<in> good_keys now t"
  by (auto simp: good_keys_def)

section \<open>Room in a bucket\<close>

definition live :: "bucket \<Rightarrow> nat" where
  "live b = length (live_nodes b)"

lemma length_filter_update: "length (filter P (xs[i := x])) \<le> Suc (length (filter P xs))"
proof (induction xs arbitrary: i)
  case (Cons y ys)
  show ?case using Cons.IH [of "i - 1"] by (cases i) auto
qed simp

lemma bucket_add_live:
  assumes "bucket_add_node now n b = (b', ok)"
  shows "live b' \<le> Suc (live b)"
  using assms
  by (cases rule: bucket_add_cases) (simp_all add: live_def live_nodes_def length_filter_update)

lemma bucket_with_room:
  assumes "bucket_wf b" and "live b < MAX_BUCKET_SIZE"
  shows "snd (bucket_add_node now n b)"
proof (rule ccontr)
  assume "\<not> snd (bucket_add_node now n b)"
  then have "\<forall>m \<in> set (bucket_nodes b). responded m"
    using bucket_full_no_placeholder responded_if_not_Bad by blast
  then have "live b = length (bucket_nodes b)" by (simp add: live_def live_nodes_def)
  with assms show False by (simp add: bucket_wf_length)
qed

lemma live_new [simp]: "live bucket_new = 0"
  by (simp add: live_def live_nodes_def bucket_nodes_new)

section \<open>One placement\<close>

lemma admissible_prefix:
  assumes "table_wf t" and "admissible (table_id t) n"
  shows "leading_bit_count (table_id t) (node_id n) < MAX_BUCKETS"
  using assms prefix_full_iff [of "table_id t" "node_id n"]
  by (auto simp: table_wf_def admissible_def order_less_le)

lemma bucket_node_placed:
  assumes "table_wf t" and "snd (bucket_add_node now n (buckets t ! home t n))"
  shows "bucket_node (Suc f) now n (leading_bit_count (table_id t) (node_id n)) t = Some (place now n t)"
  using assms home_less [OF assms(1), of n]
  by (simp add: bucket_node.simps home_def [symmetric] place_def Let_def case_prod_unfold)

lemma table_add_node_placed:
  assumes "table_wf t" and "admissible (table_id t) n" and "status now n \<noteq> Bad"
    and "snd (bucket_add_node now n (buckets t ! home t n))"
  shows "table_add_node (Suc f) now n t = Some (place now n t)"
  using assms bucket_node_placed [OF assms(1,4)] admissible_prefix [OF assms(1,2)]
  by (simp add: table_add_node.simps Let_def)

section \<open>Splitting\<close>

text \<open>What a re-distribution of nodes over the last two buckets establishes.\<close>

definition grows :: "time \<Rightarrow> routing_table \<Rightarrow> routing_table \<Rightarrow> bool" where
  "grows now t t' \<longleftrightarrow> table_wf t' \<and> table_id t' = table_id t \<and>
    length (buckets t) \<le> length (buckets t') \<and> good_keys now t \<subseteq> good_keys now t'"

lemma grows_refl: "table_wf t \<Longrightarrow> grows now t t"
  by (simp add: grows_def)

lemma grows_trans: "grows now t t' \<Longrightarrow> grows now t' t'' \<Longrightarrow> grows now t t''"
  by (auto simp: grows_def)

lemma grows_place: "table_wf t \<Longrightarrow> admissible (table_id t) n \<Longrightarrow> grows now t (place now n t)"
  by (simp add: grows_def place_wf place_good_keys)

definition tail_live :: "routing_table \<Rightarrow> nat" where
  "tail_live t = live (buckets t ! (length (buckets t) - 2)) + live (buckets t ! (length (buckets t) - 1))"

lemma place_tail_live:
  assumes "home t n = length (buckets t) - 2 \<or> home t n = length (buckets t) - 1"
    and "2 \<le> length (buckets t)"
  shows "tail_live (place now n t) \<le> Suc (tail_live t)"
proof -
  obtain b ok where b: "bucket_add_node now n (buckets t ! home t n) = (b, ok)" by fastforce
  have ne: "length (buckets t) - 2 \<noteq> length (buckets t) - 1"
    "length (buckets t) - 2 < length (buckets t)" "length (buckets t) - 1 < length (buckets t)"
    using assms(2) by auto
  have "live b \<le> Suc (live (buckets t ! home t n))" by (rule bucket_add_live [OF b])
  with assms(1) ne show ?thesis
    by (auto simp: tail_live_def place_def b nth_list_update)
qed

lemma redistribute:
  assumes "table_wf t" and "2 \<le> length (buckets t)"
    and "\<forall>m \<in> set ns. responded m \<longrightarrow> admissible (table_id t) m \<and> length (buckets t) - 2 \<le> home t m"
    and "tail_live t + length ns \<le> MAX_BUCKET_SIZE"
  shows "\<exists>t'. add_nodes (Suc f) now ns t = Some t' \<and> grows now t t' \<and>
    length (buckets t') = length (buckets t) \<and>
    (\<forall>m \<in> set ns. status now m = Good \<longrightarrow> node_key m \<in> good_keys now t') \<and>
    set (table_nodes t') \<subseteq> set ns \<union> set (table_nodes t)"
  using assms
proof (induction ns arbitrary: t)
  case Nil
  then show ?case by (auto simp: grows_refl)
next
  case (Cons m ns)
  show ?case
  proof (cases "status now m = Bad")
    case True
    with Cons.prems Cons.IH [of t] show ?thesis by (auto simp: table_add_node.simps)
  next
    case False
    then have adm: "admissible (table_id t) m" and tail: "length (buckets t) - 2 \<le> home t m"
      using Cons.prems(3) responded_if_not_Bad by auto
    have home: "home t m < length (buckets t)" by (rule home_less [OF Cons.prems(1)])
    then have last_two: "home t m = length (buckets t) - 2 \<or> home t m = length (buckets t) - 1"
      using tail by linarith
    then have "live (buckets t ! home t m) \<le> tail_live t" by (auto simp: tail_live_def)
    then have placed: "snd (bucket_add_node now m (buckets t ! home t m))"
      using Cons.prems(4) table_wf_bucket [OF Cons.prems(1) home] by (intro bucket_with_room) simp_all
    have step: "table_add_node (Suc f) now m t = Some (place now m t)"
      by (rule table_add_node_placed [OF Cons.prems(1) adm False placed])
    have grow: "grows now t (place now m t)" by (rule grows_place [OF Cons.prems(1) adm])
    have "tail_live (place now m t) + length ns \<le> MAX_BUCKET_SIZE"
      using place_tail_live [OF last_two Cons.prems(2), of now] Cons.prems(4) by simp
    then obtain t' where t': "add_nodes (Suc f) now ns (place now m t) = Some t'"
      "grows now (place now m t) t'" "length (buckets t') = length (buckets t)"
      "\<forall>m \<in> set ns. status now m = Good \<longrightarrow> node_key m \<in> good_keys now t'"
      "set (table_nodes t') \<subseteq> set ns \<union> set (table_nodes (place now m t))"
      using Cons.IH [of "place now m t"] Cons.prems(2,3) place_wf [OF Cons.prems(1) adm] by auto
    have "node_key m \<in> good_keys now (place now m t)" if "status now m = Good"
      using place_present [OF Cons.prems(1) placed False] that good_keysI by fastforce
    then have "status now m = Good \<longrightarrow> node_key m \<in> good_keys now t'"
      using t'(2) by (auto simp: grows_def)
    moreover have "set (table_nodes t') \<subseteq> set (m # ns) \<union> set (table_nodes t)"
      using t'(5) place_nodes_subset [of now m t] by auto
    ultimately show ?thesis
      using step t' grows_trans [OF grow t'(2)] by auto
  qed
qed

text \<open>The table in which the last bucket has been taken out and two empty ones put at the end.\<close>

definition opened :: "routing_table \<Rightarrow> routing_table" where
  "opened t = t\<lparr>buckets := butlast (buckets t) @ [bucket_new, bucket_new]\<rparr>"

lemma length_opened [simp]: "0 < length (buckets t) \<Longrightarrow> length (buckets (opened t)) = Suc (length (buckets t))"
  by (simp add: opened_def)

lemma table_id_opened [simp]: "table_id (opened t) = table_id t"
  by (simp add: opened_def)

lemma nth_opened:
  assumes "i < length (buckets (opened t))"
  shows "buckets (opened t) ! i = (if Suc i < length (buckets t) then buckets t ! i else bucket_new)"
  using assms by (auto simp: opened_def nth_append nth_butlast nth_Cons')

lemma tail_live_opened: "0 < length (buckets t) \<Longrightarrow> tail_live (opened t) = 0"
  by (simp add: tail_live_def nth_opened)

lemma home_opened:
  assumes "table_wf t"
  shows "home t n + 1 < length (buckets t) \<Longrightarrow> home (opened t) n = home t n"
    and "home t n = length (buckets t) - 1 \<Longrightarrow> length (buckets t) - 1 \<le> home (opened t) n"
proof -
  have len: "0 < length (buckets t)" using table_wf_basic [OF assms] by simp
  then have o: "length (buckets (opened t)) = Suc (length (buckets t))" by simp
  show "home t n + 1 < length (buckets t) \<Longrightarrow> home (opened t) n = home t n"
    using len by (simp add: home_def o bucket_placement_eq)
  show "home t n = length (buckets t) - 1 \<Longrightarrow> length (buckets t) - 1 \<le> home (opened t) n"
    using len by (auto simp: home_def o bucket_placement_eq min_def split: if_splits)
qed

lemma opened_wf:
  assumes "table_wf t" and "length (buckets t) < MAX_BUCKETS"
  shows "table_wf (opened t)"
proof (rule table_wfI)
  note basic = table_wf_basic [OF assms(1)]
  show "sha_wf (table_id (opened t))" "0 < length (buckets (opened t))"
    "length (buckets (opened t)) \<le> MAX_BUCKETS"
    using basic assms(2) by simp_all
  show "\<forall>b \<in> set (buckets (opened t)). bucket_wf b"
    using table_wf_buckets [OF assms(1)] by (auto simp: opened_def bucket_wf_new dest: in_set_butlastD)
  fix i n
  assume i: "i < length (buckets (opened t))" and n: "n \<in> set (bucket_nodes (buckets (opened t) ! i))"
    and "responded n"
  then have "Suc i < length (buckets t)"
    by (cases "Suc i < length (buckets t)") (auto simp: nth_opened bucket_nodes_new)
  with n i \<open>responded n\<close> table_wf_node [OF assms(1), of i n] home_opened(1) [OF assms(1), of n]
  show "admissible (table_id (opened t)) n \<and> home (opened t) n = i"
    by (simp add: nth_opened)
qed

lemma opened_good_keys:
  assumes "k \<in> good_keys now t" and "0 < length (buckets t)"
  shows "k \<in> good_keys now (opened t) \<or>
    (\<exists>m \<in> set (bucket_nodes (last (buckets t))). status now m = Good \<and> node_key m = k)"
proof -
  obtain m i where m: "k = node_key m" "status now m = Good" "i < length (buckets t)"
    "m \<in> set (bucket_nodes (buckets t ! i))"
    using assms(1) by (auto simp: good_keys_def mem_table_nodes)
  show ?thesis
  proof (cases "Suc i < length (buckets t)")
    case True
    then have "m \<in> set (table_nodes (opened t))"
      using m assms(2) by (auto simp: mem_table_nodes nth_opened intro!: exI [of _ i])
    with m show ?thesis by (auto simp: good_keys_def)
  next
    case False
    then have "buckets t ! i = last (buckets t)"
      using m(3) by (metis Suc_lessI diff_Suc_1 last_conv_nth list.size(3) not_less_zero)
    with m show ?thesis by auto
  qed
qed

lemma opened_nodes:
  "0 < length (buckets t) \<Longrightarrow> m \<in> set (table_nodes (opened t)) \<Longrightarrow> m = placeholder \<or> m \<in> set (table_nodes t)"
  by (auto simp: mem_table_nodes nth_opened bucket_nodes_new split: if_splits)

lemma split_bucket_correct:
  assumes wf: "table_wf t" and room: "length (buckets t) < MAX_BUCKETS"
  shows "\<exists>t'. split_bucket (Suc f) now (length (buckets t) - 1) t = Some (t', True) \<and> grows now t t' \<and>
    length (buckets t') = Suc (length (buckets t)) \<and>
    set (table_nodes t') \<subseteq> insert placeholder (set (table_nodes t))"
proof -
  let ?last = "last (buckets t)" and ?l = "length (buckets t) - 1"
  have len: "0 < length (buckets t)" using table_wf_basic [OF wf] by simp
  have last: "?last = buckets t ! ?l" "?l < length (buckets t)" using len by (simp_all add: last_conv_nth)
  have ns: "\<forall>m \<in> set (bucket_nodes ?last). responded m \<longrightarrow>
      admissible (table_id (opened t)) m \<and> length (buckets (opened t)) - 2 \<le> home (opened t) m"
    using table_wf_node [OF wf last(2)] home_opened(2) [OF wf] len by (auto simp: last(1))
  have fits: "tail_live (opened t) + length (bucket_nodes ?last) \<le> MAX_BUCKET_SIZE"
    using table_wf_bucket [OF wf last(2)] len by (simp add: tail_live_opened last(1) bucket_wf_length)
  have two: "2 \<le> length (buckets (opened t))" using len by (simp add: Suc_le_eq)
  obtain t' where t': "add_nodes (Suc f) now (bucket_nodes ?last) (opened t) = Some t'"
    "grows now (opened t) t'" "length (buckets t') = length (buckets (opened t))"
    "\<forall>m \<in> set (bucket_nodes ?last). status now m = Good \<longrightarrow> node_key m \<in> good_keys now t'"
    "set (table_nodes t') \<subseteq> set (bucket_nodes ?last) \<union> set (table_nodes (opened t))"
    using redistribute [OF opened_wf [OF wf room] two ns fits, of f now] by auto
  have "good_keys now t \<subseteq> good_keys now t'"
    using opened_good_keys [OF _ len] t'(2,4) by (fastforce simp: grows_def)
  then have "grows now t t'" using t'(2,3) len by (simp add: grows_def)
  moreover have "set (table_nodes t') \<subseteq> insert placeholder (set (table_nodes t))"
  proof -
    have "set (bucket_nodes ?last) \<subseteq> set (table_nodes t)"
      unfolding last(1) using last(2) by (auto simp: mem_table_nodes)
    with t'(5) opened_nodes [OF len] show ?thesis by blast
  qed
  moreover have "split_bucket (Suc f) now ?l t = Some (t', True)"
    using t'(1) len room by (simp add: split_bucket.simps can_split_bucket_def opened_def [symmetric]
        MAX_BUCKETS_eq Let_def)
  ultimately show ?thesis using t'(3) len by auto
qed

section \<open>Insertion\<close>

text \<open>
  The node is in the table with at least its status, or its bucket holds only nodes that are at
  least as good and cannot be split.
\<close>

definition accounted :: "time \<Rightarrow> node \<Rightarrow> routing_table \<Rightarrow> bool" where
  "accounted now n t \<longleftrightarrow>
    (\<exists>m \<in> set (table_nodes t). node_key m = node_key n \<and> status now n \<le> status now m) \<or>
    (\<not> can_split_bucket (length (buckets t)) (home t n) \<and>
      (\<forall>m \<in> set (bucket_nodes (buckets t ! home t n)). status now n \<le> status now m))"

lemma bucket_node_full:
  assumes "table_wf t" and "\<not> snd (bucket_add_node now n (buckets t ! home t n))"
  shows "bucket_node (Suc f) now n (leading_bit_count (table_id t) (node_id n)) t =
    (case split_bucket f now (home t n) t of None \<Rightarrow> None
     | Some (t', did_split) \<Rightarrow>
         if did_split then bucket_node f now n (leading_bit_count (table_id t) (node_id n)) t' else Some t')"
proof -
  obtain b ok where b: "bucket_add_node now n (buckets t ! home t n) = (b, ok)" by fastforce
  then have "b = buckets t ! home t n" "\<not> ok"
    using assms(2) by (auto elim: bucket_add_cases)
  then have "t\<lparr>buckets := (buckets t)[home t n := b]\<rparr> = t" by simp
  with b \<open>\<not> ok\<close> home_less [OF assms(1), of n] show ?thesis
    by (simp add: bucket_node.simps home_def [symmetric] Let_def)
qed

lemma bucket_node_correct:
  assumes "table_wf t" and "admissible (table_id t) n" and "status now n \<noteq> Bad"
    and "MAX_BUCKETS < f + length (buckets t)"
  shows "\<exists>t'. bucket_node f now n (leading_bit_count (table_id t) (node_id n)) t = Some t' \<and>
    grows now t t' \<and> accounted now n t' \<and>
    set (table_nodes t') \<subseteq> insert n (insert placeholder (set (table_nodes t)))"
  using assms
proof (induction f arbitrary: t)
  case 0
  then show ?case using table_wf_basic [of t] by simp
next
  case (Suc f)
  let ?b = "buckets t ! home t n"
  have home: "home t n < length (buckets t)" by (rule home_less [OF Suc.prems(1)])
  consider (placed) "snd (bucket_add_node now n ?b)"
    | (stuck) "\<not> snd (bucket_add_node now n ?b)" "\<not> can_split_bucket (length (buckets t)) (home t n)"
    | (split) "\<not> snd (bucket_add_node now n ?b)" "can_split_bucket (length (buckets t)) (home t n)"
    by blast
  then show ?case
  proof cases
    case placed
    then have "accounted now n (place now n t)"
      using place_present [OF Suc.prems(1) _ Suc.prems(3)] by (simp add: accounted_def)
    then show ?thesis
      using bucket_node_placed [OF Suc.prems(1) placed] grows_place [OF Suc.prems(1,2)]
        place_nodes_subset [of now n t] by auto
  next
    case stuck
    then have "accounted now n t" by (simp add: accounted_def bucket_add_full_iff)
    then show ?thesis
      using bucket_node_full [OF Suc.prems(1) stuck(1)] stuck(2) grows_refl [OF Suc.prems(1)]
      by (auto simp: split_bucket.simps)
  next
    case split
    have room: "length (buckets t) < MAX_BUCKETS" and idx: "home t n = length (buckets t) - 1"
      using split(2) table_wf_basic [OF Suc.prems(1)] by (auto simp: can_split_bucket_def)
    have "0 < f" using Suc.prems(4) room by simp
    then obtain f' where f': "f = Suc f'" by (cases f) simp_all
    obtain t' where t': "split_bucket f now (home t n) t = Some (t', True)" "grows now t t'"
      "length (buckets t') = Suc (length (buckets t))"
      "set (table_nodes t') \<subseteq> insert placeholder (set (table_nodes t))"
      using split_bucket_correct [OF Suc.prems(1) room] unfolding idx f' by blast
    have "\<exists>t''. bucket_node f now n (leading_bit_count (table_id t') (node_id n)) t' = Some t'' \<and>
      grows now t' t'' \<and> accounted now n t'' \<and>
      set (table_nodes t'') \<subseteq> insert n (insert placeholder (set (table_nodes t')))"
      using t'(2,3) Suc.prems by (intro Suc.IH) (auto simp: grows_def)
    moreover have "table_id t' = table_id t" using t'(2) by (simp add: grows_def)
    ultimately show ?thesis
      using bucket_node_full [OF Suc.prems(1) split(1), of f] t' grows_trans [OF t'(2)] by fastforce
  qed
qed

lemma add_node_correct:
  assumes "table_wf t" and "sha_wf (node_id n)"
  shows "\<exists>t'. add_node now n t = Some t' \<and> grows now t t' \<and>
    (status now n \<noteq> Bad \<and> node_id n \<noteq> table_id t \<longrightarrow> accounted now n t') \<and>
    set (table_nodes t') \<subseteq> insert n (insert placeholder (set (table_nodes t)))"
proof (cases "status now n = Bad \<or> node_id n = table_id t")
  case True
  then have "add_node now n t = Some t"
    using prefix_full_iff(1) [of "table_id t" "node_id n"] assms table_wf_basic [OF assms(1)]
    by (auto simp: add_node_def table_add_node.simps)
  with True grows_refl [OF assms(1)] show ?thesis by auto
next
  case False
  then have adm: "admissible (table_id t) n" using assms(2) by (simp add: admissible_def)
  have "add_node now n t =
      bucket_node (Suc MAX_BUCKETS) now n (leading_bit_count (table_id t) (node_id n)) t"
    using False admissible_prefix [OF assms(1) adm] by (simp add: add_node_def table_add_node.simps)
  with bucket_node_correct [OF assms(1) adm, of now "Suc MAX_BUCKETS"] False show ?thesis by simp
qed

section \<open>Reachable tables\<close>

text \<open>The tables a node can get to: the new one, and insertions at any times.\<close>

inductive table_reachable :: "node_id \<Rightarrow> routing_table \<Rightarrow> bool" for self where
  start: "table_reachable self (table_new self)"
| insert_node: "table_reachable self t \<Longrightarrow> sha_wf (node_id n) \<Longrightarrow> add_node now n t = Some t' \<Longrightarrow>
    table_reachable self t'"

lemma table_reachable_wf:
  assumes "sha_wf self" and "table_reachable self t"
  shows "table_wf t \<and> table_id t = self"
  using assms(2)
proof (induction rule: table_reachable.induct)
  case start
  then show ?case using table_wf_new [OF assms(1)] by (simp add: table_new_def)
next
  case (insert_node t n now t')
  then show ?case using add_node_correct [of t n now] by (auto simp: grows_def)
qed

text \<open>Every node key occurs at most once in a well-formed table, placeholders aside.\<close>

lemma table_wf_key_unique:
  assumes "table_wf t" and "i < length (buckets t)" "j < length (buckets t)"
    and "m \<in> set (bucket_nodes (buckets t ! i))" "n \<in> set (bucket_nodes (buckets t ! j))"
    and "responded m" "responded n" "node_key m = node_key n"
  shows "i = j \<and> m = n"
proof -
  have ij: "i = j"
    using table_wf_node [OF assms(1,2,4,6)] table_wf_node [OF assms(1,3,5,7)] assms(8)
    by (simp add: node_key_def home_def)
  have "inj_on node_key (set (live_nodes (buckets t ! i)))"
    using bucket_wf_distinct [OF table_wf_bucket [OF assms(1,2)]] by (simp add: distinct_map)
  then show ?thesis using assms(4-8) ij by (auto simp: live_nodes_def inj_on_def)
qed

end
