(* ===== verification/Dht_Closest.thy ===== *)
theory Dht_Closest
  imports Dht_Table_Correct "HOL-Library.Multiset"
begin

text \<open>
  The second half of \<^verbatim>\<open>packages/dht/src/routing/table.rs\<close>: the iterator \<^verbatim>\<open>ClosestNodes\<close>, which walks the
  buckets outwards from the one a target falls into, and the lookup of a single node.
\<close>

section \<open>The order in which buckets are visited\<close>

fun index_is_in_bounds :: "nat \<Rightarrow> nat option \<Rightarrow> bool" where
  "index_is_in_bounds len (Some index) = (index < len)"
| "index_is_in_bounds len None = False"

text \<open>Positions are below 160, so the checked additions never overflow; the subtractions may.\<close>

definition checked_sub :: "nat \<Rightarrow> nat \<Rightarrow> nat option" where
  "checked_sub a b = (if b \<le> a then Some (a - b) else None)"

definition next_bucket_index :: "nat \<Rightarrow> nat \<Rightarrow> nat \<Rightarrow> nat option" where
  "next_bucket_index num_buckets start_index curr_index =
    (if curr_index < start_index then
       let offset = (start_index - curr_index) + 1;
           right_index = Some (start_index + offset);
           left_index = checked_sub curr_index 1
       in if index_is_in_bounds num_buckets right_index then right_index
          else if index_is_in_bounds num_buckets left_index then left_index
          else None
     else if curr_index = start_index then
       let right_index = Some (start_index + 1);
           left_index = checked_sub start_index 1
       in if index_is_in_bounds num_buckets right_index then right_index
          else if index_is_in_bounds num_buckets left_index then left_index
          else None
     else
       let offset = curr_index - start_index;
           left_index = checked_sub start_index offset;
           right_index = Some (curr_index + 1)
       in if index_is_in_bounds num_buckets left_index then left_index
          else if index_is_in_bounds num_buckets right_index then right_index
          else None)"

text \<open>
  The order as a number: distance from the start first, the right side before the left. The code
  steps to the index in bounds that is next in this order.
\<close>

definition visit_rank :: "nat \<Rightarrow> nat \<Rightarrow> nat" where
  "visit_rank start i = (if i < start then 2 * (start - i) + 1 else 2 * (i - start))"

lemma visit_rank_inj: "visit_rank s i = visit_rank s j \<Longrightarrow> i = j"
  by (auto simp: visit_rank_def split: if_splits) presburger+

lemma next_bucket_index_Some:
  assumes "next_bucket_index n s c = Some j" and "c < n \<or> c = s"
  shows "j < n" and "visit_rank s c < visit_rank s j"
    and "k < n \<Longrightarrow> visit_rank s c < visit_rank s k \<Longrightarrow> visit_rank s j \<le> visit_rank s k"
  using assms
  by (auto simp: next_bucket_index_def visit_rank_def checked_sub_def Let_def split: if_splits)

lemma next_bucket_index_None:
  assumes "next_bucket_index n s c = None" and "c < n \<or> c = s" and "s \<le> n" and "k < n"
  shows "visit_rank s k \<le> visit_rank s c"
  using assms
  by (auto simp: next_bucket_index_def visit_rank_def checked_sub_def Let_def split: if_splits)

lemma next_bucket_index_measure:
  assumes "next_bucket_index n s c = Some j"
  shows "2 * (n + s + 1) - visit_rank s j < 2 * (n + s + 1) - visit_rank s c"
  using assms
  by (auto simp: next_bucket_index_def visit_rank_def checked_sub_def Let_def split: if_splits)

text \<open>The indices visited after a given one.\<close>

function order_after :: "nat \<Rightarrow> nat \<Rightarrow> nat \<Rightarrow> nat list" where
  "order_after n s c =
    (case next_bucket_index n s c of None \<Rightarrow> [] | Some j \<Rightarrow> j # order_after n s j)"
  by pat_completeness auto
termination
  by (relation "measure (\<lambda>(n, s, c). 2 * (n + s + 1) - visit_rank s c)")
    (simp_all only: in_measure case_prod_conv next_bucket_index_measure wf_measure)

declare order_after.simps [simp del]

lemma order_after_ranks:
  assumes "c < n \<or> c = s" and "s \<le> n"
  shows "sorted_wrt (<) (map (visit_rank s) (order_after n s c))"
    and "set (order_after n s c) = {k. k < n \<and> visit_rank s c < visit_rank s k}"
proof -
  have "sorted_wrt (<) (map (visit_rank s) (order_after n s c)) \<and>
    set (order_after n s c) = {k. k < n \<and> visit_rank s c < visit_rank s k}"
    using assms
  proof (induction n s c rule: order_after.induct)
    case (1 n s c)
    show ?case
    proof (cases "next_bucket_index n s c")
      case None
      then show ?thesis using next_bucket_index_None [OF None "1.prems"] leD
        by (auto simp: order_after.simps [of n s c])
    next
      case (Some j)
      note j = next_bucket_index_Some [OF Some "1.prems"(1)]
      have IH: "sorted_wrt (<) (map (visit_rank s) (order_after n s j))"
        "set (order_after n s j) = {k. k < n \<and> visit_rank s j < visit_rank s k}"
        using "1.IH" [OF Some] j(1) "1.prems"(2) by auto
      have "{k. k < n \<and> visit_rank s c < visit_rank s k} =
          insert j {k. k < n \<and> visit_rank s j < visit_rank s k}"
        using j visit_rank_inj [of s j] by (auto simp: order_less_le)
      with IH show ?thesis by (simp add: order_after.simps [of n s c] Some)
    qed
  qed
  then show "sorted_wrt (<) (map (visit_rank s) (order_after n s c))"
    "set (order_after n s c) = {k. k < n \<and> visit_rank s c < visit_rank s k}" by auto
qed

lemma visit_order:
  assumes "s \<le> n"
  shows "set (s # order_after n s s) = insert s {k. k < n}" and "distinct (s # order_after n s s)"
proof -
  have rank: "visit_rank s s < visit_rank s k \<longleftrightarrow> k \<noteq> s" for k
    by (auto simp: visit_rank_def)
  then show "set (s # order_after n s s) = insert s {k. k < n}"
    using order_after_ranks(2) [OF _ assms, of s] by auto
  have "distinct (map (visit_rank s) (order_after n s s))"
    using order_after_ranks(1) [OF _ assms, of s] strict_sorted_iff by blast
  then have "distinct (order_after n s s)" by (simp add: distinct_map)
  moreover have "s \<notin> set (order_after n s s)" using order_after_ranks(2) [OF _ assms, of s] rank by auto
  ultimately show "distinct (s # order_after n s s)" by simp
qed

section \<open>The iterator\<close>

definition is_good_node :: "time \<Rightarrow> node \<Rightarrow> bool" where
  "is_good_node now n \<longleftrightarrow> (let s = status now n in s = Good \<or> s = Questionable)"

text \<open>
  The filtering iterator over a bucket is the list of nodes it has not looked at yet; the filter
  is applied when the next node is asked for. An assorted entry holds the index of the bucket the
  node belongs to, the node, and whether it was handed out.
\<close>

type_synonym assorted_entry = "nat \<times> node \<times> bool"

record closest_nodes =
  cn_buckets :: "bucket list"
  current_iter :: "node list option"
  current_index :: nat
  start_index :: nat
  assorted_nodes :: "assorted_entry list option"

definition bucket_iterator :: "bucket list \<Rightarrow> nat \<Rightarrow> node list option" where
  "bucket_iterator bs index =
    map_option bucket_nodes
      (get_at (if length bs = MAX_BUCKETS then bs else take (length bs - 1) bs) index)"

text \<open>The first entry is repeated, marked as handed out, should the bucket have fewer than eight nodes.\<close>

definition precompute_assorted_nodes :: "bucket list \<Rightarrow> node_id \<Rightarrow> assorted_entry list option" where
  "precompute_assorted_nodes bs self_node_id =
    (if length bs = MAX_BUCKETS then None
     else let assorted_bucket = bucket_nodes (bs ! (length bs - 1)) in
       case assorted_bucket of
         [] \<Rightarrow> None
       | init_reference # _ \<Rightarrow>
           Some (map (\<lambda>n. (leading_bit_count self_node_id (node_id n), n, False)) assorted_bucket @
             replicate (MAX_BUCKET_SIZE - length assorted_bucket) (0, init_reference, True)))"

definition closest_nodes_new :: "bucket list \<Rightarrow> node_id \<Rightarrow> node_id \<Rightarrow> closest_nodes" where
  "closest_nodes_new bs self_node_id other_node_id =
    (let start = leading_bit_count self_node_id other_node_id in
     \<lparr>cn_buckets = bs, current_iter = bucket_iterator bs start, current_index = start,
      start_index = start, assorted_nodes = precompute_assorted_nodes bs self_node_id\<rparr>)"

definition closest_nodes_of :: "routing_table \<Rightarrow> node_id \<Rightarrow> closest_nodes" where
  "closest_nodes_of t target = closest_nodes_new (buckets t) (table_id t) target"

definition assorted_pick :: "time \<Rightarrow> nat \<Rightarrow> assorted_entry \<Rightarrow> bool" where
  "assorted_pick now index e \<longleftrightarrow>
    (case e of (i, n, handed_out) \<Rightarrow> is_good_node now n \<and> i = index \<and> \<not> handed_out)"

definition hand_out :: "assorted_entry list \<Rightarrow> nat \<Rightarrow> assorted_entry list" where
  "hand_out as k = (case as ! k of (i, n, _) \<Rightarrow> as[k := (i, n, True)])"

function closest_next :: "time \<Rightarrow> closest_nodes \<Rightarrow> node option \<times> closest_nodes" where
  "closest_next now s =
    (let rest = map_option (dropWhile (\<lambda>n. \<not> is_good_node now n)) (current_iter s) in
     case rest of
       Some (n # ns) \<Rightarrow> (Some n, s\<lparr>current_iter := Some ns\<rparr>)
     | _ \<Rightarrow>
        (let s = s\<lparr>current_iter := rest\<rparr> in
         case Option.bind (assorted_nodes s) (position (assorted_pick now (current_index s))) of
           Some k \<Rightarrow>
             (Some (fst (snd (the (assorted_nodes s) ! k))),
              s\<lparr>assorted_nodes := Some (hand_out (the (assorted_nodes s)) k)\<rparr>)
         | None \<Rightarrow>
            (case next_bucket_index MAX_BUCKETS (start_index s) (current_index s) of
               Some new_index \<Rightarrow>
                 closest_next now (s\<lparr>current_index := new_index,
                   current_iter := bucket_iterator (cn_buckets s) new_index\<rparr>)
             | None \<Rightarrow> (None, s))))"
  by pat_completeness auto
termination
  by (relation "measure (\<lambda>(now, s). 2 * (MAX_BUCKETS + start_index s + 1) -
      visit_rank (start_index s) (current_index s))")
    (auto dest: next_bucket_index_measure)

declare closest_next.simps [simp del]

section \<open>What the iterator hands out\<close>

text \<open>The nodes of bucket \<open>i\<close> of the table if all its buckets existed.\<close>

definition assorted_at :: "time \<Rightarrow> assorted_entry list option \<Rightarrow> nat \<Rightarrow> node list" where
  "assorted_at now as i = (case as of None \<Rightarrow> [] | Some as \<Rightarrow> map (fst \<circ> snd) (filter (assorted_pick now i) as))"

definition sorted_at :: "time \<Rightarrow> node list option \<Rightarrow> node list" where
  "sorted_at now ns = (case ns of None \<Rightarrow> [] | Some ns \<Rightarrow> filter (is_good_node now) ns)"

definition candidates :: "time \<Rightarrow> closest_nodes \<Rightarrow> nat \<Rightarrow> node list" where
  "candidates now s i = sorted_at now (bucket_iterator (cn_buckets s) i) @ assorted_at now (assorted_nodes s) i"

text \<open>Everything that is still to come from a state of the iterator.\<close>

definition remaining :: "time \<Rightarrow> closest_nodes \<Rightarrow> node list" where
  "remaining now s = sorted_at now (current_iter s) @ assorted_at now (assorted_nodes s) (current_index s) @
    concat (map (candidates now s) (order_after MAX_BUCKETS (start_index s) (current_index s)))"

definition closest_inv :: "closest_nodes \<Rightarrow> bool" where
  "closest_inv s \<longleftrightarrow> start_index s \<le> MAX_BUCKETS \<and>
    (current_index s < MAX_BUCKETS \<or> current_index s = start_index s)"

lemma filter_dropWhile: "filter P (dropWhile (\<lambda>x. \<not> P x) xs) = filter P xs"
  by (induction xs) simp_all

lemma dropWhile_Cons_filter:
  "dropWhile (\<lambda>x. \<not> P x) xs = y # ys \<Longrightarrow> filter P xs = y # filter P ys"
  by (metis filter.simps(2) filter_dropWhile hd_dropWhile list.sel(1) list.simps(3))

lemma dropWhile_Nil_filter: "dropWhile (\<lambda>x. \<not> P x) xs = [] \<Longrightarrow> filter P xs = []"
  by (metis filter.simps(1) filter_dropWhile)

lemma filter_hand_out_same:
  assumes "position (assorted_pick now i) as = Some k"
  shows "map (fst \<circ> snd) (filter (assorted_pick now i) as) =
    fst (snd (as ! k)) # map (fst \<circ> snd) (filter (assorted_pick now i) (hand_out as k))"
  using assms
proof (induction as arbitrary: k)
  case (Cons a as)
  show ?case
  proof (cases "assorted_pick now i a")
    case True
    with Cons.prems show ?thesis
      by (auto simp: hand_out_def assorted_pick_def split: prod.splits)
  next
    case False
    then obtain k' where "k = Suc k'" "position (assorted_pick now i) as = Some k'"
      using Cons.prems by auto
    with Cons.IH [of k'] False show ?thesis by (auto simp: hand_out_def split: prod.splits)
  qed
qed simp

lemma filter_hand_out_other:
  assumes "position (assorted_pick now i) as = Some k" and "j \<noteq> i"
  shows "filter (assorted_pick now j) (hand_out as k) = filter (assorted_pick now j) as"
  using assms
proof (induction as arbitrary: k)
  case (Cons a as)
  show ?case
  proof (cases "assorted_pick now i a")
    case True
    with Cons.prems show ?thesis
      by (auto simp: hand_out_def assorted_pick_def split: prod.splits)
  next
    case False
    then obtain k' where "k = Suc k'" "position (assorted_pick now i) as = Some k'"
      using Cons.prems by auto
    with Cons.IH [of k'] Cons.prems(2) show ?thesis by (auto simp: hand_out_def split: prod.splits)
  qed
qed simp

lemma order_after_not_mem:
  "closest_inv s \<Longrightarrow> current_index s \<notin> set (order_after MAX_BUCKETS (start_index s) (current_index s))"
  by (auto simp: closest_inv_def order_after_ranks)

lemma remaining_hand_out:
  assumes "closest_inv s" and as: "assorted_nodes s = Some as"
    and k: "position (assorted_pick now (current_index s)) as = Some k"
    and none: "sorted_at now (current_iter s) = []"
  shows "remaining now s = fst (snd (as ! k)) # remaining now (s\<lparr>assorted_nodes := Some (hand_out as k)\<rparr>)"
proof -
  let ?s' = "s\<lparr>assorted_nodes := Some (hand_out as k)\<rparr>"
  have "candidates now s i = candidates now ?s' i"
    if "i \<in> set (order_after MAX_BUCKETS (start_index s) (current_index s))" for i
  proof -
    have "i \<noteq> current_index s" using that order_after_not_mem [OF assms(1)] by blast
    then show ?thesis
      using filter_hand_out_other [OF k] by (simp add: candidates_def assorted_at_def as)
  qed
  then have "map (candidates now s) (order_after MAX_BUCKETS (start_index s) (current_index s)) =
      map (candidates now ?s') (order_after MAX_BUCKETS (start_index s) (current_index s))"
    by (intro map_cong) simp_all
  moreover have "assorted_at now (Some as) (current_index s) =
      fst (snd (as ! k)) # assorted_at now (Some (hand_out as k)) (current_index s)"
    using filter_hand_out_same [OF k] by (simp add: assorted_at_def)
  ultimately show ?thesis by (simp add: remaining_def as none del: map_eq_conv)
qed

lemma remaining_move:
  assumes "next_bucket_index MAX_BUCKETS (start_index s) (current_index s) = Some j"
    and "sorted_at now (current_iter s) = []"
    and "assorted_at now (assorted_nodes s) (current_index s) = []"
  shows "remaining now s = remaining now (s\<lparr>current_index := j, current_iter := bucket_iterator (cn_buckets s) j\<rparr>)"
proof -
  have "candidates now (s\<lparr>current_index := j, current_iter := it\<rparr>) = candidates now s" for it
    by (simp add: candidates_def fun_eq_iff)
  then show ?thesis
    using assms by (simp add: remaining_def order_after.simps [of _ _ "current_index s"] candidates_def)
qed

text \<open>The step when the current bucket has nothing more to give.\<close>

lemma closest_next_exhausted:
  assumes "sorted_at now (current_iter s) = []"
  obtains s0 where "s0 = s\<lparr>current_iter := current_iter s0\<rparr>" and "sorted_at now (current_iter s0) = []"
    and "closest_next now s =
      (case Option.bind (assorted_nodes s) (position (assorted_pick now (current_index s))) of
         Some k \<Rightarrow> (Some (fst (snd (the (assorted_nodes s) ! k))),
           s0\<lparr>assorted_nodes := Some (hand_out (the (assorted_nodes s)) k)\<rparr>)
       | None \<Rightarrow>
          (case next_bucket_index MAX_BUCKETS (start_index s) (current_index s) of
             Some j \<Rightarrow> closest_next now (s\<lparr>current_index := j, current_iter := bucket_iterator (cn_buckets s) j\<rparr>)
           | None \<Rightarrow> (None, s0)))"
proof -
  define rest where "rest = map_option (dropWhile (\<lambda>n. \<not> is_good_node now n)) (current_iter s)"
  have "rest = None \<or> rest = Some []"
    using assms by (auto simp: rest_def sorted_at_def filter_empty_conv split: option.splits)
  then show thesis
    using that [of "s\<lparr>current_iter := rest\<rparr>"] closest_next.simps [of now s, folded rest_def]
    by (auto simp: sorted_at_def Let_def cong: option.case_cong)
qed

lemma remaining_iter_exhausted:
  assumes "sorted_at now (current_iter s) = []" and "sorted_at now it = []"
  shows "remaining now (s\<lparr>current_iter := it\<rparr>) = remaining now s"
proof -
  have "candidates now (s\<lparr>current_iter := it\<rparr>) = candidates now s" by (simp add: candidates_def fun_eq_iff)
  then show ?thesis by (simp add: remaining_def assms)
qed

lemma closest_next_found:
  assumes "sorted_at now (current_iter s) \<noteq> []"
  obtains n ns where "closest_next now s = (Some n, s\<lparr>current_iter := Some ns\<rparr>)"
    and "remaining now s = n # remaining now (s\<lparr>current_iter := Some ns\<rparr>)"
proof -
  obtain cur where cur: "current_iter s = Some cur" "filter (is_good_node now) cur \<noteq> []"
    using assms by (auto simp: sorted_at_def split: option.splits)
  obtain n ns where drop: "dropWhile (\<lambda>n. \<not> is_good_node now n) cur = n # ns"
    using cur(2) dropWhile_Nil_filter by (metis list.exhaust)
  have "closest_next now s = (Some n, s\<lparr>current_iter := Some ns\<rparr>)"
    by (simp add: closest_next.simps [of now s] cur(1) drop)
  moreover have "candidates now (s\<lparr>current_iter := it\<rparr>) = candidates now s" for it
    by (simp add: candidates_def fun_eq_iff)
  then have "remaining now s = n # remaining now (s\<lparr>current_iter := Some ns\<rparr>)"
    using dropWhile_Cons_filter [OF drop] by (simp add: remaining_def sorted_at_def cur(1))
  ultimately show thesis by (rule that)
qed

definition yields :: "time \<Rightarrow> closest_nodes \<Rightarrow> node option \<times> closest_nodes \<Rightarrow> bool" where
  "yields now s res \<longleftrightarrow> closest_inv (snd res) \<and>
    remaining now s = (case fst res of None \<Rightarrow> [] | Some n \<Rightarrow> n # remaining now (snd res))"

lemma closest_next_spec:
  assumes "closest_inv s"
  shows "yields now s (closest_next now s)"
  using assms
proof (induction "2 * (MAX_BUCKETS + start_index s + 1) - visit_rank (start_index s) (current_index s)"
    arbitrary: s rule: less_induct)
  case less
  show ?case
  proof (cases "sorted_at now (current_iter s) = []")
    case False
    then obtain n ns where "closest_next now s = (Some n, s\<lparr>current_iter := Some ns\<rparr>)"
      "remaining now s = n # remaining now (s\<lparr>current_iter := Some ns\<rparr>)" by (rule closest_next_found)
    with less.prems show ?thesis by (simp add: yields_def closest_inv_def)
  next
    case True
    then obtain s0 where s0: "s0 = s\<lparr>current_iter := current_iter s0\<rparr>" "sorted_at now (current_iter s0) = []"
      and eq: "closest_next now s =
      (case Option.bind (assorted_nodes s) (position (assorted_pick now (current_index s))) of
         Some k \<Rightarrow> (Some (fst (snd (the (assorted_nodes s) ! k))),
           s0\<lparr>assorted_nodes := Some (hand_out (the (assorted_nodes s)) k)\<rparr>)
       | None \<Rightarrow>
          (case next_bucket_index MAX_BUCKETS (start_index s) (current_index s) of
             Some j \<Rightarrow> closest_next now (s\<lparr>current_index := j, current_iter := bucket_iterator (cn_buckets s) j\<rparr>)
           | None \<Rightarrow> (None, s0)))"
      by (rule closest_next_exhausted)
    have same: "remaining now s = remaining now s0"
      using remaining_iter_exhausted [OF True s0(2)] s0(1) by simp
    have fields: "assorted_nodes s0 = assorted_nodes s" "current_index s0 = current_index s"
      "start_index s0 = start_index s"
      by (subst s0(1), simp)+
    have inv: "closest_inv s0" using less.prems fields by (simp add: closest_inv_def)
    show ?thesis
    proof (cases "Option.bind (assorted_nodes s) (position (assorted_pick now (current_index s)))")
      case (Some k)
      then obtain as where as: "assorted_nodes s = Some as"
        "position (assorted_pick now (current_index s)) as = Some k" by (auto simp: bind_eq_Some_conv)
      have "remaining now s0 = fst (snd (as ! k)) # remaining now (s0\<lparr>assorted_nodes := Some (hand_out as k)\<rparr>)"
        using as s0(2) by (intro remaining_hand_out [OF inv]) (simp_all add: fields)
      with Some as inv same show ?thesis by (simp add: eq yields_def closest_inv_def)
    next
      case pick: None
      then have no_assorted: "assorted_at now (assorted_nodes s) (current_index s) = []"
        by (auto simp: assorted_at_def position_None_iff bind_eq_None_conv split: option.splits)
      show ?thesis
      proof (cases "next_bucket_index MAX_BUCKETS (start_index s) (current_index s)")
        case None
        then have "remaining now s = []"
          using True no_assorted by (simp add: remaining_def order_after.simps [of _ _ "current_index s"])
        with pick None inv show ?thesis by (simp add: eq yields_def)
      next
        case (Some j)
        let ?t = "s\<lparr>current_index := j, current_iter := bucket_iterator (cn_buckets s) j\<rparr>"
        have "closest_inv ?t"
          using less.prems next_bucket_index_Some(1) [OF Some] by (auto simp: closest_inv_def)
        then have "yields now ?t (closest_next now ?t)"
          using next_bucket_index_measure [OF Some] by (intro less.hyps) simp_all
        with pick Some remaining_move [OF Some True no_assorted] show ?thesis
          by (simp add: eq yields_def)
      qed
    qed
  qed
qed

text \<open>\<^verbatim>\<open>take(k)\<close> on the iterator, which is how the handlers use it.\<close>

fun closest_take :: "nat \<Rightarrow> time \<Rightarrow> closest_nodes \<Rightarrow> node list" where
  "closest_take 0 now s = []"
| "closest_take (Suc k) now s =
    (case closest_next now s of (None, s') \<Rightarrow> [] | (Some n, s') \<Rightarrow> n # closest_take k now s')"

lemma closest_take_remaining: "closest_inv s \<Longrightarrow> closest_take k now s = take k (remaining now s)"
proof (induction k arbitrary: s)
  case (Suc k)
  obtain r s' where rs: "closest_next now s = (r, s')" by fastforce
  from closest_next_spec [OF Suc.prems, of now] rs Suc.IH [of s'] show ?case
    by (cases r) (simp_all add: yields_def)
qed simp

end
