(* ===== verification/Dht_Lookup.thy ===== *)
theory Dht_Lookup
  imports Dht_Closest
begin

text \<open>
  What the two kinds of lookup in a well-formed routing table return: the iterator over the closest
  nodes hands out every pingable node exactly once and in the order of the buckets, the lookup of a
  single node sees the sorted buckets only.
\<close>

section \<open>Closest nodes\<close>

lemma mset_concat_distinct: "distinct xs \<Longrightarrow> mset (concat (map f xs)) = (\<Sum>i \<in> set xs. mset (f i))"
  by (induction xs) simp_all

lemma sum_filter_classes:
  assumes "\<forall>x \<in> set xs. P x \<longrightarrow> g x < (n :: nat)"
  shows "(\<Sum>i < n. mset (filter (\<lambda>x. P x \<and> g x = i) xs)) = mset (filter P xs)"
  using assms
proof (induction xs)
  case (Cons x xs)
  have "(\<Sum>i < n. if P x \<and> g x = i then {#x#} else {#}) = (if P x then {#x#} else {#})"
    using Cons.prems by (cases "P x") (simp_all add: sum.delta')
  moreover have "mset (filter (\<lambda>y. P y \<and> g y = i) (x # xs)) =
      (if P x \<and> g x = i then {#x#} else {#}) + mset (filter (\<lambda>y. P y \<and> g y = i) xs)" for i
    by simp
  ultimately show ?case using Cons by (simp add: sum.distrib)
qed simp

lemma is_good_node_responded: "is_good_node now n \<Longrightarrow> responded n"
  by (rule responded_if_not_Bad [of now]) (auto simp: is_good_node_def Let_def)

definition sorted_count :: "routing_table \<Rightarrow> nat" where
  "sorted_count t = (if length (buckets t) = MAX_BUCKETS then MAX_BUCKETS else length (buckets t) - 1)"

definition assorted_bucket :: "routing_table \<Rightarrow> node list" where
  "assorted_bucket t =
    (if length (buckets t) = MAX_BUCKETS then [] else bucket_nodes (buckets t ! (length (buckets t) - 1)))"

abbreviation prefix_of :: "routing_table \<Rightarrow> node \<Rightarrow> nat" where
  "prefix_of t n \<equiv> leading_bit_count (table_id t) (node_id n)"

lemma sorted_at_bucket:
  assumes "table_wf t"
  shows "sorted_at now (bucket_iterator (buckets t) i) =
    (if i < sorted_count t then filter (is_good_node now) (bucket_nodes (buckets t ! i)) else [])"
  by (auto simp: sorted_at_def bucket_iterator_def sorted_count_def get_at_def)

lemma assorted_at_bucket:
  assumes "table_wf t"
  shows "assorted_at now (precompute_assorted_nodes (buckets t) (table_id t)) i =
    filter (\<lambda>n. is_good_node now n \<and> prefix_of t n = i) (assorted_bucket t)"
proof (cases "length (buckets t) = MAX_BUCKETS")
  case False
  let ?ns = "bucket_nodes (buckets t ! (length (buckets t) - 1))"
  have last: "length (buckets t) - 1 < length (buckets t)" using table_wf_basic [OF assms] by simp
  have "length ?ns = MAX_BUCKET_SIZE" by (rule bucket_wf_length [OF table_wf_bucket [OF assms last]])
  then have "precompute_assorted_nodes (buckets t) (table_id t) =
      Some (map (\<lambda>n. (prefix_of t n, n, False)) ?ns)"
    using False by (cases ?ns) (auto simp: precompute_assorted_nodes_def MAX_BUCKET_SIZE_def)
  then show ?thesis
    using False by (simp add: assorted_at_def assorted_bucket_def filter_map comp_def assorted_pick_def)
qed (simp add: assorted_at_def assorted_bucket_def precompute_assorted_nodes_def)

lemma good_prefix:
  assumes "table_wf t" and "i < length (buckets t)" and "n \<in> set (bucket_nodes (buckets t ! i))"
    and "is_good_node now n"
  shows "prefix_of t n < MAX_BUCKETS" and "min (prefix_of t n) (length (buckets t) - 1) = i"
proof -
  have node: "admissible (table_id t) n" "home t n = i"
    using table_wf_node [OF assms(1-3)] is_good_node_responded [OF assms(4)] by auto
  then show "prefix_of t n < MAX_BUCKETS" using admissible_prefix [OF assms(1)] by simp
  show "min (prefix_of t n) (length (buckets t) - 1) = i"
    using node(2) table_wf_basic [OF assms(1)] by (simp add: home_def bucket_placement_eq)
qed

lemma assorted_prefix:
  assumes "table_wf t" and "n \<in> set (assorted_bucket t)" and "is_good_node now n"
  shows "prefix_of t n < MAX_BUCKETS"
proof -
  have "length (buckets t) - 1 < length (buckets t)" using table_wf_basic [OF assms(1)] by simp
  with assms good_prefix(1) [OF assms(1)] show ?thesis
    by (auto simp: assorted_bucket_def split: if_splits)
qed

lemma sorted_count_le: "table_wf t \<Longrightarrow> sorted_count t \<le> MAX_BUCKETS"
  using table_wf_basic [of t] by (auto simp: sorted_count_def)

lemma table_nodes_split:
  assumes "table_wf t"
  shows "mset (filter P (table_nodes t)) =
    (\<Sum>i < sorted_count t. mset (filter P (bucket_nodes (buckets t ! i)))) + mset (filter P (assorted_bucket t))"
proof -
  have sum: "mset (filter P (concat (map bucket_nodes bs))) = (\<Sum>i < length bs. mset (filter P (bucket_nodes (bs ! i))))"
    for bs
  proof (induction bs rule: rev_induct)
    case (snoc b bs)
    have "(\<Sum>i < length bs. mset (filter P (bucket_nodes ((bs @ [b]) ! i)))) =
        (\<Sum>i < length bs. mset (filter P (bucket_nodes (bs ! i))))"
      by (intro sum.cong) (simp_all add: nth_append)
    with snoc show ?case by (simp del: mset_filter)
  qed simp
  show ?thesis
  proof (cases "length (buckets t) = MAX_BUCKETS")
    case True
    then show ?thesis by (simp add: table_nodes_def sum sorted_count_def assorted_bucket_def del: mset_filter)
  next
    case False
    obtain l where l: "length (buckets t) = Suc l"
      using table_wf_basic [OF assms] by (cases "length (buckets t)") simp_all
    with False show ?thesis by (simp add: table_nodes_def sum sorted_count_def assorted_bucket_def del: mset_filter)
  qed
qed

lemma candidates_of:
  assumes "table_wf t"
  shows "candidates now (closest_nodes_of t target) i =
    (if i < sorted_count t then filter (is_good_node now) (bucket_nodes (buckets t ! i)) else []) @
    filter (\<lambda>n. is_good_node now n \<and> prefix_of t n = i) (assorted_bucket t)"
  by (simp add: candidates_def closest_nodes_of_def closest_nodes_new_def Let_def
      sorted_at_bucket [OF assms] assorted_at_bucket [OF assms])

lemma candidates_beyond:
  assumes "table_wf t"
  shows "candidates now (closest_nodes_of t target) MAX_BUCKETS = []"
  using sorted_count_le [OF assms] assorted_prefix [OF assms]
  by (auto simp: candidates_of [OF assms] filter_empty_conv) (metis less_irrefl)

definition visit_list :: "routing_table \<Rightarrow> node_id \<Rightarrow> nat list" where
  "visit_list t target = (let s = leading_bit_count (table_id t) target in s # order_after MAX_BUCKETS s s)"

lemma remaining_closest:
  "remaining now (closest_nodes_of t target) =
    concat (map (candidates now (closest_nodes_of t target)) (visit_list t target))"
  by (simp add: remaining_def visit_list_def candidates_def closest_nodes_of_def closest_nodes_new_def Let_def)

lemma start_le:
  assumes "table_wf t" and "sha_wf target"
  shows "leading_bit_count (table_id t) target \<le> MAX_BUCKETS"
  using prefix_full_iff(2) [OF _ assms(2)] table_wf_basic [OF assms(1)] by blast

lemma closest_complete:
  assumes "table_wf t" and "sha_wf target"
  shows "mset (remaining now (closest_nodes_of t target)) = mset (filter (is_good_node now) (table_nodes t))"
proof -
  let ?c = "candidates now (closest_nodes_of t target)" and ?s = "leading_bit_count (table_id t) target"
  note visit = visit_order [OF start_le [OF assms]]
  have "mset (remaining now (closest_nodes_of t target)) = (\<Sum>i \<in> insert ?s {..<MAX_BUCKETS}. mset (?c i))"
    unfolding remaining_closest visit_list_def Let_def mset_concat_distinct [OF visit(2)] visit(1)
    by (simp add: lessThan_def)
  also have "\<dots> = (\<Sum>i < MAX_BUCKETS. mset (?c i))"
  proof (cases "?s < MAX_BUCKETS")
    case True
    then show ?thesis by (simp add: insert_absorb)
  next
    case False
    then have "?s = MAX_BUCKETS" using start_le [OF assms] by simp
    then show ?thesis using candidates_beyond [OF assms(1)] by (simp add: sum.insert)
  qed
  also have "\<dots> = (\<Sum>i < MAX_BUCKETS. if i < sorted_count t
        then mset (filter (is_good_node now) (bucket_nodes (buckets t ! i))) else {#}) +
      (\<Sum>i < MAX_BUCKETS. mset (filter (\<lambda>n. is_good_node now n \<and> prefix_of t n = i) (assorted_bucket t)))"
    unfolding sum.distrib [symmetric]
    by (intro sum.cong) (simp_all add: candidates_of [OF assms(1)])
  also have "(\<Sum>i < MAX_BUCKETS. if i < sorted_count t
        then mset (filter (is_good_node now) (bucket_nodes (buckets t ! i))) else {#}) =
      (\<Sum>i < sorted_count t. mset (filter (is_good_node now) (bucket_nodes (buckets t ! i))))"
  proof -
    have "{i \<in> {..<MAX_BUCKETS}. i < sorted_count t} = {..<sorted_count t}"
      using sorted_count_le [OF assms(1)] by auto
    then show ?thesis by (simp add: sum.inter_filter [symmetric])
  qed
  also have "(\<Sum>i < MAX_BUCKETS. mset (filter (\<lambda>n. is_good_node now n \<and> prefix_of t n = i) (assorted_bucket t))) =
      mset (filter (is_good_node now) (assorted_bucket t))"
    using assorted_prefix [OF assms(1)] by (intro sum_filter_classes) simp
  finally show ?thesis by (simp only: table_nodes_split [OF assms(1)])
qed

lemma candidates_prefix:
  assumes "table_wf t" and "n \<in> set (candidates now (closest_nodes_of t target) i)"
  shows "prefix_of t n = i"
proof -
  have "prefix_of t n = i"
    if i: "i < sorted_count t" and n: "n \<in> set (bucket_nodes (buckets t ! i))" "is_good_node now n"
  proof -
    have "i < length (buckets t)" using i table_wf_basic [OF assms(1)]
      by (auto simp: sorted_count_def split: if_splits)
    from good_prefix [OF assms(1) this n] i show ?thesis
      by (auto simp: sorted_count_def min_def split: if_splits)
  qed
  with assms(2) show ?thesis by (auto simp: candidates_of [OF assms(1)] split: if_splits)
qed

lemma closest_ordered:
  assumes "table_wf t" and "sha_wf target"
  shows "sorted (map (\<lambda>n. visit_rank (leading_bit_count (table_id t) target) (prefix_of t n))
    (remaining now (closest_nodes_of t target)))"
proof -
  let ?s = "leading_bit_count (table_id t) target" and ?c = "candidates now (closest_nodes_of t target)"
  have "sorted (map (\<lambda>n. visit_rank ?s (prefix_of t n)) (concat (map ?c is)))"
    if "sorted_wrt (<) (map (visit_rank ?s) is)" for "is"
    using that
  proof (induction "is")
    case (Cons i "is")
    have const: "map (\<lambda>n. visit_rank ?s (prefix_of t n)) (?c i) = replicate (length (?c i)) (visit_rank ?s i)"
      using candidates_prefix [OF assms(1)] by (intro replicate_eqI) auto
    have "visit_rank ?s i \<le> visit_rank ?s (prefix_of t n)"
      if n: "n \<in> set (concat (map ?c is))" for n
    proof -
      from n obtain j where "j \<in> set is" "n \<in> set (?c j)" by auto
      with Cons.prems candidates_prefix [OF assms(1)] show ?thesis by fastforce
    qed
    with Cons const show ?case by (simp add: sorted_append)
  qed simp
  moreover have "sorted_wrt (<) (map (visit_rank ?s) (?s # order_after MAX_BUCKETS ?s ?s))"
    using order_after_ranks [OF _ start_le [OF assms], of ?s] by auto
  ultimately show ?thesis unfolding remaining_closest visit_list_def Let_def by blast
qed

lemma closest_inv_new:
  assumes "table_wf t" and "sha_wf target"
  shows "closest_inv (closest_nodes_of t target)"
  using start_le [OF assms] by (simp add: closest_inv_def closest_nodes_of_def closest_nodes_new_def Let_def)

section \<open>Looking up a single node\<close>

lemma buckets_next_below:
  assumes "iter_pos it < MAX_BUCKETS"
  shows "buckets_next it =
    (Some (if iter_pos it + 1 < length (iter_buckets it) \<or> length (iter_buckets it) = MAX_BUCKETS
       then Sorted (iter_buckets it ! iter_pos it) else EmptyBucket),
     it\<lparr>iter_pos := iter_pos it + 1\<rparr>)"
  using assms by (simp add: buckets_next_def Let_def)

lemma buckets_nth_below:
  assumes "iter_pos it + n < MAX_BUCKETS"
  shows "buckets_nth n it =
    Some (if iter_pos it + n + 1 < length (iter_buckets it) \<or> length (iter_buckets it) = MAX_BUCKETS
       then Sorted (iter_buckets it ! (iter_pos it + n)) else EmptyBucket)"
  using assms
proof (induction n arbitrary: it)
  case 0
  then show ?case by (simp add: buckets_next_below)
next
  case (Suc n)
  then show ?case by (simp add: buckets_next_below)
qed

lemma find_node_sorted:
  assumes "prefix_of t n < sorted_count t" and "table_wf t"
  shows "find_node now n t =
    find (\<lambda>m. node_eq m n) (pingable_nodes now (buckets t ! prefix_of t n))"
proof -
  have "prefix_of t n < MAX_BUCKETS" using assms sorted_count_le [OF assms(2)] by simp
  with assms show ?thesis
    by (auto simp: find_node_def buckets_nth_below buckets_iter_new_def sorted_count_def Let_def
        split: if_splits)
qed

lemma find_node_assorted:
  assumes "sorted_count t \<le> prefix_of t n" and "prefix_of t n < MAX_BUCKETS" and "table_wf t"
  shows "find_node now n t = None"
proof -
  have "length (buckets t) \<noteq> MAX_BUCKETS" "\<not> prefix_of t n + 1 < length (buckets t)"
    using assms by (auto simp: sorted_count_def split: if_splits)
  with assms(2) show ?thesis
    by (simp add: find_node_def buckets_nth_below buckets_iter_new_def Let_def)
qed

lemma pingable_is_good: "pingable_nodes_filter now = is_good_node now"
  by (simp add: pingable_nodes_filter_def is_good_node_def fun_eq_iff)

lemma find_unique:
  assumes "m \<in> set xs" and "P m" and "\<And>x. x \<in> set xs \<Longrightarrow> P x \<Longrightarrow> x = m"
  shows "find P xs = Some m"
proof (cases "find P xs")
  case None
  with assms(1,2) show ?thesis by (simp add: find_None_iff)
next
  case (Some y)
  then have "y \<in> set xs" "P y" by (auto simp: find_Some_iff)
  with Some assms(3) [of y] show ?thesis by simp
qed

lemma find_node_present:
  assumes "table_wf t" and "m \<in> set (table_nodes t)" and "is_good_node now m" and "node_eq m n"
    and "prefix_of t n < sorted_count t"
  shows "find_node now n t = Some m"
proof -
  have eq: "prefix_of t n = prefix_of t m" using assms(4) by (simp add: node_eq_def)
  obtain i where i: "i < length (buckets t)" "m \<in> set (bucket_nodes (buckets t ! i))"
    using assms(2) by (auto simp: mem_table_nodes)
  have idx: "i = prefix_of t m"
    using good_prefix(2) [OF assms(1) i assms(3)] assms(5) table_wf_basic [OF assms(1)]
    by (auto simp: eq sorted_count_def min_def split: if_splits)
  have uniq: "x = m" if "x \<in> set (bucket_nodes (buckets t ! i))" "is_good_node now x" "node_eq x n" for x
    using table_wf_key_unique [OF assms(1) i(1) i(1) that(1) i(2) is_good_node_responded [OF that(2)]
        is_good_node_responded [OF assms(3)]] that(3) assms(4)
    by (simp add: node_eq_key)
  have "find (\<lambda>m. node_eq m n) (filter (is_good_node now) (bucket_nodes (buckets t ! i))) = Some m"
  proof (rule find_unique)
    fix x assume "x \<in> set (filter (is_good_node now) (bucket_nodes (buckets t ! i)))" "node_eq x n"
    then show "x = m" by (intro uniq) simp_all
  qed (use i assms(3,4) in simp_all)
  then show ?thesis
    by (simp add: find_node_sorted [OF assms(5,1)] eq idx pingable_nodes_def pingable_is_good)
qed

end
