(* ===== verification/Dht_Token.thy ===== *)
theory Dht_Token
  imports Dht_Node
begin

text \<open>
  \<^verbatim>\<open>packages/dht/src/token.rs\<close>: announce tokens derived from an address and one of two secrets that are
  replaced lazily. The digest \<open>sha1\<close> and the source of random secrets \<open>rnd\<close> (a function on a
  generator state) are parameters.
\<close>

section \<open>Tokens\<close>

type_synonym token = bytes

definition REFRESH_INTERVAL_MINS :: int where "REFRESH_INTERVAL_MINS = 10"
definition IPV4_SECRET_BUFFER_LEN :: nat where "IPV4_SECRET_BUFFER_LEN = 4 + 4"
definition IPV6_SECRET_BUFFER_LEN :: nat where "IPV6_SECRET_BUFFER_LEN = 16 + 4"

definition token_new :: "bytes \<Rightarrow> (length_error, token) outcome" where
  "token_new bs =
    (if length bs = SHA_HASH_LEN then Ok (map fst (zip bs (replicate SHA_HASH_LEN (0 :: u8))))
     else Err (length_error_new LengthExpected SHA_HASH_LEN))"

text \<open>Copy a source into a zeroed buffer of the given length, as the \<^verbatim>\<open>zip\<close> loops do.\<close>

definition fill_buffer :: "nat \<Rightarrow> bytes \<Rightarrow> bytes" where
  "fill_buffer n src = take n src @ replicate (n - length src) 0"

definition generate_token_from_addr_v4 :: "(bytes \<Rightarrow> sha_hash) \<Rightarrow> ipv4_addr \<Rightarrow> u32 \<Rightarrow> token" where
  "generate_token_from_addr_v4 sha1 v4_addr secret =
    (let buffer = fill_buffer IPV4_SECRET_BUFFER_LEN (ipv4_to_bytes_be v4_addr @ four_bytes_to_array secret)
     in from_bytes sha1 buffer)"

definition generate_token_from_addr_v6 :: "(bytes \<Rightarrow> sha_hash) \<Rightarrow> ipv6_addr \<Rightarrow> u32 \<Rightarrow> token" where
  "generate_token_from_addr_v6 sha1 v6_addr secret =
    (let buffer = fill_buffer IPV6_SECRET_BUFFER_LEN (ipv6_to_bytes_be v6_addr @ four_bytes_to_array secret)
     in from_bytes sha1 buffer)"

fun generate_token_from_addr :: "(bytes \<Rightarrow> sha_hash) \<Rightarrow> ip_addr \<Rightarrow> u32 \<Rightarrow> token" where
  "generate_token_from_addr sha1 (IpV4 v4) secret = generate_token_from_addr_v4 sha1 v4 secret"
| "generate_token_from_addr sha1 (IpV6 v6) secret = generate_token_from_addr_v6 sha1 v6 secret"

definition validate_token_from_addr_v4 :: "(bytes \<Rightarrow> sha_hash) \<Rightarrow> ipv4_addr \<Rightarrow> token \<Rightarrow> u32 \<Rightarrow> bool" where
  "validate_token_from_addr_v4 sha1 v4_addr tok secret \<longleftrightarrow> generate_token_from_addr_v4 sha1 v4_addr secret = tok"

definition validate_token_from_addr_v6 :: "(bytes \<Rightarrow> sha_hash) \<Rightarrow> ipv6_addr \<Rightarrow> token \<Rightarrow> u32 \<Rightarrow> bool" where
  "validate_token_from_addr_v6 sha1 v6_addr tok secret \<longleftrightarrow> generate_token_from_addr_v6 sha1 v6_addr secret = tok"

fun validate_token_from_addr :: "(bytes \<Rightarrow> sha_hash) \<Rightarrow> ip_addr \<Rightarrow> token \<Rightarrow> u32 \<Rightarrow> u32 \<Rightarrow> bool" where
  "validate_token_from_addr sha1 (IpV4 v4) tok secret_one secret_two =
    (validate_token_from_addr_v4 sha1 v4 tok secret_one \<or> validate_token_from_addr_v4 sha1 v4 tok secret_two)"
| "validate_token_from_addr sha1 (IpV6 v6) tok secret_one secret_two =
    (validate_token_from_addr_v6 sha1 v6 tok secret_one \<or> validate_token_from_addr_v6 sha1 v6 tok secret_two)"

lemma validate_token_iff:
  "validate_token_from_addr sha1 addr tok a b \<longleftrightarrow>
    tok = generate_token_from_addr sha1 addr a \<or> tok = generate_token_from_addr sha1 addr b"
  by (cases addr) (auto simp: validate_token_from_addr_v4_def validate_token_from_addr_v6_def)

section \<open>The store\<close>

record token_store =
  curr_secret :: u32
  last_secret :: u32
  last_refresh :: time

type_synonym 'r random_u32 = "'r \<Rightarrow> u32 \<times> 'r"

definition token_store_new :: "'r random_u32 \<Rightarrow> time \<Rightarrow> 'r \<Rightarrow> token_store \<times> 'r" where
  "token_store_new rnd now r =
    (let (curr, r) = rnd r; (last, r) = rnd r
     in (\<lparr>curr_secret = curr, last_secret = last, last_refresh = now\<rparr>, r))"

text \<open>\<^verbatim>\<open>num_minutes\<close> and the division of \<^verbatim>\<open>i64\<close> both round towards zero.\<close>

definition trunc_div :: "int \<Rightarrow> int \<Rightarrow> int" where
  "trunc_div a b = sgn a * (\<bar>a\<bar> div b)"

definition num_minutes :: "time \<Rightarrow> int" where
  "num_minutes d = trunc_div d (60 * 1000)"

definition intervals_passed :: "time \<Rightarrow> time \<Rightarrow> int" where
  "intervals_passed now refreshed =
    (let refresh_duration = minutes REFRESH_INTERVAL_MINS; diff_time = now - refreshed
     in trunc_div (num_minutes diff_time) (num_minutes refresh_duration))"

definition refresh_check :: "'r random_u32 \<Rightarrow> time \<Rightarrow> token_store \<Rightarrow> 'r \<Rightarrow> token_store \<times> 'r" where
  "refresh_check rnd now s r =
    (let n = intervals_passed now (last_refresh s) in
     if n = 0 then (s, r)
     else if n = 1 then
       let (curr, r) = rnd r
       in (s\<lparr>last_secret := curr_secret s, curr_secret := curr, last_refresh := now\<rparr>, r)
     else
       let (last, r) = rnd r; (curr, r) = rnd r
       in (s\<lparr>last_secret := last, curr_secret := curr, last_refresh := now\<rparr>, r))"

definition checkout :: "(bytes \<Rightarrow> sha_hash) \<Rightarrow> 'r random_u32 \<Rightarrow> time \<Rightarrow> ip_addr \<Rightarrow> token_store \<Rightarrow> 'r \<Rightarrow>
    token \<times> token_store \<times> 'r" where
  "checkout sha1 rnd now addr s r =
    (let (s, r) = refresh_check rnd now s r in (generate_token_from_addr sha1 addr (curr_secret s), s, r))"

definition checkin :: "(bytes \<Rightarrow> sha_hash) \<Rightarrow> 'r random_u32 \<Rightarrow> time \<Rightarrow> ip_addr \<Rightarrow> token \<Rightarrow> token_store \<Rightarrow> 'r \<Rightarrow>
    bool \<times> token_store \<times> 'r" where
  "checkin sha1 rnd now addr tok s r =
    (let (s, r) = refresh_check rnd now s r
     in (validate_token_from_addr sha1 addr tok (curr_secret s) (last_secret s), s, r))"

section \<open>Runs of a store\<close>

text \<open>Operations that arrive at a store over time, and the state they leave.\<close>

datatype token_op = Checkout ip_addr | Checkin ip_addr token

fun token_step :: "(bytes \<Rightarrow> sha_hash) \<Rightarrow> 'r random_u32 \<Rightarrow> time \<times> token_op \<Rightarrow> token_store \<times> 'r \<Rightarrow> token_store \<times> 'r" where
  "token_step sha1 rnd (now, Checkout addr) (s, r) = snd (checkout sha1 rnd now addr s r)"
| "token_step sha1 rnd (now, Checkin addr tok) (s, r) = snd (checkin sha1 rnd now addr tok s r)"

definition token_run :: "(bytes \<Rightarrow> sha_hash) \<Rightarrow> 'r random_u32 \<Rightarrow> (time \<times> token_op) list \<Rightarrow>
    token_store \<times> 'r \<Rightarrow> token_store \<times> 'r" where
  "token_run sha1 rnd ops st = fold (token_step sha1 rnd) ops st"

lemma token_step_refresh: "token_step sha1 rnd (now, oper) (s, r) = refresh_check rnd now s r"
  by (cases oper) (simp_all add: checkout_def checkin_def Let_def case_prod_unfold)

lemma trunc_div_nonneg: "0 \<le> a \<Longrightarrow> 0 < b \<Longrightarrow> trunc_div a b = a div b"
  by (cases "a = 0") (simp_all add: trunc_div_def)

lemma num_minutes_minutes: "0 \<le> n \<Longrightarrow> num_minutes (minutes n) = n"
  by (simp add: num_minutes_def trunc_div_nonneg minutes_def)

lemma intervals_passed_forward:
  assumes "refreshed \<le> now"
  shows "intervals_passed now refreshed = (now - refreshed) div 600000"
proof -
  have "num_minutes (now - refreshed) = (now - refreshed) div 60000"
    using assms by (simp add: num_minutes_def trunc_div_nonneg)
  moreover from this have "0 \<le> num_minutes (now - refreshed)"
    using assms by (simp add: pos_imp_zdiv_nonneg_iff)
  ultimately have "intervals_passed now refreshed = (now - refreshed) div 60000 div 10"
    by (simp add: intervals_passed_def num_minutes_minutes trunc_div_nonneg REFRESH_INTERVAL_MINS_def)
  then show ?thesis by (simp add: zdiv_zmult2_eq [symmetric])
qed

text \<open>What one refresh does when the clock does not run backwards.\<close>

lemma refresh_check_cases:
  assumes "refresh_check rnd now s r = (s', r')" and "last_refresh s \<le> now"
  obtains
    (fresh) "now - last_refresh s < minutes 10" "s' = s"
  | (rotate) "minutes 10 \<le> now - last_refresh s" "now - last_refresh s < minutes 20"
      "last_secret s' = curr_secret s" "last_refresh s' = now"
  | (expire) "minutes 20 \<le> now - last_refresh s" "last_refresh s' = now"
proof -
  define d where "d = now - last_refresh s"
  have n: "intervals_passed now (last_refresh s) = d div 600000" and d: "0 \<le> d"
    using intervals_passed_forward [OF assms(2)] assms(2) by (simp_all add: d_def)
  consider "d < 600000" | "600000 \<le> d" "d < 1200000" | "1200000 \<le> d" by linarith
  then show thesis
  proof cases
    case 1
    then have "intervals_passed now (last_refresh s) = 0" using n d by simp
    then have "s' = s" using assms(1) by (simp add: refresh_check_def)
    with 1 show thesis by (intro fresh) (simp_all add: d_def minutes_def)
  next
    case 2
    then have "d div 600000 = 1" by (intro int_div_pos_eq [of _ _ _ "d - 600000"]) simp_all
    then have "intervals_passed now (last_refresh s) = 1" using n by simp
    then have "last_secret s' = curr_secret s" "last_refresh s' = now"
      using assms(1) by (auto simp: refresh_check_def case_prod_unfold Let_def)
    with 2 show thesis by (intro rotate) (simp_all add: d_def minutes_def)
  next
    case 3
    then have "2 \<le> d div 600000" using zdiv_mono1 [of 1200000 d 600000] by simp
    then have "intervals_passed now (last_refresh s) \<noteq> 0" "intervals_passed now (last_refresh s) \<noteq> 1"
      using n by simp_all
    then have "last_refresh s' = now"
      using assms(1) by (auto simp: refresh_check_def case_prod_unfold Let_def)
    with 3 show thesis by (intro expire) (simp_all add: d_def minutes_def)
  qed
qed

text \<open>
  The invariant while a secret handed out at time \<open>issued\<close> must stay valid until \<open>limit\<close>, at most ten
  minutes later: it is the current secret and the next refresh comes at most one interval after
  it, or it is the last secret and was rotated no earlier than \<open>issued\<close>.
\<close>

definition holds_secret :: "u32 \<Rightarrow> time \<Rightarrow> token_store \<Rightarrow> bool" where
  "holds_secret secret issued s \<longleftrightarrow>
    (curr_secret s = secret \<and> issued - last_refresh s < minutes 10 \<and> last_refresh s \<le> issued) \<or>
    (last_secret s = secret \<and> issued \<le> last_refresh s)"

lemma refresh_keeps_secret:
  assumes "refresh_check rnd now s r = (s', r')" and "holds_secret secret issued s"
    and "last_refresh s \<le> now" and "issued \<le> now" and "now < issued + minutes 10"
  shows "holds_secret secret issued s' \<and> last_refresh s' \<le> now"
  using assms(1,3)
proof (cases rule: refresh_check_cases)
  case fresh
  with assms show ?thesis by simp
next
  case rotate
  with assms show ?thesis by (auto simp: holds_secret_def minutes_def)
next
  case expire
  with assms show ?thesis by (auto simp: holds_secret_def minutes_def)
qed

lemma token_run_keeps_secret:
  assumes "holds_secret secret issued s" and "last_refresh s \<le> since" and "issued \<le> since"
    and "sorted (since # map fst ops)" and "\<forall>e \<in> set ops. fst e < issued + minutes 10"
    and "token_run sha1 rnd ops (s, r) = (s', r')"
  shows "holds_secret secret issued s' \<and> last_refresh s' \<le> last (since # map fst ops)"
  using assms
proof (induction ops arbitrary: since s r)
  case Nil
  then show ?case by (simp add: token_run_def)
next
  case (Cons e ops)
  obtain now oper where e: "e = (now, oper)" by (cases e)
  obtain s1 r1 where step: "refresh_check rnd now s r = (s1, r1)" by fastforce
  have "holds_secret secret issued s1 \<and> last_refresh s1 \<le> now"
    using Cons.prems e by (intro refresh_keeps_secret [OF step]) auto
  moreover have "token_run sha1 rnd ops (s1, r1) = (s', r')"
    using Cons.prems(6) by (simp add: token_run_def e token_step_refresh step)
  ultimately show ?case using Cons.IH [of s1 now r1] Cons.prems e by auto
qed

lemma checkout_then_checkin:
  assumes "checkout sha1 rnd issued addr s r = (tok, s1, r1)" and "last_refresh s \<le> issued"
    and "token_run sha1 rnd ops (s1, r1) = (s2, r2)"
    and "sorted (issued # map fst ops @ [now])" and "now < issued + minutes 10"
  shows "fst (checkin sha1 rnd now addr tok s2 r2)"
proof -
  have rc: "refresh_check rnd issued s r = (s1, r1)"
    and tok: "tok = generate_token_from_addr sha1 addr (curr_secret s1)"
    using assms(1) by (auto simp: checkout_def split: prod.splits)
  have "last_refresh s1 \<le> issued \<and> issued - last_refresh s1 < minutes 10"
    using rc assms(2) by (cases rule: refresh_check_cases) (use assms(2) in \<open>auto simp: minutes_def\<close>)
  then have h1: "holds_secret (curr_secret s1) issued s1" "last_refresh s1 \<le> issued"
    by (simp_all add: holds_secret_def)
  have "\<forall>e \<in> set ops. fst e < issued + minutes 10"
    using assms(4,5) by (auto simp: sorted_append)
  then have h2: "holds_secret (curr_secret s1) issued s2" "last_refresh s2 \<le> last (issued # map fst ops)"
    using token_run_keeps_secret [OF h1 order_refl _ _ assms(3)] assms(4) by (auto simp: sorted_append)
  have le: "last (issued # map fst ops) \<le> now"
  proof -
    have "last (issued # map fst ops) \<in> set (issued # map fst ops)" by (rule last_in_set) simp
    then show ?thesis using assms(4) by (auto simp: sorted_append)
  qed
  obtain s3 r3 where s3: "refresh_check rnd now s2 r2 = (s3, r3)" by fastforce
  have "holds_secret (curr_secret s1) issued s3"
    using refresh_keeps_secret [OF s3 h2(1)] h2(2) le assms(4,5) by simp
  then show ?thesis
    by (auto simp: checkin_def s3 validate_token_iff tok holds_secret_def)
qed

text \<open>What is accepted was made from the address under one of the two secrets in the store.\<close>

lemma checkin_iff:
  assumes "checkin sha1 rnd now addr tok s r = (ok, s', r')"
  shows "ok \<longleftrightarrow> tok = generate_token_from_addr sha1 addr (curr_secret s') \<or>
    tok = generate_token_from_addr sha1 addr (last_secret s')"
  using assms by (auto simp: checkin_def validate_token_iff split: prod.splits)

end
