(* ===== verification/Dht_Storage.thy ===== *)
theory Dht_Storage
  imports Dht_Node
begin

text \<open>
  \<^verbatim>\<open>packages/dht/src/storage.rs\<close>: contacts announced for info hashes, kept for 24 hours and bounded in
  number. A list of expirations, oldest first, is kept beside the hash map of contacts; the
  refinement below shows that together they implement one map from (info hash, address) to the
  time of the last announce.
\<close>

definition MAX_ITEMS_STORED :: nat where "MAX_ITEMS_STORED = 500"
definition EXPIRATION_TIME_HOURS :: int where "EXPIRATION_TIME_HOURS = 24"

definition hours :: "int \<Rightarrow> time" where
  "hours n = minutes (n * 60)"

record item_expiration =
  exp_address :: socket_addr
  inserted :: time
  exp_info_hash :: info_hash

record announce_item =
  expiration :: item_expiration

record announce_storage =
  storage :: "info_hash \<rightharpoonup> announce_item list"
  expires :: "item_expiration list"

definition item_expiration_new :: "time \<Rightarrow> info_hash \<Rightarrow> socket_addr \<Rightarrow> item_expiration" where
  "item_expiration_new now ih addr = \<lparr>exp_address = addr, inserted = now, exp_info_hash = ih\<rparr>"

definition is_expired :: "time \<Rightarrow> item_expiration \<Rightarrow> bool" where
  "is_expired now e \<longleftrightarrow> hours EXPIRATION_TIME_HOURS \<le> now - inserted e"

definition expiration_eq :: "item_expiration \<Rightarrow> item_expiration \<Rightarrow> bool" where
  "expiration_eq a b \<longleftrightarrow> exp_address a = exp_address b \<and> exp_info_hash a = exp_info_hash b"

definition announce_item_new :: "time \<Rightarrow> info_hash \<Rightarrow> socket_addr \<Rightarrow> announce_item" where
  "announce_item_new now ih addr = \<lparr>expiration = item_expiration_new now ih addr\<rparr>"

definition item_eq :: "announce_item \<Rightarrow> announce_item \<Rightarrow> bool" where
  "item_eq a b \<longleftrightarrow> expiration_eq (expiration a) (expiration b)"

definition storage_new :: announce_storage where
  "storage_new = \<lparr>storage = Map.empty, expires = []\<rparr>"

text \<open>The body of the loop over the drained expirations.\<close>

definition drop_contact :: "item_expiration \<Rightarrow> (info_hash \<rightharpoonup> announce_item list) \<Rightarrow> (info_hash \<rightharpoonup> announce_item list)" where
  "drop_contact e st =
    (case st (exp_info_hash e) of
       None \<Rightarrow> st
     | Some items \<Rightarrow>
         let items = filter (\<lambda>a. \<not> expiration_eq (expiration a) e) items in
         if items = [] then st(exp_info_hash e := None) else st(exp_info_hash e \<mapsto> items))"

definition remove_expired_items :: "time \<Rightarrow> announce_storage \<Rightarrow> announce_storage" where
  "remove_expired_items curr_time s =
    (let num_expired_items = length (takeWhile (is_expired curr_time) (expires s))
     in \<lparr>storage = fold drop_contact (take num_expired_items (expires s)) (storage s),
         expires = drop num_expired_items (expires s)\<rparr>)"

definition insert_contact :: "announce_item \<Rightarrow> announce_storage \<Rightarrow> bool option \<times> announce_storage" where
  "insert_contact item s =
    (let ih = exp_info_hash (expiration item);
         already_in_list =
           (case storage s ih of Some items \<Rightarrow> list_ex (\<lambda>a. item_eq a item) items | None \<Rightarrow> False);
         room = length (expires s) < MAX_ITEMS_STORED
     in if \<not> already_in_list \<and> room then
          (Some False, s\<lparr>storage := (storage s)(ih \<mapsto>
             (case storage s ih of Some items \<Rightarrow> items @ [item] | None \<Rightarrow> [item]))\<rparr>)
        else if \<not> already_in_list then (None, s)
        else (Some True, s))"

text \<open>\<^verbatim>\<open>add\<close> takes the current time as an argument and reads the clock once more for the new item.\<close>

definition storage_add :: "time \<Rightarrow> info_hash \<Rightarrow> socket_addr \<Rightarrow> time \<Rightarrow> announce_storage \<Rightarrow> bool \<times> announce_storage" where
  "storage_add now ih addr curr_time s =
    (let s = remove_expired_items curr_time s;
         item = announce_item_new now ih addr;
         item_expiration = expiration item
     in case insert_contact item s of
          (Some True, s) \<Rightarrow>
            (True, s\<lparr>expires := filter (\<lambda>i. \<not> expiration_eq i item_expiration) (expires s) @ [item_expiration]\<rparr>)
        | (Some False, s) \<Rightarrow> (True, s\<lparr>expires := expires s @ [item_expiration]\<rparr>)
        | (None, s) \<Rightarrow> (False, s))"

definition add_item :: "time \<Rightarrow> info_hash \<Rightarrow> socket_addr \<Rightarrow> announce_storage \<Rightarrow> bool \<times> announce_storage" where
  "add_item now ih addr s = storage_add now ih addr now s"

definition storage_find :: "info_hash \<Rightarrow> time \<Rightarrow> announce_storage \<Rightarrow> socket_addr list \<times> announce_storage" where
  "storage_find ih curr_time s =
    (let s = remove_expired_items curr_time s
     in (case storage s ih of Some items \<Rightarrow> map (exp_address \<circ> expiration) items | None \<Rightarrow> [], s))"

definition find_items :: "time \<Rightarrow> info_hash \<Rightarrow> announce_storage \<Rightarrow> socket_addr list \<times> announce_storage" where
  "find_items now ih s = storage_find ih now s"

section \<open>Invariant and abstraction\<close>

type_synonym contact = "info_hash \<times> socket_addr"

definition contact :: "item_expiration \<Rightarrow> contact" where
  "contact e = (exp_info_hash e, exp_address e)"

definition contacts_inv :: "(info_hash \<rightharpoonup> announce_item list) \<Rightarrow> bool" where
  "contacts_inv st \<longleftrightarrow> (\<forall>h items. st h = Some items \<longrightarrow> items \<noteq> [] \<and>
    distinct (map (exp_address \<circ> expiration) items) \<and> (\<forall>a \<in> set items. exp_info_hash (expiration a) = h))"

definition stored :: "(info_hash \<rightharpoonup> announce_item list) \<Rightarrow> contact set" where
  "stored st = {(h, addr). \<exists>items. st h = Some items \<and> addr \<in> exp_address ` expiration ` set items}"

definition storage_wf :: "time \<Rightarrow> announce_storage \<Rightarrow> bool" where
  "storage_wf now s \<longleftrightarrow> contacts_inv (storage s) \<and> stored (storage s) = contact ` set (expires s) \<and>
    distinct (map contact (expires s)) \<and> length (expires s) \<le> MAX_ITEMS_STORED \<and>
    sorted (map inserted (expires s)) \<and> (\<forall>e \<in> set (expires s). inserted e \<le> now)"

text \<open>The storage as a map from contacts to the time of their last announce.\<close>

definition announced :: "announce_storage \<Rightarrow> contact \<rightharpoonup> time" where
  "announced s = map_of (map (\<lambda>e. (contact e, inserted e)) (expires s))"

definition alive :: "time \<Rightarrow> (contact \<rightharpoonup> time) \<Rightarrow> contact \<rightharpoonup> time" where
  "alive now m c = (case m c of Some t \<Rightarrow> if now - t < hours 24 then Some t else None | None \<Rightarrow> None)"

lemma contact_eq: "expiration_eq a b \<longleftrightarrow> contact a = contact b"
  by (auto simp: expiration_eq_def contact_def)

lemma storage_wf_new: "storage_wf now storage_new"
  by (auto simp: storage_wf_def storage_new_def contacts_inv_def stored_def)

lemma not_expired_iff: "\<not> is_expired now e \<longleftrightarrow> now - inserted e < hours 24"
  by (auto simp: is_expired_def EXPIRATION_TIME_HOURS_def)

lemma drop_contact_inv: "contacts_inv st \<Longrightarrow> contacts_inv (drop_contact e st)"
  by (auto simp: contacts_inv_def drop_contact_def Let_def distinct_map_filter split: option.splits)

lemma drop_contact_stored:
  assumes "contacts_inv st"
  shows "stored (drop_contact e st) = stored st - {contact e}"
proof (cases "st (exp_info_hash e)")
  case None
  then have "contact e \<notin> stored st" by (auto simp: stored_def contact_def)
  with None show ?thesis by (simp add: drop_contact_def)
next
  case (Some items)
  let ?items = "filter (\<lambda>a. \<not> expiration_eq (expiration a) e) items"
  have hash: "\<forall>a \<in> set items. exp_info_hash (expiration a) = exp_info_hash e"
    using assms Some by (simp add: contacts_inv_def)
  have addrs: "exp_address ` expiration ` set ?items = exp_address ` expiration ` set items - {exp_address e}"
    using hash by (auto simp: expiration_eq_def)
  have upd: "drop_contact e st = st(exp_info_hash e := (if ?items = [] then None else Some ?items))"
    using Some by (simp add: drop_contact_def Let_def)
  show ?thesis
  proof (intro set_eqI)
    fix c :: contact
    obtain h addr where c: "c = (h, addr)" by (cases c)
    show "c \<in> stored (drop_contact e st) \<longleftrightarrow> c \<in> stored st - {contact e}"
    proof (cases "h = exp_info_hash e")
      case True
      have "c \<in> stored (drop_contact e st) \<longleftrightarrow> addr \<in> exp_address ` expiration ` set ?items"
        unfolding upd using True c by (cases "?items = []") (auto simp: stored_def)
      also have "\<dots> \<longleftrightarrow> c \<in> stored st - {contact e}"
        unfolding addrs using Some True c by (auto simp: stored_def contact_def)
      finally show ?thesis .
    next
      case False
      then show ?thesis unfolding upd using c by (auto simp: stored_def contact_def)
    qed
  qed
qed

lemma drop_contacts:
  "contacts_inv st \<Longrightarrow> contacts_inv (fold drop_contact es st) \<and>
    stored (fold drop_contact es st) = stored st - contact ` set es"
  by (induction es arbitrary: st) (auto simp: drop_contact_inv drop_contact_stored)

text \<open>The expirations are in order, so the expired ones are exactly the prefix that is drained.\<close>

lemma expired_prefix:
  assumes "sorted (map inserted es)"
  shows "dropWhile (is_expired now) es = filter (\<lambda>e. \<not> is_expired now e) es"
  using assms
proof (induction es)
  case (Cons e es)
  have "\<not> is_expired now e \<Longrightarrow> \<forall>e' \<in> set es. \<not> is_expired now e'"
    using Cons.prems by (auto simp: is_expired_def)
  then show ?case using Cons by (auto simp: filter_id_conv)
qed simp

lemma remove_expired_expires:
  "expires (remove_expired_items now s) = dropWhile (is_expired now) (expires s)"
  by (simp add: remove_expired_items_def Let_def dropWhile_eq_drop)

lemma map_of_filter_value:
  assumes "distinct (map f xs)"
  shows "map_of (map (\<lambda>x. (f x, g x)) (filter (\<lambda>x. Q (g x)) xs)) k =
    (case map_of (map (\<lambda>x. (f x, g x)) xs) k of Some t \<Rightarrow> if Q t then Some t else None | None \<Rightarrow> None)"
  using assms
proof (induction xs)
  case (Cons x xs)
  have "map_of (map (\<lambda>x. (f x, g x)) xs) (f x) = None"
    using Cons.prems by (auto simp: map_of_eq_None_iff)
  with Cons show ?case by auto
qed simp

lemma remove_expired_wf:
  assumes "storage_wf now s" and "now \<le> now'"
  shows "storage_wf now' (remove_expired_items at s)"
    and "announced (remove_expired_items at s) = alive at (announced s)"
proof -
  note wf = assms(1) [unfolded storage_wf_def]
  let ?keep = "dropWhile (is_expired at) (expires s)" and ?gone = "takeWhile (is_expired at) (expires s)"
  have keep: "?keep = filter (\<lambda>e. \<not> is_expired at e) (expires s)" using wf by (simp add: expired_prefix)
  have take: "take (length ?gone) (expires s) = ?gone" by (metis takeWhile_eq_take)
  have st: "contacts_inv (fold drop_contact ?gone (storage s)) \<and>
      stored (fold drop_contact ?gone (storage s)) = stored (storage s) - contact ` set ?gone"
    using wf by (intro drop_contacts) simp
  have "set (expires s) = set ?gone \<union> set ?keep" by (metis set_append takeWhile_dropWhile_id)
  moreover have "contact ` set ?gone \<inter> contact ` set ?keep = {}"
  proof -
    have "distinct (map contact ?gone @ map contact ?keep)" using wf
      by (metis map_append takeWhile_dropWhile_id)
    then show ?thesis by auto
  qed
  ultimately have "stored (fold drop_contact ?gone (storage s)) = contact ` set ?keep"
    using st wf by auto
  moreover have "distinct (map contact ?keep)" "sorted (map inserted ?keep)"
    "\<forall>e \<in> set ?keep. inserted e \<le> now'"
    using wf assms(2) unfolding keep by (auto simp: distinct_map_filter sorted_filter)
  moreover have "length ?keep \<le> MAX_ITEMS_STORED"
    using wf length_dropWhile_le [of "is_expired at" "expires s"] by linarith
  ultimately show "storage_wf now' (remove_expired_items at s)"
    using st by (simp add: storage_wf_def remove_expired_items_def Let_def take dropWhile_eq_drop [symmetric])
  have "announced (remove_expired_items at s) =
      map_of (map (\<lambda>e. (contact e, inserted e)) (filter (\<lambda>e. at - inserted e < hours 24) (expires s)))"
    by (simp add: announced_def remove_expired_expires keep not_expired_iff)
  also have "\<dots> = alive at (announced s)"
    using wf map_of_filter_value [of contact "expires s" inserted "\<lambda>t. at - t < hours 24"]
    by (simp add: alive_def announced_def fun_eq_iff)
  finally show "announced (remove_expired_items at s) = alive at (announced s)" .
qed

lemma dom_announced: "dom (announced s) = contact ` set (expires s)"
  by (auto simp: announced_def dom_map_of_conv_image_fst image_image)

lemma card_announced: "storage_wf now s \<Longrightarrow> card (dom (announced s)) = length (expires s)"
  using distinct_card [of "map contact (expires s)"] by (simp add: dom_announced storage_wf_def)

section \<open>Refinement\<close>

text \<open>The specification: a bounded map whose entries die after 24 hours.\<close>

definition spec_add :: "time \<Rightarrow> contact \<Rightarrow> (contact \<rightharpoonup> time) \<Rightarrow> bool \<times> (contact \<rightharpoonup> time)" where
  "spec_add now c m =
    (let m = alive now m in
     if c \<in> dom m \<or> card (dom m) < MAX_ITEMS_STORED then (True, m(c \<mapsto> now)) else (False, m))"

lemma already_stored_iff:
  assumes "contacts_inv (storage s)"
  shows "(case storage s ih of Some items \<Rightarrow> list_ex (\<lambda>a. item_eq a (announce_item_new now ih addr)) items
      | None \<Rightarrow> False) \<longleftrightarrow> (ih, addr) \<in> stored (storage s)"
  using assms
  by (auto simp: contacts_inv_def stored_def item_eq_def expiration_eq_def announce_item_new_def
      item_expiration_new_def list_ex_iff split: option.splits)

lemma insert_contact_stored:
  assumes "contacts_inv st" and "(ih, addr) \<notin> stored st"
    and st': "st' = st(ih \<mapsto> (case st ih of Some items \<Rightarrow> items @ [announce_item_new now ih addr]
      | None \<Rightarrow> [announce_item_new now ih addr]))"
  shows "contacts_inv st'" and "stored st' = insert (ih, addr) (stored st)"
proof -
  show "contacts_inv st'"
    using assms(1,2) by (auto simp: st' contacts_inv_def stored_def announce_item_new_def
        item_expiration_new_def split: option.splits)
  show "stored st' = insert (ih, addr) (stored st)"
    by (auto simp: st' stored_def announce_item_new_def item_expiration_new_def split: option.splits if_splits)
qed

lemma map_of_snoc_new: "k \<notin> fst ` set xs \<Longrightarrow> map_of (xs @ [(k, v)]) = (map_of xs)(k \<mapsto> v)"
  by (induction xs) (auto simp: fun_eq_iff)

lemma map_of_filter_others:
  "k' \<noteq> k \<Longrightarrow> map_of (map (\<lambda>x. (f x, g x)) (filter (\<lambda>x. f x \<noteq> k) xs)) k' = map_of (map (\<lambda>x. (f x, g x)) xs) k'"
  by (induction xs) auto

lemma renew_expiration:
  assumes "storage_wf now s" and "contact e \<in> stored (storage s)" and "inserted e = now"
    and s': "s' = s\<lparr>expires := filter (\<lambda>i. contact i \<noteq> contact e) (expires s) @ [e]\<rparr>"
  shows "storage_wf now s'" and "announced s' = (announced s)(contact e \<mapsto> now)"
proof -
  note wf = assms(1) [unfolded storage_wf_def]
  have mem: "contact e \<in> contact ` set (expires s)" using assms(2) wf by simp
  then obtain x where x: "x \<in> set (expires s)" "contact x = contact e" by auto
  have "length (filter (\<lambda>i. contact i \<noteq> contact e) (expires s)) < length (expires s)"
    using x by (intro length_filter_less [of x]) simp_all
  moreover have "stored (storage s) =
      contact ` set (filter (\<lambda>i. contact i \<noteq> contact e) (expires s) @ [e])"
  proof -
    have "contact ` set (expires s) =
        insert (contact e) (contact ` {i \<in> set (expires s). contact i \<noteq> contact e})"
      using mem by blast
    then show ?thesis using wf by simp
  qed
  moreover have "distinct (map contact (filter (\<lambda>i. contact i \<noteq> contact e) (expires s) @ [e]))"
    "sorted (map inserted (filter (\<lambda>i. contact i \<noteq> contact e) (expires s) @ [e]))"
    "\<forall>x \<in> set (filter (\<lambda>i. contact i \<noteq> contact e) (expires s) @ [e]). inserted x \<le> now"
    using wf by (auto simp: distinct_map_filter sorted_append sorted_filter assms(3))
  ultimately show "storage_wf now s'" using wf by (simp add: storage_wf_def s')
  have "announced s' = (map_of (map (\<lambda>e. (contact e, inserted e))
      (filter (\<lambda>i. contact i \<noteq> contact e) (expires s))))(contact e \<mapsto> now)"
    unfolding announced_def s' by (subst map_of_snoc_new [symmetric]) (auto simp: assms(3))
  then show "announced s' = (announced s)(contact e \<mapsto> now)"
    using map_of_filter_others [of _ "contact e" contact inserted "expires s"]
    by (auto simp: announced_def fun_eq_iff)
qed

lemma append_expiration:
  assumes "storage_wf now s" and "contact e \<notin> stored (storage s)" and "inserted e = now"
    and "length (expires s) < MAX_ITEMS_STORED"
    and "contacts_inv st'" and "stored st' = insert (contact e) (stored (storage s))"
    and s': "s' = s\<lparr>storage := st', expires := expires s @ [e]\<rparr>"
  shows "storage_wf now s'" and "announced s' = (announced s)(contact e \<mapsto> now)"
proof -
  note wf = assms(1) [unfolded storage_wf_def]
  show "storage_wf now s'"
    using wf assms(2-6) unfolding storage_wf_def s' by (auto simp: sorted_append)
  have "contact e \<notin> fst ` set (map (\<lambda>e. (contact e, inserted e)) (expires s))"
    using assms(2) wf by (simp add: image_image)
  from map_of_snoc_new [OF this, of now]
  show "announced s' = (announced s)(contact e \<mapsto> now)"
    by (simp add: announced_def s' assms(3) del: map_of_append)
qed

lemma add_item_refines:
  assumes "storage_wf now0 s" and "now0 \<le> now" and "add_item now ih addr s = (ok, s')"
  shows "storage_wf now s'" and "(ok, announced s') = spec_add now (ih, addr) (announced s)"
proof -
  define s1 where "s1 = remove_expired_items now s"
  have wf1: "storage_wf now s1" and ann1: "announced s1 = alive now (announced s)"
    unfolding s1_def using remove_expired_wf [OF assms(1,2)] by simp_all
  note wf = wf1 [unfolded storage_wf_def]
  define e where "e = item_expiration_new now ih addr"
  have e: "contact e = (ih, addr)" "inserted e = now" "expiration (announce_item_new now ih addr) = e"
    "exp_info_hash e = ih"
    by (simp_all add: e_def contact_def item_expiration_new_def announce_item_new_def)
  have mem: "(ih, addr) \<in> stored (storage s1) \<longleftrightarrow> (ih, addr) \<in> dom (announced s1)"
    using wf by (simp add: dom_announced)
  have run: "add_item now ih addr s = (case insert_contact (announce_item_new now ih addr) s1 of
          (Some True, s) \<Rightarrow> (True, s\<lparr>expires := filter (\<lambda>i. \<not> expiration_eq i e) (expires s) @ [e]\<rparr>)
        | (Some False, s) \<Rightarrow> (True, s\<lparr>expires := expires s @ [e]\<rparr>)
        | (None, s) \<Rightarrow> (False, s))"
    by (simp only: add_item_def storage_add_def Let_def s1_def e(3))
  consider (known) "(ih, addr) \<in> stored (storage s1)"
    | (fresh) "(ih, addr) \<notin> stored (storage s1)" "length (expires s1) < MAX_ITEMS_STORED"
    | (full) "(ih, addr) \<notin> stored (storage s1)" "\<not> length (expires s1) < MAX_ITEMS_STORED"
    by blast
  then have "storage_wf now s' \<and> (ok, announced s') = spec_add now (ih, addr) (announced s)"
  proof cases
    case known
    have "insert_contact (announce_item_new now ih addr) s1 = (Some True, s1)"
      using known already_stored_iff [of s1 now ih addr] wf by (simp add: insert_contact_def e)
    then have s': "ok" "s' = s1\<lparr>expires := filter (\<lambda>i. contact i \<noteq> (ih, addr)) (expires s1) @ [e]\<rparr>"
      using run assms(3) by (simp_all add: contact_eq e)
    with renew_expiration [OF wf1 _ e(2), of s'] show ?thesis
      using known mem by (simp add: spec_add_def Let_def ann1 e)
  next
    case fresh
    define st' where "st' = (storage s1)(ih \<mapsto> (case storage s1 ih of
        Some items \<Rightarrow> items @ [announce_item_new now ih addr] | None \<Rightarrow> [announce_item_new now ih addr]))"
    have st': "contacts_inv st'" "stored st' = insert (ih, addr) (stored (storage s1))"
      using insert_contact_stored [OF _ fresh(1) st'_def] wf by simp_all
    have "insert_contact (announce_item_new now ih addr) s1 = (Some False, s1\<lparr>storage := st'\<rparr>)"
      using fresh already_stored_iff [of s1 now ih addr] wf by (simp add: insert_contact_def e st'_def)
    then have s': "ok" "s' = s1\<lparr>storage := st', expires := expires s1 @ [e]\<rparr>"
      using run assms(3) by simp_all
    with append_expiration [OF wf1 _ e(2) fresh(2) st'(1), of s'] show ?thesis
      using fresh st'(2) mem card_announced [OF wf1] by (simp add: spec_add_def Let_def ann1 e)
  next
    case full
    then have "insert_contact (announce_item_new now ih addr) s1 = (None, s1)"
      using already_stored_iff [of s1 now ih addr] wf by (simp add: insert_contact_def e)
    then have "\<not> ok" "s' = s1" using run assms(3) by simp_all
    then show ?thesis
      using full mem wf1 card_announced [OF wf1] by (simp add: spec_add_def Let_def ann1)
  qed
  then show "storage_wf now s'" "(ok, announced s') = spec_add now (ih, addr) (announced s)" by auto
qed

lemma find_items_refines:
  assumes "storage_wf now0 s" and "now0 \<le> now" and "find_items now ih s = (addrs, s')"
  shows "storage_wf now s'" and "announced s' = alive now (announced s)" and "distinct addrs"
    and "set addrs = {addr. (ih, addr) \<in> dom (alive now (announced s))}"
proof -
  have s': "s' = remove_expired_items now s"
    using assms(3) by (simp add: find_items_def storage_find_def Let_def)
  show wf': "storage_wf now s'" and ann: "announced s' = alive now (announced s)"
    unfolding s' using remove_expired_wf [OF assms(1,2)] by simp_all
  note wf = wf' [unfolded storage_wf_def]
  have addrs: "addrs = (case storage s' ih of Some items \<Rightarrow> map (exp_address \<circ> expiration) items | None \<Rightarrow> [])"
    using assms(3) by (simp add: find_items_def storage_find_def Let_def s')
  show "distinct addrs"
    using wf by (auto simp: addrs contacts_inv_def split: option.splits)
  have "set addrs = {addr. (ih, addr) \<in> stored (storage s')}"
    by (cases "storage s' ih") (auto simp: addrs stored_def image_image)
  then show "set addrs = {addr. (ih, addr) \<in> dom (alive now (announced s))}"
    using wf by (simp add: ann [symmetric] dom_announced)
qed

end
