(* ===== verification/Dht_Transaction.thy ===== *)
theory Dht_Transaction
  imports Util_Convert Util_Trans
begin

text \<open>
  Transaction identifiers of the DHT: \<^verbatim>\<open>packages/dht/src/transaction.rs\<close>. An activity (a lookup, a
  refresh, the bootstrap) owns a 40 bit action id, each message of it a 24 bit message id; both are
  handed out from shuffled blocks of 2048 consecutive numbers. The block lengths are those of the
  build without \<^verbatim>\<open>cfg(test)\<close>. The shuffle is \<^const>\<open>fisher_shuffle\<close>, its random source a parameter.
\<close>

definition ACTION_ID_BYTES :: nat where "ACTION_ID_BYTES = 5"
definition MESSAGE_ID_BYTES :: nat where "MESSAGE_ID_BYTES = 3"
definition TRANSACTION_ID_BYTES :: nat where
  "TRANSACTION_ID_BYTES = ACTION_ID_BYTES + MESSAGE_ID_BYTES"
definition ACTION_ID_SHIFT :: nat where "ACTION_ID_SHIFT = ACTION_ID_BYTES * 8"
definition MESSAGE_ID_SHIFT :: nat where "MESSAGE_ID_SHIFT = MESSAGE_ID_BYTES * 8"
definition MAX_ACTION_ID :: u64 where "MAX_ACTION_ID = push_bit ACTION_ID_SHIFT 1"
definition MAX_MESSAGE_ID :: u64 where "MAX_MESSAGE_ID = push_bit MESSAGE_ID_SHIFT 1"
definition ACTION_ID_PREALLOC_LEN :: nat where "ACTION_ID_PREALLOC_LEN = 2048"
definition MESSAGE_ID_PREALLOC_LEN :: nat where "MESSAGE_ID_PREALLOC_LEN = 2048"

section \<open>Identifiers\<close>

record transaction_id =
  trans_id :: u64
  trans_id_bytes :: bytes

record action_id =
  action_id_value :: u64

record message_id =
  message_id_value :: u64

definition transaction_id_new :: "u64 \<Rightarrow> transaction_id" where
  "transaction_id_new tid = \<lparr>trans_id = tid, trans_id_bytes = eight_bytes_to_array tid\<rparr>"

definition transaction_id_from_bytes :: "bytes \<Rightarrow> transaction_id option" where
  "transaction_id_from_bytes bs =
    (if length bs \<noteq> TRANSACTION_ID_BYTES then None
     else Some (transaction_id_new (foldl (\<lambda>tid byte. push_bit 8 tid OR ucast byte) 0 bs)))"

definition action_id_from_transaction_id :: "u64 \<Rightarrow> action_id" where
  "action_id_from_transaction_id tid = \<lparr>action_id_value = drop_bit MESSAGE_ID_SHIFT tid\<rparr>"

definition message_id_from_transaction_id :: "u64 \<Rightarrow> message_id" where
  "message_id_from_transaction_id tid =
    (let clear_action_id = MAX_MESSAGE_ID - 1 in \<lparr>message_id_value = tid AND clear_action_id\<rparr>)"

definition tid_action_id :: "transaction_id \<Rightarrow> action_id" where
  "tid_action_id t = action_id_from_transaction_id (trans_id t)"

definition tid_message_id :: "transaction_id \<Rightarrow> message_id" where
  "tid_message_id t = message_id_from_transaction_id (trans_id t)"

definition tid_as_ref :: "transaction_id \<Rightarrow> bytes" where
  "tid_as_ref t = trans_id_bytes t"

section \<open>Blocks\<close>

text \<open>Iterating \<^verbatim>\<open>start..end\<close>, and writing the items one after another into an array.\<close>

definition u64_range :: "u64 \<Rightarrow> u64 \<Rightarrow> u64 list" where
  "u64_range start stop = map (\<lambda>i. start + of_nat i) [0..<unat stop - unat start]"

definition fill_array :: "'a list \<Rightarrow> 'a list \<Rightarrow> 'a list" where
  "fill_array arr items = fold (\<lambda>(index, x) arr. arr[index := x]) (enumerate 0 items) arr"

definition generate_aids :: "u64 \<Rightarrow> u64 \<times> u64 list" where
  "generate_aids next_alloc =
    (let (next_alloc_start, next_alloc_end) =
       (if next_alloc = MAX_ACTION_ID then (0, of_nat ACTION_ID_PREALLOC_LEN)
        else (next_alloc, next_alloc + of_nat ACTION_ID_PREALLOC_LEN))
     in (next_alloc_end,
         fill_array (replicate ACTION_ID_PREALLOC_LEN 0) (u64_range next_alloc_start next_alloc_end)))"

definition generate_mids :: "u64 \<Rightarrow> u64 \<times> u64 list" where
  "generate_mids next_alloc =
    (let (next_alloc_start, next_alloc_end) =
       (if next_alloc = MAX_MESSAGE_ID then (0, of_nat MESSAGE_ID_PREALLOC_LEN)
        else (next_alloc, next_alloc + of_nat MESSAGE_ID_PREALLOC_LEN))
     in (next_alloc_end,
         fill_array (replicate MESSAGE_ID_PREALLOC_LEN 0) (u64_range next_alloc_start next_alloc_end)))"

lemma length_fill_array [simp]: "length (fill_array arr items) = length arr"
proof -
  have "length (fold (\<lambda>(index, x) arr. arr[index := x]) ps arr) = length arr" for ps
    by (induction ps arbitrary: arr) auto
  then show ?thesis by (simp add: fill_array_def)
qed

lemma length_generate_aids [simp]: "length (snd (generate_aids n)) = ACTION_ID_PREALLOC_LEN"
  by (simp add: generate_aids_def Let_def)

lemma length_generate_mids [simp]: "length (snd (generate_mids n)) = MESSAGE_ID_PREALLOC_LEN"
  by (simp add: generate_mids_def Let_def)

section \<open>Generators\<close>

record aid_generator =
  aid_next_alloc :: u64
  aid_curr_index :: nat
  action_ids :: "u64 list"

record mid_generator =
  mid_action_id :: u64
  mid_next_alloc :: u64
  mid_curr_index :: nat
  message_ids :: "u64 list"

definition mid_new :: "u64 \<Rightarrow> mid_generator" where
  "mid_new action_id = \<lparr>mid_action_id = action_id, mid_next_alloc = 0,
    mid_curr_index = MESSAGE_ID_PREALLOC_LEN, message_ids = replicate MESSAGE_ID_PREALLOC_LEN 0\<rparr>"

definition mid_generator_action_id :: "mid_generator \<Rightarrow> action_id" where
  "mid_generator_action_id g = action_id_from_transaction_id (mid_action_id g)"

definition aid_new :: "'r random_range \<Rightarrow> 'r \<Rightarrow> aid_generator \<times> 'r" where
  "aid_new rr r =
    (let (next_alloc, ids) = generate_aids 0; (ids, r) = fisher_shuffle rr 0 ids r
     in (\<lparr>aid_next_alloc = next_alloc, aid_curr_index = 0, action_ids = ids\<rparr>, r))"

function aid_generate :: "'r random_range \<Rightarrow> aid_generator \<Rightarrow> 'r \<Rightarrow> mid_generator \<times> aid_generator \<times> 'r" where
  "aid_generate rr g r =
    (case get_at (action_ids g) (aid_curr_index g) of
       Some action_id \<Rightarrow>
         (mid_new (push_bit MESSAGE_ID_SHIFT action_id), g\<lparr>aid_curr_index := aid_curr_index g + 1\<rparr>, r)
     | None \<Rightarrow>
         let (next_alloc, ids) = generate_aids (aid_next_alloc g);
             (ids, r) = fisher_shuffle rr 0 ids r
         in aid_generate rr \<lparr>aid_next_alloc = next_alloc, aid_curr_index = 0, action_ids = ids\<rparr> r)"
  by pat_completeness auto
termination
proof (relation "measure (\<lambda>(rr, g, r). if aid_curr_index g < length (action_ids g) then 0 else 1)", goal_cases)
  case (2 rr g r p na ids q ids' r')
  then have "length ids' = ACTION_ID_PREALLOC_LEN"
    using length_generate_aids [of "aid_next_alloc g"] length_fisher_shuffle [of rr 0 ids r]
    by (metis fst_conv snd_conv)
  with 2 show ?case by (auto simp: get_at_def ACTION_ID_PREALLOC_LEN_def split: if_splits)
qed simp

function mid_generate :: "'r random_range \<Rightarrow> mid_generator \<Rightarrow> 'r \<Rightarrow> transaction_id \<times> mid_generator \<times> 'r" where
  "mid_generate rr g r =
    (case get_at (message_ids g) (mid_curr_index g) of
       Some message_id \<Rightarrow>
         (transaction_id_new (mid_action_id g OR message_id), g\<lparr>mid_curr_index := mid_curr_index g + 1\<rparr>, r)
     | None \<Rightarrow>
         let (next_alloc, ids) = generate_mids (mid_next_alloc g);
             (ids, r) = fisher_shuffle rr 0 ids r
         in mid_generate rr (g\<lparr>mid_next_alloc := next_alloc, message_ids := ids, mid_curr_index := 0\<rparr>) r)"
  by pat_completeness auto
termination
proof (relation "measure (\<lambda>(rr, g, r). if mid_curr_index g < length (message_ids g) then 0 else 1)", goal_cases)
  case (2 rr g r p na ids q ids' r')
  then have "length ids' = MESSAGE_ID_PREALLOC_LEN"
    using length_generate_mids [of "mid_next_alloc g"] length_fisher_shuffle [of rr 0 ids r]
    by (metis fst_conv snd_conv)
  with 2 show ?case by (auto simp: get_at_def MESSAGE_ID_PREALLOC_LEN_def split: if_splits)
qed simp

declare aid_generate.simps [simp del] mid_generate.simps [simp del]

text \<open>Calling a generator \<open>n\<close> times.\<close>

fun draw_many :: "('s \<Rightarrow> 'r \<Rightarrow> 'a \<times> 's \<times> 'r) \<Rightarrow> nat \<Rightarrow> 's \<Rightarrow> 'r \<Rightarrow> 'a list \<times> 's \<times> 'r" where
  "draw_many gen 0 s r = ([], s, r)"
| "draw_many gen (Suc n) s r =
    (let (x, s, r) = gen s r; (xs, s, r) = draw_many gen n s r in (x # xs, s, r))"

section \<open>A block holds the next consecutive numbers\<close>

lemma fold_update_enumerate:
  "k + length items \<le> length arr \<Longrightarrow>
    fold (\<lambda>(index, x) arr. arr[index := x]) (enumerate k items) arr =
      take k arr @ items @ drop (k + length items) arr"
proof (induction items arbitrary: k arr)
  case (Cons x items)
  then have "take (Suc k) (arr[k := x]) = take k arr @ [x]"
    by (simp add: take_Suc_conv_app_nth)
  with Cons show ?case by simp
qed simp

lemma fill_array_all: "length items = length arr \<Longrightarrow> fill_array arr items = items"
  using fold_update_enumerate [of 0 items arr] by (simp add: fill_array_def)

lemma u64_range_run:
  "unat start + k < 2 ^ 64 \<Longrightarrow> u64_range start (start + of_nat k) = id_run start k"
proof -
  assume "unat start + k < 2 ^ 64"
  then have "unat (start + of_nat k) = unat start + k"
    by (simp add: unat_word_ariths unat_of_nat take_bit_eq_mod)
  then show ?thesis by (simp add: u64_range_def id_run_def)
qed

lemma length_id_run [simp]: "length (id_run start k) = k"
  by (simp add: id_run_def)

lemma generate_aids_run:
  assumes "next_alloc \<noteq> MAX_ACTION_ID" and "unat next_alloc + ACTION_ID_PREALLOC_LEN < 2 ^ 64"
  shows "generate_aids next_alloc =
    (next_alloc + of_nat ACTION_ID_PREALLOC_LEN, id_run next_alloc ACTION_ID_PREALLOC_LEN)"
  using assms by (simp add: generate_aids_def u64_range_run fill_array_all)

lemma generate_mids_run:
  assumes "next_alloc \<noteq> MAX_MESSAGE_ID" and "unat next_alloc + MESSAGE_ID_PREALLOC_LEN < 2 ^ 64"
  shows "generate_mids next_alloc =
    (next_alloc + of_nat MESSAGE_ID_PREALLOC_LEN, id_run next_alloc MESSAGE_ID_PREALLOC_LEN)"
  using assms by (simp add: generate_mids_def u64_range_run fill_array_all)

section \<open>The contract of a block generator\<close>

text \<open>
  Both generators keep a next number to allocate and a list of pending numbers; drawing takes the
  first pending one, and starts the next block when none is left. Below \<open>limit\<close> no number repeats.
\<close>

locale block_generator =
  fixes alloc :: "'s \<Rightarrow> u64" and pending :: "'s \<Rightarrow> u64 list" and ok :: "'s \<Rightarrow> bool"
    and draw :: "'r random_range \<Rightarrow> 's \<Rightarrow> 'r \<Rightarrow> u64 \<times> 's \<times> 'r"
    and limit :: nat and block_len :: nat
  assumes limits: "0 < block_len" "block_len dvd limit" "limit < 2 ^ 64"
    and draw_pending: "\<lbrakk>ok s; pending s = x # xs; unat x < limit; draw rr s r = (y, s', r')\<rbrakk> \<Longrightarrow>
      ok s' \<and> y = x \<and> pending s' = xs \<and> alloc s' = alloc s"
    and draw_block: "\<lbrakk>ok s; in_range rr; pending s = []; unat (alloc s) + block_len \<le> limit;
        draw rr s r = (y, s', r')\<rbrakk> \<Longrightarrow>
      ok s' \<and> mset (y # pending s') = mset (id_run (alloc s) block_len) \<and>
      alloc s' = alloc s + of_nat block_len"
begin

definition allotted :: "u64 list \<Rightarrow> 's \<Rightarrow> nat \<Rightarrow> bool" where
  "allotted used s tot \<longleftrightarrow> ok s \<and> tot \<le> limit \<and> block_len dvd tot \<and>
    mset used + mset (pending s) = mset (id_run 0 tot) \<and> alloc s = of_nat tot"

lemma allotted_below: "allotted used s tot \<Longrightarrow> x \<in> set used \<union> set (pending s) \<Longrightarrow> unat x < limit"
proof -
  assume inv: "allotted used s tot" and "x \<in> set used \<union> set (pending s)"
  then have "x \<in> set (id_run 0 tot)"
    by (metis allotted_def mset_append set_append set_mset_mset)
  then obtain i where "i < tot" "x = of_nat i" by (auto simp: id_run_def)
  with inv limits show ?thesis by (auto simp: allotted_def unat_of_nat take_bit_eq_mod)
qed

lemma allotted_distinct: "allotted used s tot \<Longrightarrow> distinct used"
proof -
  assume inv: "allotted used s tot"
  then have "distinct (id_run (0 :: u64) tot)" using limits by (intro distinct_id_run) (simp add: allotted_def)
  then have "distinct (used @ pending s)"
    using inv by (metis allotted_def mset_append mset_eq_imp_distinct_iff)
  then show ?thesis by simp
qed

lemma draw_allotted:
  assumes "in_range rr" and "allotted used s tot" and "length used < limit"
    and "draw rr s r = (y, s', r')"
  shows "\<exists>tot'. allotted (used @ [y]) s' tot'"
proof (cases "pending s")
  case (Cons x xs)
  with draw_pending [OF _ Cons _ assms(4)] allotted_below [OF assms(2), of x] assms(2)
  show ?thesis by (intro exI [of _ tot]) (simp add: allotted_def)
next
  case Nil
  have tot: "length used = tot"
    using assms(2) Nil by (metis allotted_def length_id_run size_mset add.right_neutral mset.simps(1))
  then obtain a b where "limit = block_len * a" "tot = block_len * b"
    using assms(2) limits(2) by (auto simp: allotted_def dvd_def)
  then have room: "tot + block_len \<le> limit" using assms(3) tot
    by (metis Suc_leI mult_Suc_right mult_le_mono2 mult_less_cancel1 add.commute)
  then have "unat (alloc s) = tot" using assms(2) limits(3)
    by (auto simp: allotted_def unat_of_nat take_bit_eq_mod)
  with draw_block [OF _ assms(1) Nil _ assms(4)] assms(2) room Nil limits
  show ?thesis by (intro exI [of _ "tot + block_len"]) (simp add: allotted_def id_run_add)
qed

lemma draw_many_allotted:
  assumes "in_range rr" and "allotted used s tot" and "length used + n \<le> limit"
    and "draw_many (draw rr) n s r = (ys, s', r')"
  shows "\<exists>tot'. allotted (used @ ys) s' tot'"
  using assms(2-)
proof (induction n arbitrary: used s tot r ys)
  case (Suc n)
  obtain y s1 r1 where g: "draw rr s r = (y, s1, r1)" by (metis prod_cases3)
  obtain ys' where ys': "draw_many (draw rr) n s1 r1 = (ys', s', r')" "ys = y # ys'"
    using Suc.prems(3) g by (auto split: prod.splits)
  obtain tot1 where "allotted (used @ [y]) s1 tot1"
    using draw_allotted [OF assms(1) Suc.prems(1) _ g] Suc.prems(2) by auto
  from Suc.IH [OF this _ ys'(1)] Suc.prems(2) ys'(2) show ?case by simp
qed auto

lemma draw_many_distinct:
  assumes "in_range rr" and "allotted [] s tot" and "n \<le> limit"
    and "draw_many (draw rr) n s r = (ys, s', r')"
  shows "distinct ys" and "x \<in> set ys \<Longrightarrow> unat x < limit"
proof -
  obtain tot' where inv: "allotted ys s' tot'" using draw_many_allotted [OF assms(1,2) _ assms(4)] assms(3) by auto
  show "distinct ys" by (rule allotted_distinct [OF inv])
  show "x \<in> set ys \<Longrightarrow> unat x < limit" by (rule allotted_below [OF inv]) simp
qed

end

section \<open>Both generators meet it\<close>

lemma shift_values: "MESSAGE_ID_SHIFT = 24" "ACTION_ID_SHIFT = 40"
  by (simp_all add: MESSAGE_ID_SHIFT_def MESSAGE_ID_BYTES_def ACTION_ID_SHIFT_def ACTION_ID_BYTES_def)

lemma max_values: "MAX_MESSAGE_ID = 2 ^ 24" "MAX_ACTION_ID = 2 ^ 40"
  "unat MAX_MESSAGE_ID = 2 ^ 24" "unat MAX_ACTION_ID = 2 ^ 40"
  by (simp_all add: MAX_MESSAGE_ID_def MAX_ACTION_ID_def shift_values push_bit_eq_mult)

lemma mask_message: "MAX_MESSAGE_ID - 1 = mask MESSAGE_ID_SHIFT"
  by (simp add: max_values shift_values mask_eq_exp_minus_1)

lemma take_bit_small: "unat w < 2 ^ n \<Longrightarrow> take_bit n w = (w :: 'a::len word)"
  by (rule word_unat_eq_iff [THEN iffD2]) (simp add: unsigned_take_bit_eq take_bit_nat_eq_self)

lemma no_high_bit: "unat w < 2 ^ n \<Longrightarrow> n \<le> k \<Longrightarrow> \<not> bit (w :: 'a::len word) k"
  by (metis take_bit_small bit_take_bit_iff not_le)

lemma action_of_shifted:
  assumes "unat a < unat MAX_ACTION_ID"
  shows "drop_bit MESSAGE_ID_SHIFT (push_bit MESSAGE_ID_SHIFT a) = (a :: u64)"
proof (rule bit_word_eqI)
  have "\<not> bit a n" if "40 \<le> n" for n
    using assms that by (intro no_high_bit [of _ 40]) (simp_all add: max_values)
  then show "bit (drop_bit MESSAGE_ID_SHIFT (push_bit MESSAGE_ID_SHIFT a)) n = bit a n"
    if "n < LENGTH(64)" for n
    using that not_le by (auto simp: bit_drop_bit_eq bit_push_bit_iff shift_values)
qed

lemma message_masked: "unat m < unat MAX_MESSAGE_ID \<Longrightarrow> (m :: u64) AND mask MESSAGE_ID_SHIFT = m"
  using take_bit_small [of m 24] max_values(3) by (simp add: take_bit_eq_mask [symmetric] shift_values)

lemma message_high_bits: "unat m < unat MAX_MESSAGE_ID \<Longrightarrow> drop_bit MESSAGE_ID_SHIFT (m :: u64) = 0"
  by (rule bit_word_eqI) (simp add: bit_drop_bit_eq no_high_bit [of m 24] max_values shift_values)

lemma parts_of_transaction_id:
  assumes "mid_action_id g = push_bit MESSAGE_ID_SHIFT a" and "unat m < unat MAX_MESSAGE_ID"
  shows "message_id_value (tid_message_id (transaction_id_new (mid_action_id g OR m))) = m"
    and "tid_action_id (transaction_id_new (mid_action_id g OR m)) = mid_generator_action_id g"
proof -
  have "push_bit MESSAGE_ID_SHIFT a AND mask MESSAGE_ID_SHIFT = 0"
    by (rule bit_word_eqI) (simp add: bit_and_iff bit_push_bit_iff bit_mask_iff)
  then show "message_id_value (tid_message_id (transaction_id_new (mid_action_id g OR m))) = m"
    using assms message_masked
    by (simp add: tid_message_id_def message_id_from_transaction_id_def transaction_id_new_def
        mask_message bit.conj_disj_distrib2)
  show "tid_action_id (transaction_id_new (mid_action_id g OR m)) = mid_generator_action_id g"
    using message_high_bits [OF assms(2)]
    by (simp add: tid_action_id_def mid_generator_action_id_def action_id_from_transaction_id_def
        transaction_id_new_def)
qed

definition aid_draw :: "'r random_range \<Rightarrow> aid_generator \<Rightarrow> 'r \<Rightarrow> u64 \<times> aid_generator \<times> 'r" where
  "aid_draw rr g r = apfst (\<lambda>m. action_id_value (mid_generator_action_id m)) (aid_generate rr g r)"

definition mid_draw :: "'r random_range \<Rightarrow> mid_generator \<Rightarrow> 'r \<Rightarrow> u64 \<times> mid_generator \<times> 'r" where
  "mid_draw rr g r = apfst (\<lambda>t. message_id_value (tid_message_id t)) (mid_generate rr g r)"

definition aid_pending :: "aid_generator \<Rightarrow> u64 list" where
  "aid_pending g = drop (aid_curr_index g) (action_ids g)"

definition mid_pending :: "mid_generator \<Rightarrow> u64 list" where
  "mid_pending g = drop (mid_curr_index g) (message_ids g)"

definition mid_shifted :: "mid_generator \<Rightarrow> bool" where
  "mid_shifted g \<longleftrightarrow> (\<exists>a. mid_action_id g = push_bit MESSAGE_ID_SHIFT a)"

lemma drop_eq_ConsD: "drop k xs = x # ys \<Longrightarrow> get_at xs k = Some x \<and> drop (Suc k) xs = ys"
proof -
  assume d: "drop k xs = x # ys"
  then have "k < length xs" by (metis drop_all list.discI not_le)
  with d Cons_nth_drop_Suc [of k xs] show ?thesis by (auto simp: get_at_def)
qed

lemma drop_eq_NilD: "drop k xs = [] \<Longrightarrow> get_at xs k = None"
  by (simp add: get_at_def)

lemma aid_draw_pending:
  assumes "aid_pending g = x # xs" and "unat x < unat MAX_ACTION_ID"
  shows "aid_draw rr g r = (x, g\<lparr>aid_curr_index := aid_curr_index g + 1\<rparr>, r)"
    and "aid_pending (g\<lparr>aid_curr_index := aid_curr_index g + 1\<rparr>) = xs"
  using drop_eq_ConsD [OF assms(1) [unfolded aid_pending_def]] action_of_shifted [OF assms(2)]
  by (simp_all add: aid_draw_def aid_generate.simps [of rr g] get_at_def aid_pending_def
      mid_generator_action_id_def action_id_from_transaction_id_def mid_new_def)

lemma mid_draw_pending:
  assumes "mid_shifted g" and "mid_pending g = x # xs" and "unat x < unat MAX_MESSAGE_ID"
  shows "mid_draw rr g r = (x, g\<lparr>mid_curr_index := mid_curr_index g + 1\<rparr>, r)"
    and "mid_pending (g\<lparr>mid_curr_index := mid_curr_index g + 1\<rparr>) = xs"
  using drop_eq_ConsD [OF assms(2) [unfolded mid_pending_def]] parts_of_transaction_id(1) [OF _ assms(3)]
    assms(1)
  by (auto simp: mid_draw_def mid_generate.simps [of rr g] get_at_def mid_pending_def mid_shifted_def)

lemma id_run_below:
  assumes "unat start + k \<le> lim" and "lim < 2 ^ 64" and "x \<in> set (id_run (start :: u64) k)"
  shows "unat x < lim"
proof -
  obtain i where "i < k" "x = start + of_nat i" using assms(3) by (auto simp: id_run_def)
  then show ?thesis using assms(1,2) by (simp add: unat_word_ariths unat_of_nat take_bit_eq_mod)
qed

lemma shuffled_run:
  assumes "in_range rr" and "fisher_shuffle rr 0 (id_run (start :: u64) k) r = (ids, r')" and "0 < k"
    and "unat start + k \<le> lim" and "lim < 2 ^ 64"
  obtains x xs where "ids = x # xs" "unat x < lim" "mset (x # xs) = mset (id_run start k)"
proof -
  have m: "mset ids = mset (id_run start k)"
    using mset_fisher_shuffle [OF assms(1), of 0 "id_run start k" r] assms(2) by simp
  then have "length ids = k" by (metis length_id_run size_mset)
  then obtain x xs where ids: "ids = x # xs" using assms(3) by (cases ids) auto
  then have "x \<in> set (id_run start k)" using m by (metis list.set_intros(1) set_mset_mset)
  then have "unat x < lim" by (rule id_run_below [OF assms(4,5)])
  with ids m that show thesis by simp
qed

lemma aid_draw_block:
  assumes "in_range rr" and "aid_pending g = []"
    and room: "unat (aid_next_alloc g) + ACTION_ID_PREALLOC_LEN \<le> unat MAX_ACTION_ID"
    and d: "aid_draw rr g r = (y, g', r')"
  shows "mset (y # aid_pending g') = mset (id_run (aid_next_alloc g) ACTION_ID_PREALLOC_LEN)"
    and "aid_next_alloc g' = aid_next_alloc g + of_nat ACTION_ID_PREALLOC_LEN"
proof -
  have "aid_next_alloc g \<noteq> MAX_ACTION_ID" using room by (auto simp: ACTION_ID_PREALLOC_LEN_def)
  then have gen: "generate_aids (aid_next_alloc g) =
      (aid_next_alloc g + of_nat ACTION_ID_PREALLOC_LEN, id_run (aid_next_alloc g) ACTION_ID_PREALLOC_LEN)"
    using room by (intro generate_aids_run) (simp_all add: max_values)
  obtain ids r1 where sh: "fisher_shuffle rr 0 (id_run (aid_next_alloc g) ACTION_ID_PREALLOC_LEN) r = (ids, r1)"
    by fastforce
  obtain x xs where x: "ids = x # xs" "unat x < unat MAX_ACTION_ID"
    "mset (x # xs) = mset (id_run (aid_next_alloc g) ACTION_ID_PREALLOC_LEN)"
    by (rule shuffled_run [OF assms(1) sh _ room]) (simp_all add: max_values ACTION_ID_PREALLOC_LEN_def)
  define g1 where "g1 = \<lparr>aid_next_alloc = aid_next_alloc g + of_nat ACTION_ID_PREALLOC_LEN,
      aid_curr_index = 0, action_ids = ids\<rparr>"
  have "aid_draw rr g r = aid_draw rr g1 r1"
    using drop_eq_NilD [OF assms(2) [unfolded aid_pending_def]] gen sh
    by (simp add: aid_draw_def aid_generate.simps [of rr g] get_at_def g1_def)
  moreover have p1: "aid_pending g1 = x # xs" by (simp add: g1_def aid_pending_def x(1))
  ultimately have "y = x" "g' = g1\<lparr>aid_curr_index := aid_curr_index g1 + 1\<rparr>"
    using aid_draw_pending(1) [OF p1 x(2), of rr r1] d by simp_all
  then show "mset (y # aid_pending g') = mset (id_run (aid_next_alloc g) ACTION_ID_PREALLOC_LEN)"
    "aid_next_alloc g' = aid_next_alloc g + of_nat ACTION_ID_PREALLOC_LEN"
    using aid_draw_pending(2) [OF p1 x(2)] x(3) by (simp_all add: g1_def)
qed

lemma mid_draw_block:
  assumes "mid_shifted g" and "in_range rr" and "mid_pending g = []"
    and room: "unat (mid_next_alloc g) + MESSAGE_ID_PREALLOC_LEN \<le> unat MAX_MESSAGE_ID"
    and d: "mid_draw rr g r = (y, g', r')"
  shows "mset (y # mid_pending g') = mset (id_run (mid_next_alloc g) MESSAGE_ID_PREALLOC_LEN)"
    and "mid_next_alloc g' = mid_next_alloc g + of_nat MESSAGE_ID_PREALLOC_LEN"
    and "mid_shifted g'"
proof -
  have "mid_next_alloc g \<noteq> MAX_MESSAGE_ID" using room by (auto simp: MESSAGE_ID_PREALLOC_LEN_def)
  then have gen: "generate_mids (mid_next_alloc g) =
      (mid_next_alloc g + of_nat MESSAGE_ID_PREALLOC_LEN, id_run (mid_next_alloc g) MESSAGE_ID_PREALLOC_LEN)"
    using room by (intro generate_mids_run) (simp_all add: max_values)
  obtain ids r1 where sh: "fisher_shuffle rr 0 (id_run (mid_next_alloc g) MESSAGE_ID_PREALLOC_LEN) r = (ids, r1)"
    by fastforce
  obtain x xs where x: "ids = x # xs" "unat x < unat MAX_MESSAGE_ID"
    "mset (x # xs) = mset (id_run (mid_next_alloc g) MESSAGE_ID_PREALLOC_LEN)"
    by (rule shuffled_run [OF assms(2) sh _ room]) (simp_all add: max_values MESSAGE_ID_PREALLOC_LEN_def)
  define g1 where "g1 = g\<lparr>mid_next_alloc := mid_next_alloc g + of_nat MESSAGE_ID_PREALLOC_LEN,
      message_ids := ids, mid_curr_index := 0\<rparr>"
  have "mid_draw rr g r = mid_draw rr g1 r1"
    using drop_eq_NilD [OF assms(3) [unfolded mid_pending_def]] gen sh
    by (simp add: mid_draw_def mid_generate.simps [of rr g] get_at_def g1_def)
  moreover have p1: "mid_pending g1 = x # xs" by (simp add: g1_def mid_pending_def x(1))
  moreover have ok1: "mid_shifted g1" using assms(1) by (simp add: g1_def mid_shifted_def)
  ultimately have "y = x" "g' = g1\<lparr>mid_curr_index := mid_curr_index g1 + 1\<rparr>"
    using mid_draw_pending(1) [OF ok1 p1 x(2), of rr r1] d by simp_all
  then show "mset (y # mid_pending g') = mset (id_run (mid_next_alloc g) MESSAGE_ID_PREALLOC_LEN)"
    "mid_next_alloc g' = mid_next_alloc g + of_nat MESSAGE_ID_PREALLOC_LEN" "mid_shifted g'"
    using mid_draw_pending(2) [OF ok1 p1 x(2)] x(3) ok1 by (simp_all add: g1_def mid_shifted_def)
qed

interpretation aids: block_generator aid_next_alloc aid_pending "\<lambda>_. True" aid_draw
  "unat MAX_ACTION_ID" ACTION_ID_PREALLOC_LEN
proof (unfold_locales, goal_cases)
  case (4 g x xs rr r y g' r')
  then show ?case using aid_draw_pending(1) [of g x xs rr r] aid_draw_pending(2) [of g x xs] by auto
next
  case (5 g rr r y g' r')
  then show ?case using aid_draw_block [of rr g r y g' r'] by simp
qed (simp_all add: max_values ACTION_ID_PREALLOC_LEN_def)

interpretation mids: block_generator mid_next_alloc mid_pending mid_shifted mid_draw
  "unat MAX_MESSAGE_ID" MESSAGE_ID_PREALLOC_LEN
proof (unfold_locales, goal_cases)
  case (4 g x xs rr r y g' r')
  then show ?case using mid_draw_pending(1) [of g x xs rr r] mid_draw_pending(2) [of g x xs] by (auto simp: mid_shifted_def)
next
  case (5 g rr r y g' r')
  then show ?case using mid_draw_block [of g rr r y g' r'] by simp
qed (simp_all add: max_values MESSAGE_ID_PREALLOC_LEN_def)

section \<open>What a run of the generators yields\<close>

lemma draw_many_map:
  assumes "\<And>s r. draw s r = apfst f (gen s r)"
  shows "draw_many draw n s r = apfst (map f) (draw_many gen n s r)"
  by (induction n arbitrary: s r) (simp_all add: assms case_prod_unfold Let_def apfst_def map_prod_def)

lemma aid_new_allotted:
  assumes "in_range rr" and "aid_new rr r = (g, r')"
  shows "aids.allotted [] g ACTION_ID_PREALLOC_LEN"
proof -
  have gen: "generate_aids 0 = (of_nat ACTION_ID_PREALLOC_LEN, id_run 0 ACTION_ID_PREALLOC_LEN)"
    using generate_aids_run [of 0] max_values(4) by (force simp: ACTION_ID_PREALLOC_LEN_def)
  have "mset (fst (fisher_shuffle rr 0 (id_run (0 :: u64) ACTION_ID_PREALLOC_LEN) r)) =
      mset (id_run 0 ACTION_ID_PREALLOC_LEN)"
    by (rule mset_fisher_shuffle [OF assms(1)])
  then show ?thesis
    unfolding aids.allotted_def using assms(2) aids.limits(2) max_values(4)
    by (auto simp: aid_new_def gen aid_pending_def ACTION_ID_PREALLOC_LEN_def split: prod.splits)
qed

lemma mid_new_allotted: "mids.allotted [] (mid_new (push_bit MESSAGE_ID_SHIFT a)) 0"
  by (auto simp: mids.allotted_def mid_new_def mid_pending_def mid_shifted_def)

text \<open>A generator's block and next number stay within 24 bits, also after a wrap-around.\<close>

definition mid_wf :: "mid_generator \<Rightarrow> bool" where
  "mid_wf g \<longleftrightarrow> mid_shifted g \<and> (\<forall>m \<in> set (message_ids g). unat m < unat MAX_MESSAGE_ID) \<and>
    unat (mid_next_alloc g) \<le> unat MAX_MESSAGE_ID \<and> MESSAGE_ID_PREALLOC_LEN dvd unat (mid_next_alloc g)"

lemma generate_mids_wrapping:
  assumes "unat na \<le> unat MAX_MESSAGE_ID" and "MESSAGE_ID_PREALLOC_LEN dvd unat na"
    and "generate_mids na = (na', ids)"
  shows "\<forall>m \<in> set ids. unat m < unat MAX_MESSAGE_ID"
    and "unat na' \<le> unat MAX_MESSAGE_ID" and "MESSAGE_ID_PREALLOC_LEN dvd unat na'"
proof -
  define start where "start = (if na = MAX_MESSAGE_ID then 0 else na)"
  have len: "MESSAGE_ID_PREALLOC_LEN = 2048" by (simp add: MESSAGE_ID_PREALLOC_LEN_def)
  have dvd: "2048 dvd unat start" using assms(2) by (simp add: start_def len)
  have "unat start < 2 ^ 24"
    using assms(1) max_values(3) word_unat_eq_iff [of na MAX_MESSAGE_ID] by (auto simp: start_def)
  with dvd have room: "unat start + 2048 \<le> 2 ^ 24" by (auto simp: dvd_def)
  have "generate_mids na =
      (start + of_nat 2048, fill_array (replicate 2048 0) (u64_range start (start + of_nat 2048)))"
    by (simp add: generate_mids_def start_def len)
  then have "generate_mids na = (start + of_nat 2048, id_run start 2048)"
    using u64_range_run [of start 2048] room by (simp add: fill_array_all)
  then have ids: "na' = start + of_nat 2048" "ids = id_run start 2048" using assms(3) by simp_all
  show "\<forall>m \<in> set ids. unat m < unat MAX_MESSAGE_ID"
    using id_run_below [of start 2048 "2 ^ 24"] room by (auto simp: ids max_values)
  have "unat na' = unat start + 2048" using room unat_add_lem [of start "of_nat 2048"] by (simp add: ids)
  with room dvd show "unat na' \<le> unat MAX_MESSAGE_ID" "MESSAGE_ID_PREALLOC_LEN dvd unat na'"
    by (simp_all add: max_values len)
qed

lemma mid_generate_action:
  assumes "in_range rr" and "mid_wf g" and "mid_generate rr g r = (t, g', r')"
  shows "mid_wf g'" and "mid_generator_action_id g' = mid_generator_action_id g"
    and "tid_action_id t = mid_generator_action_id g"
proof -
  have "mid_wf g' \<and> mid_generator_action_id g' = mid_generator_action_id g \<and>
      tid_action_id t = mid_generator_action_id g"
    using assms
  proof (induction rr g r rule: mid_generate.induct)
    case (1 rr g r)
    show ?case
    proof (cases "get_at (message_ids g) (mid_curr_index g)")
      case None
      obtain na ids where gen: "generate_mids (mid_next_alloc g) = (na, ids)" by fastforce
      obtain ids' r1 where sh: "fisher_shuffle rr 0 ids r = (ids', r1)" by fastforce
      define g1 where "g1 = g\<lparr>mid_next_alloc := na, message_ids := ids', mid_curr_index := 0\<rparr>"
      have "set ids' = set ids"
        using mset_fisher_shuffle [OF 1(2), of 0 ids r] sh by (metis fst_conv set_mset_mset)
      then have "mid_wf g1"
        using 1(3) generate_mids_wrapping [OF _ _ gen] by (simp add: mid_wf_def g1_def mid_shifted_def)
      moreover have "mid_generate rr g1 r1 = (t, g', r')"
        using 1(4) None by (simp add: mid_generate.simps [of rr g r] gen sh g1_def get_at_def)
      ultimately have "mid_wf g' \<and> mid_generator_action_id g' = mid_generator_action_id g1 \<and>
          tid_action_id t = mid_generator_action_id g1"
        using 1(1) [OF None gen [symmetric] refl sh [symmetric] refl 1(2)] by (simp add: g1_def)
      then show ?thesis by (simp add: g1_def mid_generator_action_id_def)
    next
      case (Some m)
      then have "m \<in> set (message_ids g)" by (auto simp: get_at_def split: if_splits)
      then have "tid_action_id (transaction_id_new (mid_action_id g OR m)) = mid_generator_action_id g"
        using 1(3) parts_of_transaction_id(2) by (auto simp: mid_wf_def mid_shifted_def)
      then show ?thesis using 1(3,4) Some
        by (auto simp: mid_generate.simps [of rr g r] get_at_def mid_wf_def mid_shifted_def mid_generator_action_id_def)
    qed
  qed
  then show "mid_wf g'" "mid_generator_action_id g' = mid_generator_action_id g"
    "tid_action_id t = mid_generator_action_id g" by simp_all
qed

lemma mid_many_action:
  assumes "in_range rr" and "mid_wf g" and "draw_many (mid_generate rr) n g r = (ts, g', r')" and "t \<in> set ts"
  shows "tid_action_id t = mid_generator_action_id g"
  using assms(2-)
proof (induction n arbitrary: g r ts)
  case (Suc n)
  obtain t1 g1 r1 where g: "mid_generate rr g r = (t1, g1, r1)" by (metis prod_cases3)
  obtain ts' where ts': "draw_many (mid_generate rr) n g1 r1 = (ts', g', r')" "ts = t1 # ts'"
    using Suc.prems(2) g by (auto split: prod.splits)
  with Suc.IH [OF _ ts'(1)] mid_generate_action [OF assms(1) Suc.prems(1) g] Suc.prems(3)
  show ?case by auto
qed simp

lemma mid_new_wf: "mid_wf (mid_new (push_bit MESSAGE_ID_SHIFT a))"
  using max_values(3) by (auto simp: mid_wf_def mid_shifted_def mid_new_def)

lemma mid_many_distinct:
  assumes "in_range rr" and "n \<le> unat MAX_MESSAGE_ID"
    and "draw_many (mid_generate rr) n (mid_new (push_bit MESSAGE_ID_SHIFT a)) r = (ts, g', r')"
  shows "distinct (map (\<lambda>t. message_id_value (tid_message_id t)) ts)"
proof -
  have "draw_many (mid_draw rr) n (mid_new (push_bit MESSAGE_ID_SHIFT a)) r =
      (map (\<lambda>t. message_id_value (tid_message_id t)) ts, g', r')"
    using draw_many_map [of "mid_draw rr", OF mid_draw_def] assms(3) by simp
  from mids.draw_many_distinct(1) [OF assms(1) mid_new_allotted assms(2) this] show ?thesis .
qed

lemma aid_many_distinct:
  assumes "in_range rr" and "n \<le> unat MAX_ACTION_ID" and "aid_new rr r0 = (g, r)"
    and "draw_many (aid_generate rr) n g r = (ms, g', r')"
  shows "distinct (map (\<lambda>m. action_id_value (mid_generator_action_id m)) ms)"
proof -
  have "draw_many (aid_draw rr) n g r = (map (\<lambda>m. action_id_value (mid_generator_action_id m)) ms, g', r')"
    using draw_many_map [of "aid_draw rr", OF aid_draw_def] assms(4) by simp
  from aids.draw_many_distinct(1) [OF assms(1) aid_new_allotted [OF assms(1,3)] assms(2) this] show ?thesis .
qed

text \<open>Every generator of messages comes out of the action generator with a shifted id.\<close>

lemma aid_generate_form: "aid_generate rr g r = (m, g', r') \<Longrightarrow> \<exists>a. m = mid_new (push_bit MESSAGE_ID_SHIFT a)"
proof (induction rr g r rule: aid_generate.induct)
  case (1 rr g r)
  show ?case
  proof (cases "get_at (action_ids g) (aid_curr_index g)")
    case None
    with 1 show ?thesis by (auto simp: aid_generate.simps [of rr g r] get_at_def Let_def split: prod.splits)
  qed (use 1 in \<open>auto simp: aid_generate.simps [of rr g r] get_at_def\<close>)
qed

lemma mid_generate_form: "mid_generate rr g r = (t, g', r') \<Longrightarrow> t = transaction_id_new (trans_id t)"
proof (induction rr g r rule: mid_generate.induct)
  case (1 rr g r)
  show ?case
  proof (cases "get_at (message_ids g) (mid_curr_index g)")
    case None
    with 1 show ?thesis by (auto simp: mid_generate.simps [of rr g r] get_at_def Let_def split: prod.splits)
  qed (use 1 in \<open>auto simp: mid_generate.simps [of rr g r] get_at_def transaction_id_new_def\<close>)
qed

lemma draw_many_all:
  assumes "\<And>s r x s' r'. gen s r = (x, s', r') \<Longrightarrow> P x" and "draw_many gen n s r = (xs, s', r')" and "x \<in> set xs"
  shows "P x"
  using assms(2,3)
proof (induction n arbitrary: s r xs)
  case (Suc n)
  obtain y s1 r1 where g: "gen s r = (y, s1, r1)" by (metis prod_cases3)
  obtain ys where ys: "draw_many gen n s1 r1 = (ys, s', r')" "xs = y # ys"
    using Suc.prems(1) g by (auto split: prod.splits)
  with Suc.IH [OF ys(1)] assms(1) [OF g] Suc.prems(2) show ?case by auto
qed simp

section \<open>Transaction ids on the wire\<close>

lemma transaction_id_roundtrip:
  "transaction_id_from_bytes (tid_as_ref (transaction_id_new w)) = Some (transaction_id_new w)"
  using from_to_be_bytes [where 'a = 64, of 8 w]
  by (simp add: transaction_id_from_bytes_def tid_as_ref_def transaction_id_new_def eight_bytes_eq
      from_be_bytes_def TRANSACTION_ID_BYTES_def ACTION_ID_BYTES_def MESSAGE_ID_BYTES_def)

lemma transaction_id_bytes_roundtrip:
  "transaction_id_from_bytes bs = Some t \<longleftrightarrow> length bs = TRANSACTION_ID_BYTES \<and> tid_as_ref t = bs \<and>
    t = transaction_id_new (trans_id t)"
proof -
  have len: "TRANSACTION_ID_BYTES = 8"
    by (simp add: TRANSACTION_ID_BYTES_def ACTION_ID_BYTES_def MESSAGE_ID_BYTES_def)
  have eq: "transaction_id_from_bytes bs = (if length bs \<noteq> 8 then None else Some (transaction_id_new (from_be_bytes bs)))"
    by (simp add: transaction_id_from_bytes_def from_be_bytes_def len)
  have inv: "length bs = 8 \<Longrightarrow> to_be_bytes 8 (from_be_bytes bs :: u64) = bs"
    using to_from_be_bytes [of bs, where 'a = 64] by simp
  show ?thesis
  proof
    assume "transaction_id_from_bytes bs = Some t"
    then show "length bs = TRANSACTION_ID_BYTES \<and> tid_as_ref t = bs \<and> t = transaction_id_new (trans_id t)"
      using inv by (auto simp: eq len tid_as_ref_def transaction_id_new_def eight_bytes_eq split: if_splits)
  next
    assume *: "length bs = TRANSACTION_ID_BYTES \<and> tid_as_ref t = bs \<and> t = transaction_id_new (trans_id t)"
    then show "transaction_id_from_bytes bs = Some t" using transaction_id_roundtrip [of "trans_id t"] by metis
  qed
qed

end
