(* ===== verification/Dht_Security.thy ===== *)
theory Dht_Security
  imports Util_Convert Util_Sha
begin

text \<open>
  Node ids bound to an address: \<^verbatim>\<open>packages/dht/src/security.rs\<close>. The CRC32-C of the \<^verbatim>\<open>crc\<close> crate
  (\<open>checksum\<close>) and the random bytes (\<open>rnd k\<close> is the \<open>k\<close>-th one drawn) are parameters. Array indices
  out of range and arithmetic underflow are \<open>Panic\<close>.
\<close>

definition IPV4_MASK :: u32 where "IPV4_MASK = 0x030F3FFF"
definition CRC32C_ARG_SLICE_SIZE :: nat where "CRC32C_ARG_SLICE_SIZE = 8"

definition ipv4_to_u32 :: "ipv4_addr \<Rightarrow> u32" where
  "ipv4_to_u32 addr = from_be_bytes (octets addr)"

definition mask_ipv4_be :: "ipv4_addr \<Rightarrow> u32" where
  "mask_ipv4_be addr = ipv4_to_u32 addr AND IPV4_MASK"

definition generate_compliant_id ::
    "(bytes \<Rightarrow> u32) \<Rightarrow> (nat \<Rightarrow> u8) \<Rightarrow> u64 \<Rightarrow> nat \<Rightarrow> u8 \<Rightarrow> ('e, bytes) outcome" where
  "generate_compliant_id checksum rnd masked_ip_be num_octets rand =
    (let r = rand AND 0x07; masked_ip_bytes = eight_bytes_to_array masked_ip_be in
     if length masked_ip_bytes < num_octets \<or> num_octets = 0 then Panic
     else
       let starting_byte = length masked_ip_bytes - num_octets;
           masked_ip_bytes = masked_ip_bytes[starting_byte := masked_ip_bytes ! starting_byte OR push_bit 5 r];
           crc32c_result = checksum (drop starting_byte masked_ip_bytes)
       in Ok ([ucast (drop_bit 24 crc32c_result), ucast (drop_bit 16 crc32c_result),
               ucast (drop_bit 8 crc32c_result AND 0xF8) OR (rnd 0 AND 0x07)]
             @ map rnd [1..<17] @ [rand]))"

definition generate_compliant_id_ipv4 ::
    "(bytes \<Rightarrow> u32) \<Rightarrow> (nat \<Rightarrow> u8) \<Rightarrow> ipv4_addr \<Rightarrow> u8 \<Rightarrow> ('e, bytes) outcome" where
  "generate_compliant_id_ipv4 checksum rnd addr rand =
    generate_compliant_id checksum rnd (ucast (mask_ipv4_be addr)) 4 rand"

definition is_compliant_id :: "u32 \<Rightarrow> bytes \<Rightarrow> bool" where
  "is_compliant_id crc32c_result id_bytes \<longleftrightarrow>
    id_bytes ! 0 = ucast (drop_bit 24 crc32c_result) \<and>
    id_bytes ! 1 = ucast (drop_bit 16 crc32c_result) \<and>
    id_bytes ! 2 AND 0xF8 = ucast (drop_bit 8 crc32c_result) AND 0xF8"

definition is_compliant_addr :: "(bytes \<Rightarrow> u32) \<Rightarrow> u64 \<Rightarrow> nat \<Rightarrow> bytes \<Rightarrow> ('e, bool) outcome" where
  "is_compliant_addr checksum masked_ip_be num_octets id_bytes =
    (if \<not> num_octets \<le> CRC32C_ARG_SLICE_SIZE then Panic
     else
       let rand = id_bytes ! 19; r = rand AND 0x07; ip_bits_used = num_octets * 8 in
       if ip_bits_used < 3 then Panic
       else
         let rand_masked_ip = masked_ip_be OR push_bit (ip_bits_used - 3) (ucast r);
             rand_masked_ip_bytes = eight_bytes_to_array rand_masked_ip;
             crc32c_result = checksum (drop 4 rand_masked_ip_bytes)
         in Ok (is_compliant_id crc32c_result id_bytes))"

definition is_security_compliant_ipv4_exempt :: "ipv4_addr \<Rightarrow> bool" where
  "is_security_compliant_ipv4_exempt addr = False"

definition is_compliant_ipv4_addr :: "(bytes \<Rightarrow> u32) \<Rightarrow> ipv4_addr \<Rightarrow> bytes \<Rightarrow> ('e, bool) outcome" where
  "is_compliant_ipv4_addr checksum addr id_bytes =
    (if is_security_compliant_ipv4_exempt addr then Ok True
     else is_compliant_addr checksum (ucast (mask_ipv4_be addr)) 4 id_bytes)"

section \<open>A generated id is compliant\<close>

lemma and_7: "x AND 7 = take_bit 3 (x :: 'a::len word)"
  by (simp add: take_bit_eq_mask mask_eq_exp_minus_1)

lemma bit_F8: "bit (0xF8 :: u8) n \<longleftrightarrow> 3 \<le> n \<and> n < 8"
proof -
  have "(0xF8 :: u8) = NOT (mask 3)" by (simp add: mask_eq_exp_minus_1)
  then show ?thesis by (simp only: bit_not_iff bit_mask_iff possible_bit_word) auto
qed

lemma bit_F8_32: "bit (0xF8 :: u32) n \<longleftrightarrow> 3 \<le> n \<and> n < 8"
proof -
  have "(0xF8 :: u32) = push_bit 3 (mask 5)" by (simp add: mask_eq_exp_minus_1)
  then show ?thesis by (simp only: bit_push_bit_iff bit_mask_iff possible_bit_word) auto
qed

text \<open>Setting the three random bits in the first hashed byte or in the whole word is the same.\<close>

lemma rand_bits_in_first_byte:
  "drop 4 (eight_bytes_to_array (w OR push_bit 29 (ucast (r AND 7)))) =
    drop 4 ((eight_bytes_to_array w)[4 := eight_bytes_to_array w ! 4 OR push_bit 5 (r AND 7)])"
  unfolding and_7
  by (simp add: eight_bytes_to_array_def; intro conjI; rule bit_word_eqI)
    (auto simp: bit_simps)

lemma middle_byte:
  "(ucast (drop_bit 8 (c :: u32) AND 0xF8) OR (x AND 7)) AND 0xF8 = ucast (drop_bit 8 c) AND (0xF8 :: u8)"
  unfolding and_7 by (rule bit_word_eqI) (auto simp: bit_and_iff bit_or_iff
      bit_take_bit_iff bit_drop_bit_eq bit_ucast_iff bit_F8 bit_F8_32 simp del: bit_numeral_word_iff)

lemma generated_id_compliant:
  "\<exists>node_id. generate_compliant_id_ipv4 checksum rnd addr rand = Ok node_id \<and> sha_wf node_id \<and>
    is_compliant_ipv4_addr checksum addr node_id = Ok True"
proof -
  define w :: u64 where "w = ucast (mask_ipv4_be addr)"
  define crc where "crc = checksum (drop 4 ((eight_bytes_to_array w)[4 := eight_bytes_to_array w ! 4 OR push_bit 5 (rand AND 7)]))"
  define node_id where "node_id = [ucast (drop_bit 24 crc), ucast (drop_bit 16 crc),
      ucast (drop_bit 8 crc AND 0xF8) OR (rnd 0 AND 0x07)] @ map rnd [1..<17] @ [rand]"
  have len: "length (eight_bytes_to_array w) = 8" by (simp add: eight_bytes_to_array_def)
  have "generate_compliant_id_ipv4 checksum rnd addr rand = Ok node_id"
    by (simp only: generate_compliant_id_ipv4_def generate_compliant_id_def Let_def w_def [symmetric] len)
      (simp add: crc_def node_id_def)
  moreover have "node_id ! 19 = rand" "length node_id = 20" by (simp_all add: node_id_def nth_append)
  moreover from this have "is_compliant_ipv4_addr checksum addr node_id = Ok (is_compliant_id crc node_id)"
    by (simp add: is_compliant_ipv4_addr_def is_security_compliant_ipv4_exempt_def is_compliant_addr_def
        CRC32C_ARG_SLICE_SIZE_def w_def [symmetric] crc_def rand_bits_in_first_byte)
  moreover have "is_compliant_id crc node_id"
    by (simp add: is_compliant_id_def node_id_def middle_byte)
  ultimately show ?thesis by (auto simp: sha_wf_def SHA_HASH_LEN_def)
qed

section \<open>The check of an eight octet address\<close>

lemma eight_octets_low_half:
  assumes "take_bit 32 ip = take_bit 32 ip'"
  shows "is_compliant_addr checksum ip 8 id_bytes = is_compliant_addr checksum ip' 8 id_bytes"
proof -
  have low: "bit ip n = bit ip' n" if "n < 32" for n
    using assms that by (metis bit_take_bit_iff)
  have "drop 4 (eight_bytes_to_array (ip OR push_bit 61 r)) =
      drop 4 (eight_bytes_to_array (ip' OR push_bit 61 r))" for r
    by (simp add: eight_bytes_to_array_def; intro conjI; rule bit_word_eqI) (auto simp: bit_simps low)
  then show ?thesis by (simp add: is_compliant_addr_def Let_def)
qed

end
