(* ===== verification/Dht_Properties.thy ===== *)
theory Dht_Properties
  imports Dht_Lookup Dht_Token Dht_Storage Dht_Transaction Dht_Security
begin

text \<open>
  What the parts of the DHT promise: the routing table, the enumeration of close nodes, announce
  tokens, announced contacts, transaction ids and address-bound node ids. Each property is followed
  by a concrete instance where it has hypotheses.
\<close>

section \<open>Concrete data for the instances\<close>

definition demo_self :: node_id where "demo_self = replicate 20 0"
definition demo_addr :: socket_addr where
  "demo_addr = SockV4 \<lparr>v4_ip = Ipv4Addr 127 0 0 1, v4_port = 6881\<rparr>"
definition demo_node :: node where "demo_node = as_good 0 (128 # replicate 19 0) demo_addr"
definition demo_table :: routing_table where "demo_table = the (add_node 0 demo_node (table_new demo_self))"

definition pick_first :: "unit random_range" where "pick_first lo hi r = (lo, r)"

definition count_up :: "u32 random_u32" where "count_up r = (r, r + 1)"

definition demo_sha1 :: "bytes \<Rightarrow> sha_hash" where
  "demo_sha1 bs = take 20 (bs @ replicate 20 0)"

definition demo_ip :: ip_addr where "demo_ip = IpV4 (Ipv4Addr 10 0 0 1)"

definition demo_store :: token_store where
  "demo_store = \<lparr>curr_secret = 100, last_secret = 101, last_refresh = 0\<rparr>"

lemma pick_first_in_range: "in_range pick_first"
  by (simp add: in_range_def pick_first_def)

lemma demo_ids: "sha_wf demo_self" "sha_wf (node_id demo_node)" "node_id demo_node \<noteq> demo_self"
  by code_simp+

lemma demo_table_new: "table_wf (table_new demo_self)"
  by (rule table_wf_new [OF demo_ids(1)])

lemma demo_add: "add_node 0 demo_node (table_new demo_self) = Some demo_table"
  using add_node_correct [OF demo_table_new demo_ids(2), of 0] by (auto simp: demo_table_def)

lemma demo_table_reachable: "table_reachable demo_self demo_table"
  by (rule table_reachable.insert_node [OF table_reachable.start demo_ids(2) demo_add])

lemma demo_table_evaluated:
  "demo_node \<in> set (table_nodes demo_table)" "length (buckets demo_table) = 1"
  "leading_bit_count (table_id demo_table) (node_id demo_node) = 0" "is_good_node 0 demo_node"
  by code_simp+

section \<open>The routing table\<close>

text \<open>
  C10. Adding a node to a routing table always returns. The result is well formed, keeps the own id,
  never has fewer buckets, and loses no good node. A node that is not bad and not our own id is in
  the table afterwards with at least its status, unless its bucket cannot be split and holds only
  nodes of at least that status. No node appears out of nowhere.
\<close>

theorem routing_table_add_node:
  assumes "table_wf t" and "sha_wf (node_id n)"
  shows "\<exists>t'. add_node now n t = Some t' \<and> table_wf t' \<and> table_id t' = table_id t \<and>
    length (buckets t) \<le> length (buckets t') \<and> good_keys now t \<subseteq> good_keys now t' \<and>
    (status now n \<noteq> Bad \<and> node_id n \<noteq> table_id t \<longrightarrow> accounted now n t') \<and>
    set (table_nodes t') \<subseteq> insert n (insert placeholder (set (table_nodes t)))"
  using add_node_correct [OF assms, of now] by (auto simp: grows_def)

theorem routing_table_add_node_witness:
  "table_wf (table_new demo_self) \<and> sha_wf (node_id demo_node) \<and>
    (\<exists>t'. add_node 0 demo_node (table_new demo_self) = Some t' \<and> table_wf t' \<and> accounted 0 demo_node t')"
proof -
  have "status 0 demo_node \<noteq> Bad" by (simp add: demo_node_def status_as_good)
  then show ?thesis
    using routing_table_add_node [OF demo_table_new demo_ids(2), of 0] demo_table_new demo_ids
    by (auto simp: table_new_def)
qed

text \<open>
  C11. In every table reached from an empty one by adding nodes, each live node sits in the bucket
  of its common prefix with our own id, no two live nodes have the same id and address, and there
  are at most 160 buckets of at most eight nodes.
\<close>

theorem routing_table_reachable_sound:
  assumes "sha_wf self" and "table_reachable self t"
  shows "length (buckets t) \<le> MAX_BUCKETS \<and>
    (\<forall>b \<in> set (buckets t). length (bucket_nodes b) = MAX_BUCKET_SIZE) \<and>
    (\<forall>i n. i < length (buckets t) \<and> n \<in> set (bucket_nodes (buckets t ! i)) \<and> responded n \<longrightarrow>
      i = bucket_placement (leading_bit_count self (node_id n)) (length (buckets t))) \<and>
    (\<forall>i j m n. i < length (buckets t) \<and> j < length (buckets t) \<and>
      m \<in> set (bucket_nodes (buckets t ! i)) \<and> n \<in> set (bucket_nodes (buckets t ! j)) \<and>
      responded m \<and> responded n \<and> node_key m = node_key n \<longrightarrow> i = j \<and> m = n)"
proof (intro conjI)
  have wf: "table_wf t" "table_id t = self" using table_reachable_wf [OF assms] by simp_all
  show "length (buckets t) \<le> MAX_BUCKETS"
    "\<forall>b \<in> set (buckets t). length (bucket_nodes b) = MAX_BUCKET_SIZE"
    using wf by (simp_all add: table_wf_def bucket_wf_def)
  show "\<forall>i n. i < length (buckets t) \<and> n \<in> set (bucket_nodes (buckets t ! i)) \<and> responded n \<longrightarrow>
      i = bucket_placement (leading_bit_count self (node_id n)) (length (buckets t))"
    using table_wf_node [OF wf(1)] wf(2) by (auto simp: home_def)
  show "\<forall>i j m n. i < length (buckets t) \<and> j < length (buckets t) \<and>
      m \<in> set (bucket_nodes (buckets t ! i)) \<and> n \<in> set (bucket_nodes (buckets t ! j)) \<and>
      responded m \<and> responded n \<and> node_key m = node_key n \<longrightarrow> i = j \<and> m = n"
    using table_wf_key_unique [OF wf(1)] by blast
qed

theorem routing_table_reachable_sound_witness:
  "sha_wf demo_self \<and> table_reachable demo_self demo_table \<and> length (buckets demo_table) \<le> MAX_BUCKETS"
  using routing_table_reachable_sound [OF demo_ids(1) demo_table_reachable] demo_ids demo_table_reachable
  by simp

section \<open>Looking nodes up\<close>

text \<open>
  C12. The closest nodes of a well formed table, asked for any number of times, come from one fixed
  list: it holds exactly the good and questionable nodes of the table, each as often as the table
  does, ordered by how far their bucket is from the bucket of the target.
\<close>

theorem closest_nodes_enumerates:
  assumes "table_wf t" and "sha_wf target"
  shows "\<exists>ns. (\<forall>k. closest_take k now (closest_nodes_of t target) = take k ns) \<and>
    mset ns = mset (filter (is_good_node now) (table_nodes t)) \<and>
    sorted (map (\<lambda>n. visit_rank (leading_bit_count (table_id t) target) (leading_bit_count (table_id t) (node_id n))) ns)"
  using closest_take_remaining [OF closest_inv_new [OF assms]] closest_complete [OF assms] closest_ordered [OF assms]
  by blast

theorem closest_nodes_enumerates_witness:
  "table_wf demo_table \<and> sha_wf demo_self \<and>
    (\<exists>ns. closest_take 8 0 (closest_nodes_of demo_table demo_self) = take 8 ns \<and>
      mset ns = mset (filter (is_good_node 0) (table_nodes demo_table)))"
  using closest_nodes_enumerates [of demo_table demo_self 0] table_reachable_wf [OF demo_ids(1) demo_table_reachable]
    demo_ids(1) by blast

text \<open>
  C13. A good or questionable node of the table is found by its id and address exactly when its
  bucket is one of the sorted ones: nodes of the last bucket, which holds every longer prefix until
  160 buckets exist, are never found.
\<close>

theorem find_node_iff_sorted_bucket:
  assumes "table_wf t" and "m \<in> set (table_nodes t)" and "is_good_node now m" and "node_eq m n"
    and "leading_bit_count (table_id t) (node_id n) < MAX_BUCKETS"
  shows "find_node now n t =
    (if leading_bit_count (table_id t) (node_id n) <
        (if length (buckets t) = MAX_BUCKETS then MAX_BUCKETS else length (buckets t) - 1)
     then Some m else None)"
  using find_node_present [OF assms(1-4)] find_node_assorted [OF _ assms(5,1)]
  by (simp add: sorted_count_def)

theorem find_node_iff_sorted_bucket_witness:
  "table_wf demo_table \<and> demo_node \<in> set (table_nodes demo_table) \<and> is_good_node 0 demo_node \<and>
    node_eq demo_node demo_node \<and> find_node 0 demo_node demo_table = None"
  using find_node_iff_sorted_bucket [of demo_table demo_node 0 demo_node] demo_table_evaluated
    table_reachable_wf [OF demo_ids(1) demo_table_reachable]
  by (simp add: node_eq_def MAX_BUCKETS_def SHA_HASH_LEN_def)

section \<open>Announce tokens\<close>

text \<open>
  C14. A token handed out to an address is accepted from that address for ten minutes, whatever other
  tokens are handed out or checked in between.
\<close>

theorem token_valid_for_ten_minutes:
  assumes "checkout sha1 rnd issued addr s r = (tok, s1, r1)" and "last_refresh s \<le> issued"
    and "token_run sha1 rnd ops (s1, r1) = (s2, r2)"
    and "sorted (issued # map fst ops @ [now])" and "now < issued + minutes 10"
  shows "fst (checkin sha1 rnd now addr tok s2 r2)"
  by (rule checkout_then_checkin [OF assms])

theorem token_valid_for_ten_minutes_witness:
  "let (tok, s1, r1) = checkout demo_sha1 count_up (minutes 9) demo_ip demo_store 7;
       (s2, r2) = token_run demo_sha1 count_up [(minutes 11, Checkout demo_ip)] (s1, r1)
   in last_refresh demo_store \<le> minutes 9 \<and> sorted [minutes 9, minutes 11, minutes 18] \<and>
     fst (checkin demo_sha1 count_up (minutes 18) demo_ip tok s2 r2)"
proof -
  obtain tok s1 r1 where c: "checkout demo_sha1 count_up (minutes 9) demo_ip demo_store 7 = (tok, s1, r1)"
    by (metis prod_cases3)
  obtain s2 r2 where o: "token_run demo_sha1 count_up [(minutes 11, Checkout demo_ip)] (s1, r1) = (s2, r2)"
    by fastforce
  have t: "last_refresh demo_store \<le> minutes 9" "sorted [minutes 9, minutes 11, minutes 18]"
    "minutes 18 < minutes 9 + minutes 10"
    by (simp_all add: minutes_def demo_store_def)
  with token_valid_for_ten_minutes [OF c t(1) o, of "minutes 18"] show ?thesis by (simp add: c o)
qed

text \<open>
  The secrets are only refreshed when the store is used, so a token can outlive the twenty
  minutes that the comment on the refresh interval allows it: one handed out at minute 0 is accepted
  at minute 28, after a single other checkout at minute 19.
\<close>

lemma token_accepted_after_28_minutes:
  "let (tok, s1, r1) = checkout demo_sha1 count_up 0 demo_ip demo_store 7;
       (s2, r2) = token_run demo_sha1 count_up [(minutes 19, Checkout demo_ip)] (s1, r1)
   in fst (checkin demo_sha1 count_up (minutes 28) demo_ip tok s2 r2)"
  by code_simp

section \<open>Announced contacts\<close>

text \<open>
  C15. The storage of announced contacts behaves as one map from contact to announce time: adding
  drops what is older than 24 hours, then renews or adds the contact unless 500 others are live, and
  reports whether it did; finding returns each live address of an info hash once. Both keep the
  storage well formed, and a new one is empty and well formed.
\<close>

theorem storage_refines_announcements:
  assumes "storage_wf now0 s" and "now0 \<le> now"
  shows "storage_wf now storage_new \<and> announced storage_new = Map.empty \<and>
    (\<forall>addr. let (ok, s') = add_item now ih addr s in
      storage_wf now s' \<and> (ok, announced s') = spec_add now (ih, addr) (announced s)) \<and>
    (let (addrs, s') = find_items now ih s in
      storage_wf now s' \<and> announced s' = alive now (announced s) \<and> distinct addrs \<and>
      set addrs = {addr. (ih, addr) \<in> dom (alive now (announced s))})"
proof (intro conjI allI)
  show "storage_wf now storage_new" "announced storage_new = Map.empty"
    by (simp_all add: storage_wf_def storage_new_def contacts_inv_def stored_def announced_def)
  show "let (ok, s') = add_item now ih addr s in
      storage_wf now s' \<and> (ok, announced s') = spec_add now (ih, addr) (announced s)" for addr
    using add_item_refines [OF assms, of ih addr] by (auto split: prod.splits)
  show "let (addrs, s') = find_items now ih s in
      storage_wf now s' \<and> announced s' = alive now (announced s) \<and> distinct addrs \<and>
      set addrs = {addr. (ih, addr) \<in> dom (alive now (announced s))}"
    using find_items_refines [OF assms, of ih] by (auto split: prod.splits)
qed

theorem storage_refines_announcements_witness:
  "storage_wf 0 storage_new \<and>
    (let (ok, s') = add_item 5 demo_self demo_addr storage_new in
      storage_wf 5 s' \<and> (ok, announced s') = spec_add 5 (demo_self, demo_addr) Map.empty)"
proof -
  have "storage_wf 0 storage_new"
    by (simp add: storage_wf_def storage_new_def contacts_inv_def stored_def)
  note wf = this
  note run = storage_refines_announcements [OF wf, of 5 demo_self, simplified]
  from run [THEN conjunct2, THEN conjunct2, THEN conjunct1, THEN spec, of demo_addr] run [THEN conjunct2, THEN conjunct1]
  show ?thesis using wf by simp
qed

section \<open>Transaction ids\<close>

text \<open>
  C16. The first 2^40 activities get different action ids, and the first 2^24 messages of an activity
  get different message ids.
\<close>

theorem transaction_ids_distinct:
  assumes "in_range rr" and "aid_new rr r0 = (g, r)" and "i \<le> unat MAX_ACTION_ID"
    and "draw_many (aid_generate rr) i g r = (ms, g', r')"
    and "m \<in> set ms" and "k \<le> unat MAX_MESSAGE_ID" and "draw_many (mid_generate rr) k m r1 = (ts, m', r2)"
  shows "distinct (map mid_generator_action_id ms) \<and> distinct (map tid_message_id ts)"
proof
  show "distinct (map mid_generator_action_id ms)"
    using aid_many_distinct [OF assms(1,3,2,4)] by (auto simp: distinct_map inj_on_def)
  have "\<exists>a. m = mid_new (push_bit MESSAGE_ID_SHIFT a)"
    by (rule draw_many_all [OF _ assms(4,5)]) (rule aid_generate_form)
  then obtain a where "m = mid_new (push_bit MESSAGE_ID_SHIFT a)" ..
  with assms(7) have "draw_many (mid_generate rr) k (mid_new (push_bit MESSAGE_ID_SHIFT a)) r1 = (ts, m', r2)" by simp
  from mid_many_distinct [OF assms(1,6) this]
  show "distinct (map tid_message_id ts)" by (auto simp: distinct_map inj_on_def)
qed

theorem transaction_ids_distinct_witness:
  "\<exists>g r ms g' r' m ts m' r2. in_range pick_first \<and> aid_new pick_first () = (g, r) \<and>
    draw_many (aid_generate pick_first) 3 g r = (ms, g', r') \<and> m \<in> set ms \<and>
    draw_many (mid_generate pick_first) 5 m () = (ts, m', r2) \<and>
    distinct (map mid_generator_action_id ms) \<and> distinct (map tid_message_id ts)"
proof -
  obtain g r where g: "aid_new pick_first () = (g, r)" by (metis surj_pair)
  obtain ms g' r' where ms: "draw_many (aid_generate pick_first) 3 g r = (ms, g', r')" by (metis prod_cases3)
  have "ms \<noteq> []" using ms by (auto simp: numeral_eq_Suc split: prod.splits)
  then obtain m where m: "m \<in> set ms" by (cases ms) auto
  obtain ts m' r2 where ts: "draw_many (mid_generate pick_first) 5 m () = (ts, m', r2)" by (metis prod_cases3)
  from transaction_ids_distinct [OF pick_first_in_range g _ ms m _ ts] pick_first_in_range g ms m ts
  show ?thesis by (auto simp: max_values)
qed

text \<open>
  C17. A transaction id carries its activity across the wire, however many messages were sent: the
  bytes of any id that a message generator hands out parse back to that id, whose action id is the
  one of the generator.
\<close>

theorem transaction_id_routes_to_action:
  assumes "in_range rr" and "aid_generate rr g r = (m, g', r')"
    and "draw_many (mid_generate rr) k m r1 = (ts, m', r2)" and "t \<in> set ts"
  shows "transaction_id_from_bytes (tid_as_ref t) = Some t \<and> tid_action_id t = mid_generator_action_id m"
proof
  have "t = transaction_id_new (trans_id t)"
    by (rule draw_many_all [OF _ assms(3,4), of "\<lambda>t. t = transaction_id_new (trans_id t)"]) (rule mid_generate_form)
  then show "transaction_id_from_bytes (tid_as_ref t) = Some t"
    using transaction_id_roundtrip [of "trans_id t"] by metis
  have "mid_wf m" using aid_generate_form [OF assms(2)] mid_new_wf by blast
  then show "tid_action_id t = mid_generator_action_id m" by (rule mid_many_action [OF assms(1) _ assms(3,4)])
qed

theorem transaction_id_routes_to_action_witness:
  "\<exists>m g' r' t ts m' r2. in_range pick_first \<and>
    aid_generate pick_first \<lparr>aid_next_alloc = 0, aid_curr_index = 0, action_ids = [7]\<rparr> () = (m, g', r') \<and>
    draw_many (mid_generate pick_first) 1 m () = (ts, m', r2) \<and> t \<in> set ts \<and>
    transaction_id_from_bytes (tid_as_ref t) = Some t \<and> tid_action_id t = mid_generator_action_id m"
proof -
  obtain m g' r' where m: "aid_generate pick_first
      \<lparr>aid_next_alloc = 0, aid_curr_index = 0, action_ids = [7]\<rparr> () = (m, g', r')"
    by (metis prod_cases3)
  obtain ts m' r2 where ts: "draw_many (mid_generate pick_first) 1 m () = (ts, m', r2)" by (metis prod_cases3)
  then have "ts \<noteq> []" by (auto split: prod.splits)
  then obtain t where t: "t \<in> set ts" by (cases ts) auto
  from transaction_id_routes_to_action [OF pick_first_in_range m ts t] pick_first_in_range m ts t
  show ?thesis by auto
qed

section \<open>Node ids bound to an address\<close>

text \<open>
  C18. A node id generated for an IPv4 address has 20 bytes and passes the check for that address,
  whatever the checksum function and the random bytes are.
\<close>

theorem generated_node_id_is_compliant:
  "\<exists>node_id. generate_compliant_id_ipv4 checksum rnd addr rand = Ok node_id \<and> sha_wf node_id \<and>
    is_compliant_ipv4_addr checksum addr node_id = Ok True"
  by (rule generated_id_compliant)

end
