(* ===== verification/Wire_Bytes.thy ===== *)
theory Wire_Bytes
  imports Byte_Order
begin

text \<open>
  The byte primitives that the peer and handshake packages take from other crates: the complete
  number parsers and \<^verbatim>\<open>take\<close> of \<^verbatim>\<open>nom\<close>, and the big-endian writers of \<^verbatim>\<open>byteorder\<close> and \<^verbatim>\<open>bytes\<close>. They
  are one record of functions, an argument of every definition that uses them, and \<open>wire_spec\<close>
  states their documented behaviour. The control combinators of \<^verbatim>\<open>nom\<close> (sequencing, \<^verbatim>\<open>map\<close>,
  \<^verbatim>\<open>value\<close>, \<^verbatim>\<open>opt\<close>, \<^verbatim>\<open>preceded\<close>, \<^verbatim>\<open>alt\<close>) are translated to control flow.
\<close>

record wire =
  nom_be_u8 :: "bytes \<Rightarrow> (bytes \<times> u8) option"
  nom_be_u16 :: "bytes \<Rightarrow> (bytes \<times> u16) option"
  nom_be_u32 :: "bytes \<Rightarrow> (bytes \<times> u32) option"
  nom_take :: "nat \<Rightarrow> bytes \<Rightarrow> (bytes \<times> bytes) option"
  put_u16 :: "u16 \<Rightarrow> bytes"
  put_u32 :: "u32 \<Rightarrow> bytes"

definition wire_spec :: "wire \<Rightarrow> bool" where
  "wire_spec w \<longleftrightarrow>
    (\<forall>bs. nom_be_u8 w bs = (case bs of [] \<Rightarrow> None | b # rest \<Rightarrow> Some (rest, b))) \<and>
    (\<forall>bs. nom_be_u16 w bs = (if length bs < 2 then None else Some (drop 2 bs, from_be_bytes (take 2 bs)))) \<and>
    (\<forall>bs. nom_be_u32 w bs = (if length bs < 4 then None else Some (drop 4 bs, from_be_bytes (take 4 bs)))) \<and>
    (\<forall>n bs. nom_take w n bs = (if length bs < n then None else Some (drop n bs, take n bs))) \<and>
    (\<forall>n. put_u16 w n = to_be_bytes 2 n) \<and> (\<forall>n. put_u32 w n = to_be_bytes 4 n)"

definition big_endian :: wire where
  "big_endian = \<lparr>
    nom_be_u8 = (\<lambda>bs. case bs of [] \<Rightarrow> None | b # rest \<Rightarrow> Some (rest, b)),
    nom_be_u16 = (\<lambda>bs. if length bs < 2 then None else Some (drop 2 bs, from_be_bytes (take 2 bs))),
    nom_be_u32 = (\<lambda>bs. if length bs < 4 then None else Some (drop 4 bs, from_be_bytes (take 4 bs))),
    nom_take = (\<lambda>n bs. if length bs < n then None else Some (drop n bs, take n bs)),
    put_u16 = to_be_bytes 2, put_u32 = to_be_bytes 4\<rparr>"

lemma wire_spec_big_endian: "wire_spec big_endian"
  by (simp add: wire_spec_def big_endian_def)

text \<open>Rewrite rules under the specification, used as \<open>simp: wireD [OF w]\<close>.\<close>

lemma wireD:
  assumes "wire_spec w"
  shows "nom_be_u8 w [] = None" and "nom_be_u8 w (b # rest) = Some (rest, b)"
    and "nom_be_u16 w bs = (if length bs < 2 then None else Some (drop 2 bs, from_be_bytes (take 2 bs)))"
    and "nom_be_u32 w bs = (if length bs < 4 then None else Some (drop 4 bs, from_be_bytes (take 4 bs)))"
    and "nom_take w n bs = (if length bs < n then None else Some (drop n bs, take n bs))"
    and "put_u16 w h = to_be_bytes 2 h" and "put_u32 w d = to_be_bytes 4 d"
  using assms by (simp_all add: wire_spec_def)

lemma from_be_bytes_to [simp]:
  "from_be_bytes (to_be_bytes 4 d) = (d :: u32)" "from_be_bytes (to_be_bytes 2 h) = (h :: u16)"
  by (simp_all add: from_to_be_bytes)

lemma be_u32_written:
  assumes "wire_spec w"
  shows "nom_be_u32 w (to_be_bytes 4 d @ bs) = Some (bs, d)"
  by (simp add: wireD [OF assms])

lemma be_u16_written:
  assumes "wire_spec w"
  shows "nom_be_u16 w (to_be_bytes 2 d @ bs) = Some (bs, d)"
  by (simp add: wireD [OF assms])

section \<open>Errors\<close>

text \<open>
  The errors of a \<^verbatim>\<open>nom\<close> parser: \<open>NomError\<close> lets \<^verbatim>\<open>alt\<close> try the next alternative, \<open>NomIncomplete\<close> ends it.
\<close>

datatype nom_err = NomError | NomIncomplete nat

type_synonym 'a parsed = "(nom_err, bytes \<times> 'a) outcome"

fun alt2 :: "(bytes \<Rightarrow> 'a parsed) \<Rightarrow> (bytes \<Rightarrow> 'a parsed) \<Rightarrow> bytes \<Rightarrow> 'a parsed" where
  "alt2 p q bs = (case p bs of Err NomError \<Rightarrow> q bs | r \<Rightarrow> r)"

text \<open>What a writer received, and what the writing function returned.\<close>

type_synonym 'e written = "bytes \<times> ('e, nat) outcome"

text \<open>\<^verbatim>\<open>u32::try_from(usize)\<close>.\<close>

definition u32_of_usize :: "nat \<Rightarrow> u32 option" where
  "u32_of_usize n = (if n < 2 ^ 32 then Some (of_nat n) else None)"

lemma u32_of_usize_Some: "u32_of_usize n = Some d \<longleftrightarrow> n < 2 ^ 32 \<and> d = of_nat n"
  by (auto simp: u32_of_usize_def)

lemma unat_u32_of_nat: "n < 2 ^ 32 \<Longrightarrow> unat (of_nat n :: u32) = n"
  by (simp add: unat_of_nat take_bit_eq_mod)

end
