(* ===== verification/Peer_Standard.thy ===== *)
theory Peer_Standard
  imports Wire_Bytes Util_Sha Bencode_Convert
begin

text \<open>
  The messages every peer understands: \<^verbatim>\<open>packages/peer/src/message/standard.rs\<close>, and the message
  constants and the header writer of \<^verbatim>\<open>message/mod.rs\<close>. Writing returns the bytes that reach the
  writer, also when it fails half way; the writer itself never fails. A sum that overflows
  is a panic.
\<close>

text \<open>An \<^verbatim>\<open>io::Error\<close> is kept as its kind with the message or the error it wraps.\<close>

datatype io_error = IoOther string | IoUnsupported | IoInvalidInput
  | IoConvert bencode_convert_error | IoDecode bencode_parse_error

section \<open>Constants and headers\<close>

definition KEEP_ALIVE_MESSAGE_LEN :: u32 where "KEEP_ALIVE_MESSAGE_LEN = 0"
definition CHOKE_MESSAGE_LEN :: u32 where "CHOKE_MESSAGE_LEN = 1"
definition UNCHOKE_MESSAGE_LEN :: u32 where "UNCHOKE_MESSAGE_LEN = 1"
definition INTERESTED_MESSAGE_LEN :: u32 where "INTERESTED_MESSAGE_LEN = 1"
definition UNINTERESTED_MESSAGE_LEN :: u32 where "UNINTERESTED_MESSAGE_LEN = 1"
definition HAVE_MESSAGE_LEN :: u32 where "HAVE_MESSAGE_LEN = 5"
definition BASE_BITFIELD_MESSAGE_LEN :: u32 where "BASE_BITFIELD_MESSAGE_LEN = 1"
definition REQUEST_MESSAGE_LEN :: u32 where "REQUEST_MESSAGE_LEN = 13"
definition BASE_PIECE_MESSAGE_LEN :: u32 where "BASE_PIECE_MESSAGE_LEN = 9"
definition CANCEL_MESSAGE_LEN :: u32 where "CANCEL_MESSAGE_LEN = 13"

definition CHOKE_MESSAGE_ID :: u8 where "CHOKE_MESSAGE_ID = 0"
definition UNCHOKE_MESSAGE_ID :: u8 where "UNCHOKE_MESSAGE_ID = 1"
definition INTERESTED_MESSAGE_ID :: u8 where "INTERESTED_MESSAGE_ID = 2"
definition UNINTERESTED_MESSAGE_ID :: u8 where "UNINTERESTED_MESSAGE_ID = 3"
definition HAVE_MESSAGE_ID :: u8 where "HAVE_MESSAGE_ID = 4"
definition BITFIELD_MESSAGE_ID :: u8 where "BITFIELD_MESSAGE_ID = 5"
definition REQUEST_MESSAGE_ID :: u8 where "REQUEST_MESSAGE_ID = 6"
definition PIECE_MESSAGE_ID :: u8 where "PIECE_MESSAGE_ID = 7"
definition CANCEL_MESSAGE_ID :: u8 where "CANCEL_MESSAGE_ID = 8"

definition MESSAGE_LENGTH_LEN_BYTES :: nat where "MESSAGE_LENGTH_LEN_BYTES = 4"
definition MESSAGE_ID_LEN_BYTES :: nat where "MESSAGE_ID_LEN_BYTES = 1"
definition HEADER_LEN :: nat where "HEADER_LEN = MESSAGE_LENGTH_LEN_BYTES + MESSAGE_ID_LEN_BYTES"

lemmas message_len_defs = KEEP_ALIVE_MESSAGE_LEN_def CHOKE_MESSAGE_LEN_def UNCHOKE_MESSAGE_LEN_def
  INTERESTED_MESSAGE_LEN_def UNINTERESTED_MESSAGE_LEN_def HAVE_MESSAGE_LEN_def
  BASE_BITFIELD_MESSAGE_LEN_def REQUEST_MESSAGE_LEN_def BASE_PIECE_MESSAGE_LEN_def CANCEL_MESSAGE_LEN_def

definition write_length_id_pair :: "wire \<Rightarrow> u32 \<Rightarrow> u8 option \<Rightarrow> io_error written" where
  "write_length_id_pair w len opt_id =
    (case opt_id of Some i \<Rightarrow> (put_u32 w len @ [i], Ok 5) | None \<Rightarrow> (put_u32 w len, Ok 4))"

definition u32_to_usize :: "u32 \<Rightarrow> nat" where
  "u32_to_usize n = unat n"

definition parse_message_length :: "wire \<Rightarrow> bytes \<Rightarrow> ('e, nat) outcome" where
  "parse_message_length w bs =
    (case nom_be_u32 w bs of Some (_, len) \<Rightarrow> Ok (u32_to_usize len) | None \<Rightarrow> Panic)"

section \<open>Have\<close>

record have_message =
  have_piece_index :: u32

definition have_new :: "u32 \<Rightarrow> have_message" where
  "have_new index = \<lparr>have_piece_index = index\<rparr>"

definition std_parse_have :: "wire \<Rightarrow> bytes \<Rightarrow> (io_error, have_message) outcome parsed" where
  "std_parse_have w bs =
    and_then (ok_or NomError (nom_be_u32 w bs)) (\<lambda>(rest, index). Ok (rest, Ok (have_new index)))"

definition have_parse_bytes :: "wire \<Rightarrow> bytes \<Rightarrow> (io_error, have_message) outcome" where
  "have_parse_bytes w bs =
    (case std_parse_have w bs of
       Ok (_, msg) \<Rightarrow> msg
     | Err _ \<Rightarrow> Err (IoOther ''Failed to parse HaveMessage'')
     | Panic \<Rightarrow> Panic)"

definition have_write_bytes :: "wire \<Rightarrow> have_message \<Rightarrow> io_error written" where
  "have_write_bytes w m =
    (let (header, id_length) = write_length_id_pair w HAVE_MESSAGE_LEN (Some HAVE_MESSAGE_ID)
     in (header @ put_u32 w (have_piece_index m), and_then id_length (\<lambda>n. Ok (n + 4))))"

section \<open>Bit field\<close>

record bitfield_message =
  bitfield :: bytes

definition bitfield_new :: "bytes \<Rightarrow> bitfield_message" where
  "bitfield_new bs = \<lparr>bitfield = bs\<rparr>"

definition std_parse_bitfield :: "bytes \<Rightarrow> nat \<Rightarrow> (io_error, bitfield_message) outcome parsed" where
  "std_parse_bitfield bs len =
    (if len \<le> length bs then Ok (drop len bs, Ok (bitfield_new (take len bs)))
     else Err (NomIncomplete (len - length bs)))"

definition bitfield_parse_bytes :: "bytes \<Rightarrow> (io_error, bitfield_message) outcome" where
  "bitfield_parse_bytes bs =
    (case std_parse_bitfield bs (length bs) of
       Ok (_, msg) \<Rightarrow> msg
     | Err _ \<Rightarrow> Err (IoOther ''Failed to parse BitFieldMessage'')
     | Panic \<Rightarrow> Panic)"

definition bitfield_write_bytes :: "wire \<Rightarrow> bitfield_message \<Rightarrow> io_error written" where
  "bitfield_write_bytes w m =
    (case u32_of_usize (length (bitfield m)) of
       None \<Rightarrow> ([], Err IoUnsupported)
     | Some message_length \<Rightarrow>
         if unat message_length + 1 < 2 ^ 32 then
           let (header, id_length) = write_length_id_pair w (message_length + 1) (Some BITFIELD_MESSAGE_ID)
           in (header @ bitfield m, and_then id_length (\<lambda>n. Ok (n + unat message_length)))
         else ([], Panic))"

record bitfield_iter =
  bit_bytes :: bytes
  cur_bit :: nat

definition bitfield_iter_of :: "bitfield_message \<Rightarrow> bitfield_iter" where
  "bitfield_iter_of m = \<lparr>bit_bytes = bitfield m, cur_bit = 0\<rparr>"

function bitfield_next :: "bitfield_iter \<Rightarrow> ('e, have_message option) outcome \<times> bitfield_iter" where
  "bitfield_next it =
    (let byte_in_bytes = cur_bit it div 8; bit_in_byte = cur_bit it mod 8 in
     case get_at (bit_bytes it) byte_in_bytes of
       None \<Rightarrow> (Ok None, it)
     | Some byte \<Rightarrow>
         (case u32_of_usize (cur_bit it) of
            None \<Rightarrow> (Panic, it)
          | Some index \<Rightarrow>
              let it' = it\<lparr>cur_bit := cur_bit it + 1\<rparr> in
              if drop_bit 7 (push_bit bit_in_byte byte) = 1 then (Ok (Some (have_new index)), it')
              else bitfield_next it'))"
  by pat_completeness auto
termination
  by (relation "measure (\<lambda>it. 8 * length (bit_bytes it) - cur_bit it)")
    (auto simp: u32_of_usize_def split: if_splits)

declare bitfield_next.simps [simp del]

lemma bitfield_next_progress:
  assumes "bitfield_next it = (Ok (Some m), it')"
  shows "bit_bytes it' = bit_bytes it \<and> cur_bit it < cur_bit it' \<and> cur_bit it < 8 * length (bit_bytes it)"
  using assms
proof (induction it rule: bitfield_next.induct)
  case (1 it)
  show ?case
  proof (cases "cur_bit it div 8 < length (bit_bytes it) \<and> cur_bit it < 2 ^ 32")
    case True
    then have next_it: "bitfield_next it =
        (let it1 = it\<lparr>cur_bit := cur_bit it + 1\<rparr> in
         if drop_bit 7 (push_bit (cur_bit it mod 8) (bit_bytes it ! (cur_bit it div 8))) = 1
         then (Ok (Some (have_new (of_nat (cur_bit it)))), it1) else bitfield_next it1)"
      by (subst bitfield_next.simps) (simp add: get_at_def u32_of_usize_def Let_def)
    have "cur_bit it < 8 * length (bit_bytes it)" using True by linarith
    with 1(2) 1(1) [OF refl refl, of "bit_bytes it ! (cur_bit it div 8)" "of_nat (cur_bit it)"
        "it\<lparr>cur_bit := cur_bit it + 1\<rparr>"] True
    show ?thesis unfolding next_it by (auto simp: Let_def u32_of_usize_def split: if_splits)
  next
    case False
    with 1(2) show ?thesis
      by (subst (asm) bitfield_next.simps) (auto simp: get_at_def u32_of_usize_def Let_def split: if_splits)
  qed
qed

text \<open>Collecting the iterator.\<close>

function bitfield_collect :: "bitfield_iter \<Rightarrow> ('e, have_message list) outcome" where
  "bitfield_collect it =
    (case bitfield_next it of
       (Ok None, _) \<Rightarrow> Ok []
     | (Ok (Some m), it') \<Rightarrow> and_then (bitfield_collect it') (\<lambda>ms. Ok (m # ms))
     | (Err e, _) \<Rightarrow> Err e
     | (Panic, _) \<Rightarrow> Panic)"
  by pat_completeness auto
termination
  by (relation "measure (\<lambda>it. 8 * length (bit_bytes it) - cur_bit it)")
    (auto dest!: sym [of "(_, _)"] bitfield_next_progress)

declare bitfield_collect.simps [simp del]

section \<open>Request\<close>

record request_message =
  req_piece_index :: u32
  req_block_offset :: u32
  req_block_length :: nat

definition request_new :: "u32 \<Rightarrow> u32 \<Rightarrow> nat \<Rightarrow> request_message" where
  "request_new index offset len =
    \<lparr>req_piece_index = index, req_block_offset = offset, req_block_length = len\<rparr>"

definition std_parse_request :: "wire \<Rightarrow> bytes \<Rightarrow> (io_error, request_message) outcome parsed" where
  "std_parse_request w bs =
    and_then (ok_or NomError (nom_be_u32 w bs)) (\<lambda>(bs, index).
    and_then (ok_or NomError (nom_be_u32 w bs)) (\<lambda>(bs, offset).
    and_then (ok_or NomError (nom_be_u32 w bs)) (\<lambda>(bs, len).
      Ok (bs, Ok (request_new index offset (u32_to_usize len))))))"

definition request_parse_bytes :: "wire \<Rightarrow> bytes \<Rightarrow> (io_error, request_message) outcome" where
  "request_parse_bytes w bs =
    (case std_parse_request w bs of
       Ok (_, msg) \<Rightarrow> msg
     | Err _ \<Rightarrow> Err (IoOther ''Failed to parse RequestMessage'')
     | Panic \<Rightarrow> Panic)"

definition request_write_bytes :: "wire \<Rightarrow> request_message \<Rightarrow> io_error written" where
  "request_write_bytes w m =
    (let (header, id_length) = write_length_id_pair w REQUEST_MESSAGE_LEN (Some REQUEST_MESSAGE_ID);
         out = header @ put_u32 w (req_piece_index m) @ put_u32 w (req_block_offset m)
     in case u32_of_usize (req_block_length m) of
          None \<Rightarrow> (out, Err IoUnsupported)
        | Some block_length \<Rightarrow> (out @ put_u32 w block_length, and_then id_length (\<lambda>n. Ok (n + 12))))"

section \<open>Piece\<close>

record piece_message =
  piece_piece_index :: u32
  piece_block_offset :: u32
  piece_block :: bytes

definition piece_new :: "u32 \<Rightarrow> u32 \<Rightarrow> bytes \<Rightarrow> piece_message" where
  "piece_new index offset block =
    \<lparr>piece_piece_index = index, piece_block_offset = offset, piece_block = block\<rparr>"

definition piece_block_length :: "piece_message \<Rightarrow> nat" where
  "piece_block_length m = length (piece_block m)"

definition std_parse_piece :: "wire \<Rightarrow> bytes \<Rightarrow> nat \<Rightarrow> (io_error, piece_message) outcome parsed" where
  "std_parse_piece w bs len =
    (if len < 8 then Panic
     else
       and_then (ok_or NomError (nom_be_u32 w bs)) (\<lambda>(bs, index).
       and_then (ok_or NomError (nom_be_u32 w bs)) (\<lambda>(bs, offset).
       and_then (ok_or NomError (nom_take w (len - 8) bs)) (\<lambda>(bs, block).
         Ok (bs, Ok (piece_new index offset block))))))"

definition piece_parse_bytes :: "wire \<Rightarrow> bytes \<Rightarrow> nat \<Rightarrow> (io_error, piece_message) outcome" where
  "piece_parse_bytes w bs len =
    (case std_parse_piece w bs len of
       Ok (_, msg) \<Rightarrow> msg
     | Err _ \<Rightarrow> Err (IoOther ''Failed to parse PieceMessage'')
     | Panic \<Rightarrow> Panic)"

definition piece_write_bytes :: "wire \<Rightarrow> piece_message \<Rightarrow> io_error written" where
  "piece_write_bytes w m =
    (case u32_of_usize (piece_block_length m) of
       None \<Rightarrow> ([], Err IoUnsupported)
     | Some block_length \<Rightarrow>
         (case u32_of_usize (piece_block_length m + 9) of
            None \<Rightarrow> ([], Panic)
          | Some actual_length \<Rightarrow>
              let (header, length_length) = write_length_id_pair w actual_length (Some PIECE_MESSAGE_ID)
              in (header @ put_u32 w (piece_piece_index m) @ put_u32 w (piece_block_offset m) @ piece_block m,
                  and_then length_length (\<lambda>n. Ok (n + unat block_length + 8)))))"

section \<open>Cancel\<close>

record cancel_message =
  cancel_piece_index :: u32
  cancel_block_offset :: u32
  cancel_block_length :: nat

definition cancel_new :: "u32 \<Rightarrow> u32 \<Rightarrow> nat \<Rightarrow> cancel_message" where
  "cancel_new index offset len =
    \<lparr>cancel_piece_index = index, cancel_block_offset = offset, cancel_block_length = len\<rparr>"

definition std_parse_cancel :: "wire \<Rightarrow> bytes \<Rightarrow> (io_error, cancel_message) outcome parsed" where
  "std_parse_cancel w bs =
    and_then (ok_or NomError (nom_be_u32 w bs)) (\<lambda>(bs, index).
    and_then (ok_or NomError (nom_be_u32 w bs)) (\<lambda>(bs, offset).
    and_then (ok_or NomError (nom_be_u32 w bs)) (\<lambda>(bs, len).
      Ok (bs, Ok (cancel_new index offset (u32_to_usize len))))))"

definition cancel_parse_bytes :: "wire \<Rightarrow> bytes \<Rightarrow> (io_error, cancel_message) outcome" where
  "cancel_parse_bytes w bs =
    (case std_parse_cancel w bs of
       Ok (_, msg) \<Rightarrow> msg
     | Err _ \<Rightarrow> Err (IoOther ''Failed to parse CancelMessage'')
     | Panic \<Rightarrow> Panic)"

definition cancel_write_bytes :: "wire \<Rightarrow> cancel_message \<Rightarrow> io_error written" where
  "cancel_write_bytes w m =
    (let (header, id_length) = write_length_id_pair w CANCEL_MESSAGE_LEN (Some CANCEL_MESSAGE_ID);
         out = header @ put_u32 w (cancel_piece_index m) @ put_u32 w (cancel_block_offset m)
     in case u32_of_usize (cancel_block_length m) of
          None \<Rightarrow> (out, Err IoUnsupported)
        | Some block_length \<Rightarrow> (out @ put_u32 w block_length, and_then id_length (\<lambda>n. Ok (n + 12))))"

section \<open>Bodies survive the wire\<close>

lemma have_roundtrip:
  assumes "wire_spec w"
  shows "have_write_bytes w m = (to_be_bytes 4 (5 :: u32) @ [4] @ to_be_bytes 4 (have_piece_index m), Ok 9)"
    and "have_parse_bytes w (to_be_bytes 4 (have_piece_index m)) = Ok m"
  by (simp_all add: have_write_bytes_def write_length_id_pair_def have_parse_bytes_def std_parse_have_def
      have_new_def wireD [OF assms] HAVE_MESSAGE_LEN_def HAVE_MESSAGE_ID_def)

lemma request_roundtrip:
  assumes "wire_spec w" and "req_block_length m < 2 ^ 32"
  obtains body where "request_write_bytes w m = (to_be_bytes 4 (13 :: u32) @ [6] @ body, Ok 17)"
    and "length body = 12" and "request_parse_bytes w body = Ok m"
proof
  let ?body = "to_be_bytes 4 (req_piece_index m) @ to_be_bytes 4 (req_block_offset m) @
      to_be_bytes 4 (of_nat (req_block_length m) :: u32)"
  show "request_write_bytes w m = (to_be_bytes 4 (13 :: u32) @ [6] @ ?body, Ok 17)"
    using assms(2) by (simp add: request_write_bytes_def write_length_id_pair_def wireD [OF assms(1)]
        REQUEST_MESSAGE_LEN_def REQUEST_MESSAGE_ID_def u32_of_usize_def)
  show "request_parse_bytes w ?body = Ok m"
    using assms(2) by (simp add: request_parse_bytes_def std_parse_request_def request_new_def
        u32_to_usize_def wireD [OF assms(1)] unat_u32_of_nat)
qed simp

lemma cancel_roundtrip:
  assumes "wire_spec w" and "cancel_block_length m < 2 ^ 32"
  obtains body where "cancel_write_bytes w m = (to_be_bytes 4 (13 :: u32) @ [8] @ body, Ok 17)"
    and "length body = 12" and "cancel_parse_bytes w body = Ok m"
proof
  let ?body = "to_be_bytes 4 (cancel_piece_index m) @ to_be_bytes 4 (cancel_block_offset m) @
      to_be_bytes 4 (of_nat (cancel_block_length m) :: u32)"
  show "cancel_write_bytes w m = (to_be_bytes 4 (13 :: u32) @ [8] @ ?body, Ok 17)"
    using assms(2) by (simp add: cancel_write_bytes_def write_length_id_pair_def wireD [OF assms(1)]
        CANCEL_MESSAGE_LEN_def CANCEL_MESSAGE_ID_def u32_of_usize_def)
  show "cancel_parse_bytes w ?body = Ok m"
    using assms(2) by (simp add: cancel_parse_bytes_def std_parse_cancel_def cancel_new_def
        u32_to_usize_def wireD [OF assms(1)] unat_u32_of_nat)
qed simp

lemma bitfield_roundtrip:
  assumes "wire_spec w" and "length (bitfield m) + 1 < 2 ^ 32"
  shows "bitfield_write_bytes w m =
      (to_be_bytes 4 (of_nat (length (bitfield m) + 1) :: u32) @ [5] @ bitfield m, Ok (5 + length (bitfield m)))"
    and "bitfield_parse_bytes (bitfield m) = Ok m"
  using assms(2)
  by (simp_all add: bitfield_write_bytes_def write_length_id_pair_def wireD [OF assms(1)] u32_of_usize_def
      unat_u32_of_nat BITFIELD_MESSAGE_ID_def bitfield_parse_bytes_def std_parse_bitfield_def bitfield_new_def
      add.commute)

lemma piece_roundtrip:
  assumes "wire_spec w" and "length (piece_block m) + 9 < 2 ^ 32"
  obtains body where "piece_write_bytes w m =
      (to_be_bytes 4 (of_nat (length (piece_block m) + 9) :: u32) @ [7] @ body, Ok (13 + length (piece_block m)))"
    and "length body = length (piece_block m) + 8" and "piece_parse_bytes w body (length body) = Ok m"
proof
  let ?body = "to_be_bytes 4 (piece_piece_index m) @ to_be_bytes 4 (piece_block_offset m) @ piece_block m"
  show "piece_write_bytes w m = (to_be_bytes 4 (of_nat (length (piece_block m) + 9) :: u32) @ [7] @ ?body,
      Ok (13 + length (piece_block m)))"
    using assms(2) by (simp add: piece_write_bytes_def write_length_id_pair_def wireD [OF assms(1)]
        PIECE_MESSAGE_ID_def u32_of_usize_def piece_block_length_def unat_u32_of_nat)
  show "piece_parse_bytes w ?body (length ?body) = Ok m"
    by (simp add: piece_parse_bytes_def std_parse_piece_def piece_new_def wireD [OF assms(1)])
qed simp

section \<open>The bit field as have messages\<close>

lemma shifted_bit: "k < 8 \<Longrightarrow> drop_bit 7 (push_bit k (b :: u8)) = 1 \<longleftrightarrow> bit b (7 - k)"
  unfolding drop_bit_eq_1_iff
  by (auto simp: bit_push_bit_iff dest: bit_imp_le_length)

lemma bitfield_next_spec:
  assumes "8 * length (bit_bytes it) \<le> 2 ^ 32" and "cur_bit it < 8 * length (bit_bytes it)"
  shows "bitfield_next it =
    (if bit_at (bit_bytes it) (cur_bit it)
     then (Ok (Some (have_new (of_nat (cur_bit it)))), it\<lparr>cur_bit := cur_bit it + 1\<rparr>)
     else bitfield_next (it\<lparr>cur_bit := cur_bit it + 1\<rparr>))"
proof -
  have "cur_bit it div 8 < length (bit_bytes it)" "cur_bit it < 2 ^ 32" using assms by auto
  then show ?thesis
    by (subst bitfield_next.simps) (simp add: get_at_def u32_of_usize_def Let_def bit_at_def shifted_bit)
qed

lemma bitfield_next_end:
  assumes "8 * length (bit_bytes it) \<le> cur_bit it"
  shows "bitfield_next it = (Ok None, it)"
proof -
  have "\<not> cur_bit it div 8 < length (bit_bytes it)" using assms by linarith
  then show ?thesis by (subst bitfield_next.simps) (simp add: get_at_def Let_def)
qed

lemma bitfield_collect_from:
  assumes "8 * length (bit_bytes it) \<le> 2 ^ 32"
  shows "(bitfield_collect it :: ('e, have_message list) outcome) =
    Ok (map (\<lambda>i. have_new (of_nat i)) (filter (bit_at (bit_bytes it)) [cur_bit it..<8 * length (bit_bytes it)]))"
  using assms
proof (induction "8 * length (bit_bytes it) - cur_bit it" arbitrary: it)
  case 0
  then show ?case by (subst bitfield_collect.simps) (simp add: bitfield_next_end)
next
  case (Suc n)
  let ?it = "it\<lparr>cur_bit := cur_bit it + 1\<rparr>"
  have lt: "cur_bit it < 8 * length (bit_bytes it)" using Suc.hyps(2) by simp
  then have upt: "[cur_bit it..<8 * length (bit_bytes it)] = cur_bit it # [cur_bit ?it..<8 * length (bit_bytes ?it)]"
    by (simp add: upt_rec)
  have IH: "(bitfield_collect ?it :: ('e, have_message list) outcome) = Ok (map (\<lambda>i. have_new (of_nat i))
      (filter (bit_at (bit_bytes ?it)) [cur_bit ?it..<8 * length (bit_bytes ?it)]))"
    using Suc.hyps Suc.prems by (intro Suc.hyps(1)) simp_all
  show ?case
  proof (cases "bit_at (bit_bytes it) (cur_bit it)")
    case True
    then have "(bitfield_collect it :: ('e, have_message list) outcome) =
        and_then (bitfield_collect ?it) (\<lambda>ms. Ok (have_new (of_nat (cur_bit it)) # ms))"
      by (subst bitfield_collect.simps) (simp add: bitfield_next_spec [OF Suc.prems lt])
    then show ?thesis unfolding IH upt using True by simp
  next
    case False
    then have "(bitfield_collect it :: ('e, have_message list) outcome) = bitfield_collect ?it"
      by (subst (1 2) bitfield_collect.simps) (simp add: bitfield_next_spec [OF Suc.prems lt])
    then show ?thesis unfolding IH upt using False by simp
  qed
qed

end
