(* ===== verification/Bencode_Dict.thy ===== *)
theory Bencode_Dict
  imports Bencode_Convert Bencode_Correct
begin

text \<open>
  What the message theories need of bencode: a dictionary built with \<^verbatim>\<open>ben_map!\<close> and encoded is
  decoded to the same dictionary, and the typed lookups of \<^verbatim>\<open>BConvert\<close> on it are lookups in the
  list of pairs it was built from.
\<close>

section \<open>Decoding what was built\<close>

lemma decode_built:
  assumes "wf_mut b" and "nesting b \<le> max_recursion opts" and "\<not> enforce_full_decode opts \<or> post = []"
  shows "bencode_ref_decode (bencode_mut_encode b @ post) opts = Ok (annotate b)"
proof -
  have "decodes_at_depth opts 0 b" using assms by (intro decode_enc) simp_all
  then have "decode ([] @ enc b @ post) (length ([] :: bytes)) opts 0 =
      Ok (annotate b, length ([] :: bytes) + length (enc b))"
    unfolding decodes_at_depth_def by blast
  then show ?thesis using assms(3) by (auto simp: bencode_ref_decode_def bencode_mut_encode_def)
qed

lemma decode_built_full:
  "wf_mut b \<Longrightarrow> nesting b \<le> max_recursion opts \<Longrightarrow>
    bencode_ref_decode (bencode_mut_encode b) opts = Ok (annotate b)"
  using decode_built [of b opts "[]"] by simp

section \<open>Dictionaries\<close>

definition annotate_dict :: "(bytes \<times> bencode_mut) list \<Rightarrow> (bytes \<times> bencode_ref) list" where
  "annotate_dict m = map (\<lambda>e. (fst e, annotate (snd e))) m"

lemma ref_dict_annotate [simp]: "ref_dict (annotate (MutDict m)) = Some (annotate_dict m)"
  by (simp add: annotate_dict_def)

lemma get_annotate_dict [simp]: "btm_get (annotate_dict m) k = map_option annotate (btm_get m k)"
  by (induction m) (auto simp: btm_get_def annotate_dict_def)

lemma annotate_views [simp]:
  "ref_int (annotate b) = (case b of MutInt n \<Rightarrow> Some n | _ \<Rightarrow> None)"
  "ref_bytes (annotate b) = (case b of MutBytes s \<Rightarrow> Some s | _ \<Rightarrow> None)"
  "ref_list (annotate b) = (case b of MutList xs \<Rightarrow> Some (map annotate xs) | _ \<Rightarrow> None)"
  "ref_dict (annotate b) = (case b of MutDict m \<Rightarrow> Some (annotate_dict m) | _ \<Rightarrow> None)"
  by (cases b; simp add: annotate_dict_def)+

definition ben_entries :: "(bytes \<times> bencode_mut) list \<Rightarrow> (bytes, bencode_mut) btree_map" where
  "ben_entries kvs = fold (\<lambda>(k, v) m. fst (btm_insert_entry k v m)) kvs []"

lemma ben_map_entries: "ben_map kvs = MutDict (ben_entries kvs)"
  by (simp add: ben_map_def ben_entries_def)

lemma btm_get_fold_insert:
  "btm_get (fold (\<lambda>(k, v) m. fst (btm_insert_entry k v m)) kvs m) k =
    (case map_of (rev kvs) k of Some v \<Rightarrow> Some v | None \<Rightarrow> btm_get m k)"
  by (induction kvs arbitrary: m)
    (auto simp: btm_insert_entry_def btm_get_insert map_add_def split: option.splits)

lemma get_ben_entries: "btm_get (ben_entries kvs) k = map_of (rev kvs) k"
  unfolding ben_entries_def btm_get_fold_insert by (simp add: btm_get_def split: option.splits)

lemma btm_wf_fold_insert:
  "btm_wf m \<Longrightarrow> btm_wf (fold (\<lambda>(k, v) m. fst (btm_insert_entry k v m)) kvs m)"
  by (induction kvs arbitrary: m) (auto simp: btm_insert_entry_def btm_wf_insert)

lemma btm_wf_ben_entries [simp]: "btm_wf (ben_entries kvs)"
  by (simp add: ben_entries_def btm_wf_fold_insert)

lemma set_ben_entries: "set (ben_entries kvs) \<subseteq> set kvs"
proof -
  have "set (fold (\<lambda>(k, v) m. fst (btm_insert_entry k v m)) kvs m) \<subseteq> set kvs \<union> set m" for m
  proof (induction kvs arbitrary: m)
    case (Cons e kvs)
    show ?case using Cons [of "btm_insert (fst e) (snd e) m"] set_btm_insert_subset [of "fst e" "snd e" m]
      by (auto simp: btm_insert_entry_def case_prod_unfold)
  qed simp
  from this [of "[]"] show ?thesis by (simp add: ben_entries_def)
qed

lemma wf_ben_map:
  assumes "\<And>k v. (k, v) \<in> set kvs \<Longrightarrow> int (length k) \<le> i64_max \<and> wf_mut v"
  shows "wf_mut (ben_map kvs)"
  using assms set_ben_entries [of kvs] by (auto simp: ben_map_entries)

lemma nesting_dict_le:
  "(\<And>e. e \<in> set m \<Longrightarrow> nesting (snd e) \<le> d) \<Longrightarrow> nesting (MutDict m) \<le> Suc d"
  by (induction m) auto

lemma nesting_ben_map:
  assumes "\<And>k v. (k, v) \<in> set kvs \<Longrightarrow> nesting v \<le> d"
  shows "nesting (ben_map kvs) \<le> Suc d"
  unfolding ben_map_entries using assms set_ben_entries [of kvs] by (intro nesting_dict_le) auto

section \<open>Typed lookups on a built dictionary\<close>

lemma lookup_built:
  "lookup_and_convert_int he (annotate_dict m) k =
    (case btm_get m k of Some (MutInt n) \<Rightarrow> Ok n | Some _ \<Rightarrow> Err (he (WrongType k ''Integer''))
     | None \<Rightarrow> Err (he (MissingKey k)))"
  "lookup_and_convert_bytes he (annotate_dict m) k =
    (case btm_get m k of Some (MutBytes s) \<Rightarrow> Ok s | Some _ \<Rightarrow> Err (he (WrongType k ''Bytes''))
     | None \<Rightarrow> Err (he (MissingKey k)))"
  "lookup_and_convert_str he (annotate_dict m) k =
    (case btm_get m k of
       Some (MutBytes s) \<Rightarrow> if from_utf8 s then Ok s else Err (he (WrongType k ''UTF-8 Bytes''))
     | Some _ \<Rightarrow> Err (he (WrongType k ''UTF-8 Bytes'')) | None \<Rightarrow> Err (he (MissingKey k)))"
  "lookup_and_convert_list he (annotate_dict m) k =
    (case btm_get m k of Some (MutList xs) \<Rightarrow> Ok (map annotate xs) | Some _ \<Rightarrow> Err (he (WrongType k ''List''))
     | None \<Rightarrow> Err (he (MissingKey k)))"
  "lookup_and_convert_dict he (annotate_dict m) k =
    (case btm_get m k of Some (MutDict d) \<Rightarrow> Ok (annotate_dict d) | Some _ \<Rightarrow> Err (he (WrongType k ''Dictionary''))
     | None \<Rightarrow> Err (he (MissingKey k)))"
  by (auto simp: convert_basics ref_str_def split: option.splits bencode_mut.splits)

lemma convert_built:
  "convert_dict he (annotate (MutDict m)) k = Ok (annotate_dict m)"
  "convert_dict he (annotate (ben_map kvs)) k = Ok (annotate_dict (ben_entries kvs))"
  by (simp_all add: convert_basics ben_map_entries annotate_dict_def)

end
