(* ===== verification/Peer_Extended.thy ===== *)
theory Peer_Extended
  imports Peer_Standard Bencode_Dict Util_Convert "HOL-Library.AList"
begin

text \<open>
  The messages that the extension bits of the handshake switch on: \<^verbatim>\<open>packages/peer/src/message/bits_ext\<close>
  (the DHT port and the extended handshake) and the field parsers of \<^verbatim>\<open>message/bencode_util.rs\<close>. A
  \<^verbatim>\<open>HashMap\<close> is an association list with distinct keys; the order of the list stands for the
  unspecified order of iteration. A \<^verbatim>\<open>String\<close> is its UTF-8 bytes.
\<close>

section \<open>Fields\<close>

definition ID_MAP_KEY :: bytes where "ID_MAP_KEY = ascii ''m''"
definition CLIENT_ID_KEY :: bytes where "CLIENT_ID_KEY = ascii ''v''"
definition CLIENT_TCP_PORT_KEY :: bytes where "CLIENT_TCP_PORT_KEY = ascii ''p''"
definition OUR_IP_KEY :: bytes where "OUR_IP_KEY = ascii ''yourip''"
definition CLIENT_IPV6_ADDR_KEY :: bytes where "CLIENT_IPV6_ADDR_KEY = ascii ''ipv6''"
definition CLIENT_IPV4_ADDR_KEY :: bytes where "CLIENT_IPV4_ADDR_KEY = ascii ''ipv4''"
definition CLIENT_MAX_REQUESTS_KEY :: bytes where "CLIENT_MAX_REQUESTS_KEY = ascii ''reqq''"
definition METADATA_SIZE_KEY :: bytes where "METADATA_SIZE_KEY = ascii ''metadata_size''"
definition MESSAGE_TYPE_KEY :: bytes where "MESSAGE_TYPE_KEY = ascii ''msg_type''"
definition PIECE_INDEX_KEY :: bytes where "PIECE_INDEX_KEY = ascii ''piece''"
definition TOTAL_SIZE_KEY :: bytes where "TOTAL_SIZE_KEY = ascii ''total_size''"
definition UT_METADATA_ID :: bytes where "UT_METADATA_ID = ascii ''ut_metadata''"
definition UT_PEX_ID :: bytes where "UT_PEX_ID = ascii ''ut_pex''"

lemmas field_keys = ID_MAP_KEY_def CLIENT_ID_KEY_def CLIENT_TCP_PORT_KEY_def OUR_IP_KEY_def
  CLIENT_IPV6_ADDR_KEY_def CLIENT_IPV4_ADDR_KEY_def CLIENT_MAX_REQUESTS_KEY_def METADATA_SIZE_KEY_def
  MESSAGE_TYPE_KEY_def PIECE_INDEX_KEY_def TOTAL_SIZE_KEY_def UT_METADATA_ID_def UT_PEX_ID_def

datatype extended_type = UtMetadata | UtPex | CustomType bytes

definition from_id :: "bytes \<Rightarrow> extended_type" where
  "from_id i = (if i = UT_METADATA_ID then UtMetadata else if i = UT_PEX_ID then UtPex else CustomType i)"

fun ext_id :: "extended_type \<Rightarrow> bytes" where
  "ext_id UtMetadata = UT_METADATA_ID"
| "ext_id UtPex = UT_PEX_ID"
| "ext_id (CustomType i) = i"

text \<open>\<^verbatim>\<open>u8::try_from(i64)\<close> and \<^verbatim>\<open>u16::try_from(i64)\<close>.\<close>

definition i64_to_u8 :: "i64 \<Rightarrow> u8 option" where
  "i64_to_u8 n = (if 0 \<le> sint n \<and> sint n < 2 ^ 8 then Some (ucast n) else None)"

definition i64_to_u16 :: "i64 \<Rightarrow> u16 option" where
  "i64_to_u16 n = (if 0 \<le> sint n \<and> sint n < 2 ^ 16 then Some (ucast n) else None)"

fun ok_of :: "('e, 'a) outcome \<Rightarrow> 'a option" where
  "ok_of (Ok x) = Some x"
| "ok_of _ = None"

fun map_err :: "('e \<Rightarrow> 'f) \<Rightarrow> ('e, 'a) outcome \<Rightarrow> ('f, 'a) outcome" where
  "map_err f (Ok x) = Ok x"
| "map_err f (Err e) = Err (f e)"
| "map_err f Panic = Panic"

type_synonym ref_dict_map = "(bytes, bencode_ref) btree_map"

definition id_map_step ::
    "bytes \<times> bencode_ref \<Rightarrow> ('e, (extended_type \<times> u8) list) outcome \<Rightarrow> ('e, (extended_type \<times> u8) list) outcome" where
  "id_map_step entry res = and_then res (\<lambda>id_map.
    case entry of (i, ben_value) \<Rightarrow>
      if from_utf8 i then
        (case convert_int IoConvert ben_value i of
           Ok value \<Rightarrow>
             (case i64_to_u8 value of
                Some v \<Rightarrow> Ok (AList.update (from_id i) v id_map)
              | None \<Rightarrow> Panic)
         | _ \<Rightarrow> Ok id_map)
      else Ok id_map)"

definition parse_id_map :: "ref_dict_map \<Rightarrow> ('e, (extended_type \<times> u8) list) outcome" where
  "parse_id_map root =
    (case lookup_and_convert_dict IoConvert root ID_MAP_KEY of
       Ok ben_id_map \<Rightarrow> fold id_map_step ben_id_map (Ok [])
     | _ \<Rightarrow> Ok [])"

definition parse_client_id :: "ref_dict_map \<Rightarrow> bytes option" where
  "parse_client_id root = ok_of (lookup_and_convert_str IoConvert root CLIENT_ID_KEY)"

definition parse_client_tcp_port :: "ref_dict_map \<Rightarrow> u16 option" where
  "parse_client_tcp_port root =
    Option.bind (ok_of (lookup_and_convert_int IoConvert root CLIENT_TCP_PORT_KEY)) i64_to_u16"

definition parse_our_ip :: "ref_dict_map \<Rightarrow> ip_addr option" where
  "parse_our_ip root =
    Option.bind (ok_of (lookup_and_convert_bytes IoConvert root OUR_IP_KEY)) (\<lambda>ip_bytes.
      if length ip_bytes = 4 then Some (IpV4 (bytes_be_to_ipv4 ip_bytes))
      else if length ip_bytes = 16 then Some (IpV6 (bytes_be_to_ipv6 ip_bytes))
      else None)"

definition parse_client_ipv6_addr :: "ref_dict_map \<Rightarrow> ipv6_addr option" where
  "parse_client_ipv6_addr root =
    Option.bind (ok_of (lookup_and_convert_bytes IoConvert root CLIENT_IPV6_ADDR_KEY)) (\<lambda>ipv6_bytes.
      if length ipv6_bytes = 16 then Some (bytes_be_to_ipv6 ipv6_bytes) else None)"

definition parse_client_ipv4_addr :: "ref_dict_map \<Rightarrow> ipv4_addr option" where
  "parse_client_ipv4_addr root =
    Option.bind (ok_of (lookup_and_convert_bytes IoConvert root CLIENT_IPV4_ADDR_KEY)) (\<lambda>ipv4_bytes.
      if length ipv4_bytes = 4 then Some (bytes_be_to_ipv4 ipv4_bytes) else None)"

definition parse_client_max_requests :: "ref_dict_map \<Rightarrow> i64 option" where
  "parse_client_max_requests root = ok_of (lookup_and_convert_int IoConvert root CLIENT_MAX_REQUESTS_KEY)"

definition parse_metadata_size :: "ref_dict_map \<Rightarrow> i64 option" where
  "parse_metadata_size root = ok_of (lookup_and_convert_int IoConvert root METADATA_SIZE_KEY)"

definition parse_message_type :: "ref_dict_map \<Rightarrow> (io_error, u8) outcome" where
  "parse_message_type root =
    and_then (lookup_and_convert_int IoConvert root MESSAGE_TYPE_KEY) (\<lambda>msg_type.
      case i64_to_u8 msg_type of Some t \<Rightarrow> Ok t | None \<Rightarrow> Panic)"

definition parse_piece_index :: "ref_dict_map \<Rightarrow> (io_error, i64) outcome" where
  "parse_piece_index root = lookup_and_convert_int IoConvert root PIECE_INDEX_KEY"

definition parse_total_size :: "ref_dict_map \<Rightarrow> (io_error, i64) outcome" where
  "parse_total_size root = lookup_and_convert_int IoConvert root TOTAL_SIZE_KEY"

section \<open>Building an extended message\<close>

record extended_builder =
  b_id_map :: "(extended_type \<times> u8) list"
  b_our_id :: "bytes option"
  b_our_tcp_port :: "u16 option"
  b_their_ip :: "ip_addr option"
  b_our_ipv6_addr :: "ipv6_addr option"
  b_our_ipv4_addr :: "ipv4_addr option"
  b_our_max_requests :: "i64 option"
  b_metadata_size :: "i64 option"
  b_custom_entries :: "(bytes \<times> bencode_mut) list"

definition builder_empty :: extended_builder where
  "builder_empty = \<lparr>b_id_map = [], b_our_id = None, b_our_tcp_port = None, b_their_ip = None,
    b_our_ipv6_addr = None, b_our_ipv4_addr = None, b_our_max_requests = None, b_metadata_size = None,
    b_custom_entries = []\<rparr>"

definition with_our_id :: "bytes option \<Rightarrow> extended_builder \<Rightarrow> extended_builder" where
  "with_our_id i b = b\<lparr>b_our_id := i\<rparr>"

definition with_extended_type :: "extended_type \<Rightarrow> u8 option \<Rightarrow> extended_builder \<Rightarrow> extended_builder" where
  "with_extended_type ext_type opt_value b =
    (case opt_value of
       Some value \<Rightarrow> b\<lparr>b_id_map := AList.update ext_type value (b_id_map b)\<rparr>
     | None \<Rightarrow> b\<lparr>b_id_map := AList.delete ext_type (b_id_map b)\<rparr>)"

definition with_our_tcp_port :: "u16 option \<Rightarrow> extended_builder \<Rightarrow> extended_builder" where
  "with_our_tcp_port tcp b = b\<lparr>b_our_tcp_port := tcp\<rparr>"

definition with_their_ip :: "ip_addr option \<Rightarrow> extended_builder \<Rightarrow> extended_builder" where
  "with_their_ip ip b = b\<lparr>b_their_ip := ip\<rparr>"

definition with_our_ipv6_addr :: "ipv6_addr option \<Rightarrow> extended_builder \<Rightarrow> extended_builder" where
  "with_our_ipv6_addr ipv6 b = b\<lparr>b_our_ipv6_addr := ipv6\<rparr>"

definition with_our_ipv4_addr :: "ipv4_addr option \<Rightarrow> extended_builder \<Rightarrow> extended_builder" where
  "with_our_ipv4_addr ipv4 b = b\<lparr>b_our_ipv4_addr := ipv4\<rparr>"

definition with_max_requests :: "i64 option \<Rightarrow> extended_builder \<Rightarrow> extended_builder" where
  "with_max_requests max_requests b = b\<lparr>b_our_max_requests := max_requests\<rparr>"

definition with_metadata_size :: "i64 option \<Rightarrow> extended_builder \<Rightarrow> extended_builder" where
  "with_metadata_size opt_size b = b\<lparr>b_metadata_size := opt_size\<rparr>"

definition with_custom_entry :: "bytes \<Rightarrow> bencode_mut option \<Rightarrow> extended_builder \<Rightarrow> extended_builder" where
  "with_custom_entry key opt_value b =
    (case opt_value of
       Some value \<Rightarrow> b\<lparr>b_custom_entries := AList.update key value (b_custom_entries b)\<rparr>
     | None \<Rightarrow> b\<lparr>b_custom_entries := AList.delete key (b_custom_entries b)\<rparr>)"

fun ip_to_bytes :: "ip_addr \<Rightarrow> bytes" where
  "ip_to_bytes (IpV4 a) = ipv4_to_bytes_be a"
| "ip_to_bytes (IpV6 a) = ipv6_to_bytes_be a"

definition insert_some :: "bytes \<Rightarrow> bencode_mut option \<Rightarrow> (bytes, bencode_mut) btree_map \<Rightarrow> (bytes, bencode_mut) btree_map" where
  "insert_some k opt_value m = (case opt_value of Some v \<Rightarrow> fst (btm_insert_entry k v m) | None \<Rightarrow> m)"

definition ben_id_map :: "(extended_type \<times> u8) list \<Rightarrow> bencode_mut" where
  "ben_id_map id_map =
    MutDict (fold (\<lambda>(ext, value) m. fst (btm_insert_entry (ext_id ext) (MutInt (ucast value)) m)) id_map [])"

definition bencode_from_builder :: "extended_builder \<Rightarrow> (bytes \<times> bencode_mut) list \<Rightarrow> bytes" where
  "bencode_from_builder b custom_entries =
    (let root = fst (btm_insert_entry ID_MAP_KEY (ben_id_map (b_id_map b)) []);
         root = fold (\<lambda>(key, value) m. fst (btm_insert_entry key value m)) custom_entries root;
         root = insert_some CLIENT_ID_KEY (map_option MutBytes (b_our_id b)) root;
         root = insert_some CLIENT_TCP_PORT_KEY (map_option (\<lambda>p. MutInt (ucast p)) (b_our_tcp_port b)) root;
         root = insert_some OUR_IP_KEY (map_option (\<lambda>a. MutBytes (ip_to_bytes a)) (b_their_ip b)) root;
         root = insert_some CLIENT_IPV6_ADDR_KEY (map_option (\<lambda>a. MutBytes (ipv6_to_bytes_be a)) (b_our_ipv6_addr b)) root;
         root = insert_some CLIENT_IPV4_ADDR_KEY (map_option (\<lambda>a. MutBytes (ipv4_to_bytes_be a)) (b_our_ipv4_addr b)) root;
         root = insert_some CLIENT_MAX_REQUESTS_KEY (map_option MutInt (b_our_max_requests b)) root;
         root = insert_some METADATA_SIZE_KEY (map_option MutInt (b_metadata_size b)) root
     in bencode_mut_encode (MutDict root))"

section \<open>Extended messages\<close>

record extended_message =
  em_id_map :: "(extended_type \<times> u8) list"
  em_our_id :: "bytes option"
  em_our_tcp_port :: "u16 option"
  em_their_ip :: "ip_addr option"
  em_our_ipv6_addr :: "ipv6_addr option"
  em_our_ipv4_addr :: "ipv4_addr option"
  em_our_max_requests :: "i64 option"
  em_metadata_size :: "i64 option"
  raw_bencode :: bytes

definition from_builder :: "extended_builder \<Rightarrow> extended_message" where
  "from_builder b =
    (let custom_entries = b_custom_entries b; b = b\<lparr>b_custom_entries := []\<rparr>
     in \<lparr>em_id_map = b_id_map b, em_our_id = b_our_id b, em_our_tcp_port = b_our_tcp_port b,
         em_their_ip = b_their_ip b, em_our_ipv6_addr = b_our_ipv6_addr b, em_our_ipv4_addr = b_our_ipv4_addr b,
         em_our_max_requests = b_our_max_requests b, em_metadata_size = b_metadata_size b,
         raw_bencode = bencode_from_builder b custom_entries\<rparr>)"

definition builder_build :: "extended_builder \<Rightarrow> extended_message" where
  "builder_build b = from_builder b"

definition extended_of_bencode :: "bytes \<Rightarrow> (io_error, extended_message) outcome" where
  "extended_of_bencode raw =
    and_then (map_err IoDecode (bencode_ref_decode raw bdecode_opt_default)) (\<lambda>bencode.
    and_then (convert_dict IoConvert bencode (ascii ''ExtendedMessage'')) (\<lambda>ben_dict.
    and_then (parse_id_map ben_dict) (\<lambda>id_map.
      Ok \<lparr>em_id_map = id_map, em_our_id = parse_client_id ben_dict,
          em_our_tcp_port = parse_client_tcp_port ben_dict, em_their_ip = parse_our_ip ben_dict,
          em_our_ipv6_addr = parse_client_ipv6_addr ben_dict, em_our_ipv4_addr = parse_client_ipv4_addr ben_dict,
          em_our_max_requests = parse_client_max_requests ben_dict,
          em_metadata_size = parse_metadata_size ben_dict, raw_bencode = raw\<rparr>)))"

definition extended_parse_bytes :: "bytes \<Rightarrow> u32 \<Rightarrow> (io_error, extended_message) outcome parsed" where
  "extended_parse_bytes bs len =
    (let cast_len = u32_to_usize len in
     if cast_len \<le> length bs then
       (case extended_of_bencode (take cast_len bs) of Panic \<Rightarrow> Panic | res \<Rightarrow> Ok (bs, res))
     else Err (NomIncomplete (cast_len - length bs)))"

definition bencode_size :: "extended_message \<Rightarrow> nat" where
  "bencode_size m = length (raw_bencode m)"

definition query_id :: "extended_message \<Rightarrow> extended_type \<Rightarrow> u8 option" where
  "query_id m ext_type = map_of (em_id_map m) ext_type"

definition bencode_ref_of :: "extended_message \<Rightarrow> ('e, bencode_ref) outcome" where
  "bencode_ref_of m = (case bencode_ref_decode (raw_bencode m) bdecode_opt_default of Ok r \<Rightarrow> Ok r | _ \<Rightarrow> Panic)"

section \<open>Bit-activated messages\<close>

definition PORT_MESSAGE_LEN :: u32 where "PORT_MESSAGE_LEN = 3"
definition BASE_EXTENDED_MESSAGE_LEN :: u32 where "BASE_EXTENDED_MESSAGE_LEN = 6"
definition PORT_MESSAGE_ID :: u8 where "PORT_MESSAGE_ID = 9"
definition EXTENDED_MESSAGE_ID :: u8 where "EXTENDED_MESSAGE_ID = 20"
definition EXTENDED_MESSAGE_HANDSHAKE_ID :: u8 where "EXTENDED_MESSAGE_HANDSHAKE_ID = 0"

definition extended_write_bytes :: "wire \<Rightarrow> extended_message \<Rightarrow> io_error written" where
  "extended_write_bytes w m =
    (case u32_of_usize (bencode_size m + 2) of
       None \<Rightarrow> ([], Err IoUnsupported)
     | Some real_length \<Rightarrow>
         let (header, len) = write_length_id_pair w real_length (Some EXTENDED_MESSAGE_ID)
         in (header @ [EXTENDED_MESSAGE_HANDSHAKE_ID] @ raw_bencode m,
             and_then len (\<lambda>n. Ok (unat real_length + n))))"

record port_message =
  dht_port :: u16

definition port_new :: "u16 \<Rightarrow> port_message" where
  "port_new p = \<lparr>dht_port = p\<rparr>"

definition port_parse_bytes :: "wire \<Rightarrow> bytes \<Rightarrow> port_message parsed" where
  "port_parse_bytes w bs =
    and_then (ok_or NomError (nom_be_u16 w bs)) (\<lambda>(rest, p). Ok (rest, port_new p))"

definition port_write_bytes :: "wire \<Rightarrow> port_message \<Rightarrow> io_error written" where
  "port_write_bytes w m =
    (let (header, length_len) = write_length_id_pair w PORT_MESSAGE_LEN (Some PORT_MESSAGE_ID)
     in (header @ put_u16 w (dht_port m), and_then length_len (\<lambda>n. Ok (n + 2))))"

datatype bits_extension_message = Port port_message | Extended extended_message

definition bits_port_fn :: "wire \<Rightarrow> bytes \<Rightarrow> (io_error, bits_extension_message) outcome parsed" where
  "bits_port_fn w input =
    and_then (ok_or NomError (nom_be_u32 w input)) (\<lambda>(rest, message_len).
    and_then (ok_or NomError (nom_be_u8 w rest)) (\<lambda>(_, message_id).
      if message_len = PORT_MESSAGE_LEN \<and> message_id = PORT_MESSAGE_ID then
        and_then (port_parse_bytes w (drop HEADER_LEN input)) (\<lambda>(_, res_port). Ok (input, Ok (Port res_port)))
      else Err NomError))"

definition bits_ext_fn :: "wire \<Rightarrow> bytes \<Rightarrow> (io_error, bits_extension_message) outcome parsed" where
  "bits_ext_fn w input =
    and_then (ok_or NomError (nom_be_u32 w input)) (\<lambda>(rest, message_len).
    and_then (ok_or NomError (nom_be_u8 w rest)) (\<lambda>(rest, extended_message_id).
    and_then (ok_or NomError (nom_be_u8 w rest)) (\<lambda>(_, extended_message_handshake_id).
      if extended_message_id = EXTENDED_MESSAGE_ID \<and>
         extended_message_handshake_id = EXTENDED_MESSAGE_HANDSHAKE_ID then
        if unat message_len < 2 then Panic
        else and_then (extended_parse_bytes (drop (HEADER_LEN + 1) input) (message_len - 2)) (\<lambda>(_, res_extended).
          Ok (input, and_then res_extended (\<lambda>m. Ok (Extended m))))
      else Err NomError)))"

definition bits_parse_bytes :: "wire \<Rightarrow> bytes \<Rightarrow> (io_error, bits_extension_message) outcome parsed" where
  "bits_parse_bytes w input = alt2 (bits_port_fn w) (bits_ext_fn w) input"

fun bits_write_bytes :: "wire \<Rightarrow> bits_extension_message \<Rightarrow> io_error written" where
  "bits_write_bytes w (Port m) = port_write_bytes w m"
| "bits_write_bytes w (Extended m) = extended_write_bytes w m"

fun bits_message_size :: "bits_extension_message \<Rightarrow> nat" where
  "bits_message_size (Port m) = unat PORT_MESSAGE_LEN"
| "bits_message_size (Extended m) = unat BASE_EXTENDED_MESSAGE_LEN + bencode_size m"

end
