(* ===== verification/Peer_Extended_Correct.thy ===== *)
theory Peer_Extended_Correct
  imports Peer_Extended
begin

text \<open>
  The parser of extended handshakes inverts the writer: what a builder was given is what the parser
  reads, for every builder whose custom entries do not use the keys of the fields.
\<close>

section \<open>The dictionary a builder writes\<close>

definition opt_pair :: "bytes \<Rightarrow> bencode_mut option \<Rightarrow> (bytes \<times> bencode_mut) list" where
  "opt_pair k ov = (case ov of Some v \<Rightarrow> [(k, v)] | None \<Rightarrow> [])"

lemma insert_some_fold:
  "insert_some k ov m = fold (\<lambda>(k, v) m. fst (btm_insert_entry k v m)) (opt_pair k ov) m"
  by (simp add: insert_some_def opt_pair_def split: option.split)

lemma map_of_opt_pair [simp]: "map_of (rev (opt_pair k ov)) k' = (if k' = k then ov else None)"
  by (simp add: opt_pair_def split: option.split)

lemma set_opt_pair: "(k', v) \<in> set (opt_pair k ov) \<longleftrightarrow> k' = k \<and> ov = Some v"
  by (auto simp: opt_pair_def split: option.splits)

definition root_pairs :: "extended_builder \<Rightarrow> (bytes \<times> bencode_mut) list" where
  "root_pairs b = (ID_MAP_KEY, ben_id_map (b_id_map b)) # b_custom_entries b @
    opt_pair CLIENT_ID_KEY (map_option MutBytes (b_our_id b)) @
    opt_pair CLIENT_TCP_PORT_KEY (map_option (\<lambda>p. MutInt (ucast p)) (b_our_tcp_port b)) @
    opt_pair OUR_IP_KEY (map_option (\<lambda>a. MutBytes (ip_to_bytes a)) (b_their_ip b)) @
    opt_pair CLIENT_IPV6_ADDR_KEY (map_option (\<lambda>a. MutBytes (ipv6_to_bytes_be a)) (b_our_ipv6_addr b)) @
    opt_pair CLIENT_IPV4_ADDR_KEY (map_option (\<lambda>a. MutBytes (ipv4_to_bytes_be a)) (b_our_ipv4_addr b)) @
    opt_pair CLIENT_MAX_REQUESTS_KEY (map_option MutInt (b_our_max_requests b)) @
    opt_pair METADATA_SIZE_KEY (map_option MutInt (b_metadata_size b))"

lemma raw_bencode_from_builder:
  "raw_bencode (from_builder b) = bencode_mut_encode (ben_map (root_pairs b))"
  by (simp add: from_builder_def bencode_from_builder_def Let_def insert_some_fold root_pairs_def ben_map_def)

definition reserved_keys :: "bytes set" where
  "reserved_keys = {ID_MAP_KEY, CLIENT_ID_KEY, CLIENT_TCP_PORT_KEY, OUR_IP_KEY, CLIENT_IPV6_ADDR_KEY,
    CLIENT_IPV4_ADDR_KEY, CLIENT_MAX_REQUESTS_KEY, METADATA_SIZE_KEY}"

definition builder_wf :: "extended_builder \<Rightarrow> bool" where
  "builder_wf b \<longleftrightarrow> distinct (map fst (b_id_map b)) \<and>
    (\<forall>(t, v) \<in> set (b_id_map b). from_id (ext_id t) = t \<and> from_utf8 (ext_id t) \<and> int (length (ext_id t)) \<le> i64_max) \<and>
    (\<forall>(k, v) \<in> set (b_custom_entries b). k \<notin> reserved_keys \<and> int (length k) \<le> i64_max \<and> wf_mut v \<and> nesting v \<le> 49) \<and>
    (\<forall>i. b_our_id b = Some i \<longrightarrow> from_utf8 i \<and> int (length i) \<le> i64_max)"

lemma short_keys: "k \<in> reserved_keys \<Longrightarrow> int (length k) \<le> i64_max"
  by (auto simp: reserved_keys_def field_keys ascii_def i64_max_def)

lemma custom_not_reserved: "builder_wf b \<Longrightarrow> k \<in> reserved_keys \<Longrightarrow> map_of (rev (b_custom_entries b)) k = None"
  by (fastforce simp: builder_wf_def map_of_eq_None_iff)

lemma root_lookups:
  assumes "builder_wf b"
  shows "map_of (rev (root_pairs b)) ID_MAP_KEY = Some (ben_id_map (b_id_map b))"
    and "map_of (rev (root_pairs b)) CLIENT_ID_KEY = map_option MutBytes (b_our_id b)"
    and "map_of (rev (root_pairs b)) CLIENT_TCP_PORT_KEY = map_option (\<lambda>p. MutInt (ucast p)) (b_our_tcp_port b)"
    and "map_of (rev (root_pairs b)) OUR_IP_KEY = map_option (\<lambda>a. MutBytes (ip_to_bytes a)) (b_their_ip b)"
    and "map_of (rev (root_pairs b)) CLIENT_IPV6_ADDR_KEY =
      map_option (\<lambda>a. MutBytes (ipv6_to_bytes_be a)) (b_our_ipv6_addr b)"
    and "map_of (rev (root_pairs b)) CLIENT_IPV4_ADDR_KEY =
      map_option (\<lambda>a. MutBytes (ipv4_to_bytes_be a)) (b_our_ipv4_addr b)"
    and "map_of (rev (root_pairs b)) CLIENT_MAX_REQUESTS_KEY = map_option MutInt (b_our_max_requests b)"
    and "map_of (rev (root_pairs b)) METADATA_SIZE_KEY = map_option MutInt (b_metadata_size b)"
  using custom_not_reserved [OF assms, unfolded reserved_keys_def field_keys ascii_def]
  by (simp_all add: root_pairs_def map_add_def field_keys ascii_def split: option.split)

section \<open>The map of extension ids\<close>

definition id_pairs :: "(extended_type \<times> u8) list \<Rightarrow> (bytes \<times> bencode_mut) list" where
  "id_pairs id_map = map (\<lambda>(t, v). (ext_id t, MutInt (ucast v))) id_map"

lemma ben_id_map_pairs: "ben_id_map id_map = ben_map (id_pairs id_map)"
proof -
  have "fold (\<lambda>(t, v) m. fst (btm_insert_entry (ext_id t) (MutInt (ucast v)) m)) id_map m =
      fold (\<lambda>(k, v) m. fst (btm_insert_entry k v m)) (id_pairs id_map) m" for m
    by (induction id_map arbitrary: m) (auto simp: id_pairs_def)
  then show ?thesis by (simp add: ben_id_map_def ben_map_def)
qed

lemma sint_zero_extend:
  assumes "uint v < 2 ^ 63"
  shows "sint (ucast (v :: 'a::len word) :: i64) = uint v"
proof -
  have "uint (ucast v :: i64) = uint v"
    using assms by (simp add: unsigned_ucast_eq take_bit_int_eq_self)
  moreover have "signed_take_bit 63 (uint v) = uint v"
    using assms by (intro signed_take_bit_int_eq_self) (simp_all add: order_trans [OF _ unsigned_greater_eq])
  ultimately show ?thesis by (simp add: sint_uint)
qed

lemma ucast_zero_extend: "LENGTH('a) \<le> 64 \<Longrightarrow> ucast (ucast (v :: 'a::len word) :: i64) = v"
  by (rule bit_word_eqI) (simp add: bit_ucast_iff)

lemma i64_to_u8_ucast [simp]: "i64_to_u8 (ucast (v :: u8)) = Some v"
  using uint_bounded [of v] sint_zero_extend [of v] ucast_zero_extend [of v] by (simp add: i64_to_u8_def)

lemma i64_to_u16_ucast [simp]: "i64_to_u16 (ucast (v :: u16)) = Some v"
  using uint_bounded [of v] sint_zero_extend [of v] ucast_zero_extend [of v] by (simp add: i64_to_u16_def)

lemma ext_id_from_id [simp]: "ext_id (from_id k) = k"
  by (simp add: from_id_def)

lemma from_id_inj: "from_id k = from_id k' \<longleftrightarrow> k = k'"
  by (metis ext_id_from_id)

text \<open>Every entry is an id in range, so the loop collects them all.\<close>

definition id_lookup :: "(bytes \<times> bencode_mut) list \<Rightarrow> (extended_type \<times> u8) list \<Rightarrow> extended_type \<Rightarrow> u8 option" where
  "id_lookup m acc t =
    (case map_of m (ext_id t) of
       Some (MutInt n) \<Rightarrow> if from_id (ext_id t) = t then Some (ucast n) else map_of acc t
     | _ \<Rightarrow> map_of acc t)"

lemma id_map_loop:
  assumes "\<forall>(k, v) \<in> set m. from_utf8 k \<and> (\<exists>n :: u8. v = MutInt (ucast n))" and "distinct (map fst m)"
  shows "\<exists>r. fold id_map_step (annotate_dict m) (Ok acc :: ('e, _) outcome) = Ok r \<and>
    (\<forall>t. map_of r t = id_lookup m acc t)"
  using assms
proof (induction m arbitrary: acc)
  case (Cons e m)
  obtain k n where e: "e = (k, MutInt (ucast (n :: u8)))" and k: "from_utf8 k"
    using Cons.prems(1) by (cases e) auto
  have step: "id_map_step (k, annotate (MutInt (ucast n))) (Ok acc :: ('e, _) outcome) = Ok (AList.update (from_id k) n acc)"
    using k by (simp add: id_map_step_def convert_int_def)
  obtain r where r: "fold id_map_step (annotate_dict m) (Ok (AList.update (from_id k) n acc) :: ('e, _) outcome) = Ok r"
    "\<forall>t. map_of r t = id_lookup m (AList.update (from_id k) n acc) t"
    using Cons.IH [of "AList.update (from_id k) n acc"] Cons.prems by (metis (no_types, lifting) distinct.simps(2) list.set_intros(2) list.simps(9))
  have none: "map_of m k = None" using Cons.prems(2) e by (simp add: map_of_eq_None_iff)
  have "id_lookup m (AList.update (from_id k) n acc) t = id_lookup (e # m) acc t" for t
  proof (cases "k = ext_id t")
    case True
    with none ucast_zero_extend [of n] show ?thesis by (auto simp: id_lookup_def e update_conv')
  next
    case False
    then have "from_id k \<noteq> t" by auto
    with False show ?thesis by (simp add: id_lookup_def e update_conv' split: option.split bencode_mut.split)
  qed
  moreover have "fold id_map_step (annotate_dict (e # m)) (Ok acc :: ('e, _) outcome) = Ok r"
    using r(1) step by (simp add: e annotate_dict_def)
  ultimately show ?case using r(2) by auto
qed (simp add: annotate_dict_def id_lookup_def)

lemma map_of_id_pairs:
  assumes "\<forall>(t, v) \<in> set id_map. from_id (ext_id t) = t" and "from_id (ext_id t) = t"
  shows "map_of (id_pairs id_map) (ext_id t) = map_option (\<lambda>v. MutInt (ucast v)) (map_of id_map t)"
  using assms(1)
proof (induction id_map)
  case (Cons e id_map)
  obtain t' v where e: "e = (t', v)" by (cases e)
  have "from_id (ext_id t') = t'" using Cons.prems e by simp
  then have "ext_id t' = ext_id t \<longleftrightarrow> t' = t" using assms(2) by metis
  moreover have "map_of (id_pairs id_map) (ext_id t) = map_option (\<lambda>v. MutInt (ucast v)) (map_of id_map t)"
    using Cons by simp
  ultimately show ?case by (auto simp: id_pairs_def e)
qed (simp add: id_pairs_def)

lemma parse_id_map_built:
  assumes "builder_wf b"
  shows "\<exists>r. (parse_id_map (annotate_dict (ben_entries (root_pairs b))) :: ('e, _) outcome) = Ok r \<and>
    map_of r = map_of (b_id_map b)"
proof -
  let ?m = "ben_entries (id_pairs (b_id_map b))"
  have ids: "\<forall>(t, v) \<in> set (b_id_map b). from_id (ext_id t) = t \<and> from_utf8 (ext_id t)"
    and dist: "distinct (map fst (b_id_map b))"
    using assms by (auto simp: builder_wf_def)
  have "\<forall>(k, v) \<in> set ?m. from_utf8 k \<and> (\<exists>n :: u8. v = MutInt (ucast n))"
    using set_ben_entries [of "id_pairs (b_id_map b)"] ids by (fastforce simp: id_pairs_def)
  from id_map_loop [OF this btm_wf_distinct [OF btm_wf_ben_entries], of "[]"] obtain r where
    r: "fold id_map_step (annotate_dict ?m) (Ok [] :: ('e, _) outcome) = Ok r" and
    get: "\<forall>t. map_of r t = id_lookup ?m [] t"
    by blast
  have ent: "map_of ?m k = map_of (rev (id_pairs (b_id_map b))) k" for k
    using get_ben_entries by (simp add: btm_get_def)
  have "map_of r t = map_of (b_id_map b) t" for t
  proof (cases "from_id (ext_id t) = t")
    case True
    have "inj_on ext_id (fst ` set (b_id_map b))"
      using ids by (intro inj_on_inverseI [of _ from_id]) auto
    then have "distinct (map fst (id_pairs (b_id_map b)))"
      using dist distinct_map [of ext_id "map fst (b_id_map b)"] by (simp add: id_pairs_def case_prod_unfold comp_def)
    then have "map_of (rev (id_pairs (b_id_map b))) = map_of (id_pairs (b_id_map b))"
      by (subst map_of_inject_set) (simp_all add: rev_map [symmetric])
    moreover have "map_of (id_pairs (b_id_map b)) (ext_id t) = map_option (\<lambda>v. MutInt (ucast v)) (map_of (b_id_map b) t)"
      using ids True by (intro map_of_id_pairs) auto
    ultimately show ?thesis
      using True by (cases "map_of (b_id_map b) t") (simp_all add: get id_lookup_def ent ucast_zero_extend)
  next
    case False
    then have "t \<notin> fst ` set (b_id_map b)" using ids by auto
    then show ?thesis using False by (simp add: get id_lookup_def map_of_eq_None_iff [symmetric] split: option.splits bencode_mut.splits)
  qed
  then have "map_of r = map_of (b_id_map b)" by blast
  moreover have "(parse_id_map (annotate_dict (ben_entries (root_pairs b))) :: ('e, _) outcome) = Ok r"
    by (simp add: parse_id_map_def lookup_built get_ben_entries root_lookups [OF assms] ben_id_map_pairs ben_map_entries r)
  ultimately show ?thesis by blast
qed

section \<open>The whole message\<close>

lemma root_pairs_values:
  assumes "builder_wf b" and "(k, v) \<in> set (root_pairs b)"
  shows "int (length k) \<le> i64_max \<and> wf_mut v \<and> nesting v \<le> 49"
proof -
  have "wf_mut (ben_id_map (b_id_map b)) \<and> nesting (ben_id_map (b_id_map b)) \<le> Suc 1"
    unfolding ben_id_map_pairs using assms(1)
    by (intro conjI wf_ben_map nesting_ben_map) (auto simp: id_pairs_def builder_wf_def)
  moreover have "length (ip_to_bytes a) \<le> 9223372036854775807" for a by (cases a) simp_all
  ultimately show ?thesis
    using assms short_keys
    by (auto simp: root_pairs_def set_opt_pair builder_wf_def reserved_keys_def i64_max_def)
qed

lemma ip_bytes_lengths [simp]:
  "length (ipv4_to_bytes_be a) = 4" "length (ipv6_to_bytes_be c) = 16"
  by simp_all

lemma extended_fields_built:
  assumes "builder_wf b"
  defines "d \<equiv> annotate_dict (ben_entries (root_pairs b))"
  shows "parse_client_id d = b_our_id b" and "parse_client_tcp_port d = b_our_tcp_port b"
    and "parse_our_ip d = b_their_ip b" and "parse_client_ipv6_addr d = b_our_ipv6_addr b"
    and "parse_client_ipv4_addr d = b_our_ipv4_addr b" and "parse_client_max_requests d = b_our_max_requests b"
    and "parse_metadata_size d = b_metadata_size b"
proof -
  note lookups = lookup_built get_ben_entries root_lookups [OF assms(1)] d_def
  show "parse_client_id d = b_our_id b"
    using assms(1) by (cases "b_our_id b") (simp_all add: parse_client_id_def lookups builder_wf_def)
  show "parse_client_tcp_port d = b_our_tcp_port b"
    by (cases "b_our_tcp_port b") (simp_all add: parse_client_tcp_port_def lookups)
  show "parse_our_ip d = b_their_ip b"
  proof (cases "b_their_ip b")
    case (Some a)
    then show ?thesis by (cases a) (simp_all add: parse_our_ip_def lookups ipv4_roundtrip ipv6_roundtrip)
  qed (simp add: parse_our_ip_def lookups)
  show "parse_client_ipv6_addr d = b_our_ipv6_addr b"
    by (cases "b_our_ipv6_addr b") (simp_all add: parse_client_ipv6_addr_def lookups ipv6_roundtrip)
  show "parse_client_ipv4_addr d = b_our_ipv4_addr b"
    by (cases "b_our_ipv4_addr b") (simp_all add: parse_client_ipv4_addr_def lookups ipv4_roundtrip)
  show "parse_client_max_requests d = b_our_max_requests b"
    by (cases "b_our_max_requests b") (simp_all add: parse_client_max_requests_def lookups)
  show "parse_metadata_size d = b_metadata_size b"
    by (cases "b_metadata_size b") (simp_all add: parse_metadata_size_def lookups)
qed

lemma extended_of_bencode_built:
  assumes "builder_wf b"
  shows "\<exists>ids. extended_of_bencode (raw_bencode (from_builder b)) = Ok (from_builder b\<lparr>em_id_map := ids\<rparr>) \<and>
    map_of ids = map_of (b_id_map b)"
proof -
  obtain ids where ids: "(parse_id_map (annotate_dict (ben_entries (root_pairs b))) :: (io_error, _) outcome) = Ok ids"
    "map_of ids = map_of (b_id_map b)"
    using parse_id_map_built [OF assms] by blast
  have wf: "wf_mut (ben_map (root_pairs b))" and nest: "nesting (ben_map (root_pairs b)) \<le> Suc 49"
    using root_pairs_values [OF assms] by (blast intro: wf_ben_map nesting_ben_map)+
  have "bencode_ref_decode (bencode_mut_encode (ben_map (root_pairs b))) bdecode_opt_default =
      Ok (annotate (ben_map (root_pairs b)))"
    using wf nest by (intro decode_built_full) (simp_all add: bdecode_opt_default_def)
  then have "extended_of_bencode (raw_bencode (from_builder b)) = Ok (from_builder b\<lparr>em_id_map := ids\<rparr>)"
    using ids(1)
    by (simp add: extended_of_bencode_def raw_bencode_from_builder convert_built extended_fields_built [OF assms])
      (simp add: from_builder_def Let_def raw_bencode_from_builder [unfolded from_builder_def Let_def, simplified])
  with ids(2) show ?thesis by blast
qed

end
