(* ===== verification/Peer_Ut_Metadata.thy ===== *)
theory Peer_Ut_Metadata
  imports Peer_Extended_Correct
begin

text \<open>
  Messages of the extension protocol: \<^verbatim>\<open>packages/peer/src/message/prot_ext\<close>. The nested custom
  protocol, a type parameter bounded by the trait \<^verbatim>\<open>PeerProtocol\<close>, is a record of its methods with
  its state passed explicitly.
\<close>

section \<open>Metadata exchange\<close>

definition REQUEST_MESSAGE_TYPE_ID :: u8 where "REQUEST_MESSAGE_TYPE_ID = 0"
definition DATA_MESSAGE_TYPE_ID :: u8 where "DATA_MESSAGE_TYPE_ID = 1"
definition REJECT_MESSAGE_TYPE_ID :: u8 where "REJECT_MESSAGE_TYPE_ID = 2"

lemmas message_type_ids = REQUEST_MESSAGE_TYPE_ID_def DATA_MESSAGE_TYPE_ID_def REJECT_MESSAGE_TYPE_ID_def

datatype ut_metadata_error = UnknownMessageType u8

record ut_request =
  ur_piece :: i64
  ur_bencode_size :: nat

record ut_data =
  ud_piece :: i64
  ud_total_size :: i64
  ud_data :: bytes
  ud_bencode_size :: nat

record ut_reject =
  uj_piece :: i64
  uj_bencode_size :: nat

datatype ut_metadata_message = UtRequest ut_request | UtData ut_data | UtReject ut_reject

definition ut_request_encoded :: "i64 \<Rightarrow> bytes" where
  "ut_request_encoded piece = bencode_mut_encode (ben_map
    [(MESSAGE_TYPE_KEY, MutInt (ucast REQUEST_MESSAGE_TYPE_ID)), (PIECE_INDEX_KEY, MutInt piece)])"

definition ut_request_new :: "i64 \<Rightarrow> ut_request" where
  "ut_request_new piece = \<lparr>ur_piece = piece, ur_bencode_size = length (ut_request_encoded piece)\<rparr>"

definition ut_request_with_bytes :: "i64 \<Rightarrow> bytes \<Rightarrow> ut_request" where
  "ut_request_with_bytes piece bs = \<lparr>ur_piece = piece, ur_bencode_size = length bs\<rparr>"

definition ut_data_encoded :: "i64 \<Rightarrow> i64 \<Rightarrow> bytes" where
  "ut_data_encoded piece total_size = bencode_mut_encode (ben_map
    [(MESSAGE_TYPE_KEY, MutInt (ucast DATA_MESSAGE_TYPE_ID)), (PIECE_INDEX_KEY, MutInt piece),
     (TOTAL_SIZE_KEY, MutInt total_size)])"

definition ut_data_new :: "i64 \<Rightarrow> i64 \<Rightarrow> bytes \<Rightarrow> ut_data" where
  "ut_data_new piece total_size dat =
    \<lparr>ud_piece = piece, ud_total_size = total_size, ud_data = dat,
     ud_bencode_size = length (ut_data_encoded piece total_size)\<rparr>"

definition ut_data_with_bytes :: "i64 \<Rightarrow> i64 \<Rightarrow> bytes \<Rightarrow> bytes \<Rightarrow> ut_data" where
  "ut_data_with_bytes piece total_size dat bs =
    \<lparr>ud_piece = piece, ud_total_size = total_size, ud_data = dat, ud_bencode_size = length bs\<rparr>"

definition ut_reject_encoded :: "i64 \<Rightarrow> bytes" where
  "ut_reject_encoded piece = bencode_mut_encode (ben_map
    [(MESSAGE_TYPE_KEY, MutInt (ucast REJECT_MESSAGE_TYPE_ID)), (PIECE_INDEX_KEY, MutInt piece)])"

definition ut_reject_new :: "i64 \<Rightarrow> ut_reject" where
  "ut_reject_new piece = \<lparr>uj_piece = piece, uj_bencode_size = length (ut_reject_encoded piece)\<rparr>"

definition ut_reject_with_bytes :: "i64 \<Rightarrow> bytes \<Rightarrow> ut_reject" where
  "ut_reject_with_bytes piece bs = \<lparr>uj_piece = piece, uj_bencode_size = length bs\<rparr>"

fun ut_write_bytes :: "ut_metadata_message \<Rightarrow> bytes" where
  "ut_write_bytes (UtRequest m) = ut_request_encoded (ur_piece m)"
| "ut_write_bytes (UtData m) = ut_data_encoded (ud_piece m) (ud_total_size m) @ ud_data m"
| "ut_write_bytes (UtReject m) = ut_reject_encoded (uj_piece m)"

fun ut_message_size :: "ut_metadata_message \<Rightarrow> nat" where
  "ut_message_size (UtRequest m) = ur_bencode_size m"
| "ut_message_size (UtData m) = ud_bencode_size m + length (ud_data m)"
| "ut_message_size (UtReject m) = uj_bencode_size m"

definition ut_decode_opts :: bdecode_opt where
  "ut_decode_opts = \<lparr>max_recursion = 2, check_key_sort = False, enforce_full_decode = False\<rparr>"

definition ut_parse_bytes :: "bytes \<Rightarrow> (io_error, (ut_metadata_error, ut_metadata_message) outcome) outcome" where
  "ut_parse_bytes bs =
    and_then (map_err IoDecode (bencode_ref_decode bs ut_decode_opts)) (\<lambda>bencode.
    and_then (convert_dict IoConvert bencode (ascii ''PeerExtensionProtocolMessage'')) (\<lambda>bencode_dict.
    and_then (parse_message_type bencode_dict) (\<lambda>msg_type.
    and_then (parse_piece_index bencode_dict) (\<lambda>piece.
      if length bs < length (buffer bencode) then Panic
      else
        let bencode_bytes = take (length (buffer bencode)) bs; extra_bytes = drop (length (buffer bencode)) bs in
        if msg_type = REQUEST_MESSAGE_TYPE_ID then Ok (Ok (UtRequest (ut_request_with_bytes piece bencode_bytes)))
        else if msg_type = REJECT_MESSAGE_TYPE_ID then Ok (Ok (UtReject (ut_reject_with_bytes piece bencode_bytes)))
        else if msg_type = DATA_MESSAGE_TYPE_ID then
          and_then (parse_total_size bencode_dict) (\<lambda>total_size.
            Ok (Ok (UtData (ut_data_with_bytes piece total_size extra_bytes bencode_bytes))))
        else Ok (Err (UnknownMessageType msg_type))))))"

section \<open>Protocols\<close>

record ('p, 'm, 'e) protocol =
  p_bytes_needed :: "'p \<Rightarrow> bytes \<Rightarrow> (io_error, nat option) outcome \<times> 'p"
  p_parse_bytes :: "'p \<Rightarrow> bytes \<Rightarrow> (io_error, ('e, 'm) outcome) outcome \<times> 'p"
  p_write_bytes :: "'p \<Rightarrow> ('e, 'm) outcome \<Rightarrow> io_error written \<times> 'p"
  p_message_size :: "'p \<Rightarrow> ('e, 'm) outcome \<Rightarrow> (io_error, nat) outcome \<times> 'p"

text \<open>The trait \<^verbatim>\<open>NestedPeerProtocol<ExtendedMessage>\<close>, of the protocols below the wire protocol.\<close>

record ('p, 'm, 'e) nested_protocol = "('p, 'm, 'e) protocol" +
  p_received_message :: "'p \<Rightarrow> extended_message \<Rightarrow> nat \<times> 'p"
  p_sent_message :: "'p \<Rightarrow> extended_message \<Rightarrow> nat \<times> 'p"

definition EXTENSION_HEADER_LEN :: nat where "EXTENSION_HEADER_LEN = HEADER_LEN + 1"

datatype ext_protocol_error = UtMetadataError ut_metadata_error | UnknownId | UnknownExtensionId u8
  | ParseExtensionError nom_err

datatype ('m, 'e) ext_protocol_message = ExtUtMetadata ut_metadata_message | ExtCustom "('e, 'm) outcome"

type_synonym ('m, 'e) ext_parse_result =
  "(io_error, (ext_protocol_error, ('m, 'e) ext_protocol_message) outcome) outcome"

definition parse_extensions_with_id :: "bytes \<Rightarrow> extended_message \<Rightarrow> u8 \<Rightarrow> ('m, 'e) ext_parse_result" where
  "parse_extensions_with_id bs extended i =
    (case query_id extended UtMetadata of
       None \<Rightarrow> Ok (Err UnknownId)
     | Some lt_metadata_id \<Rightarrow>
         and_then (ut_parse_bytes bs) (\<lambda>item.
           Ok (case item of Ok message \<Rightarrow> Ok (ExtUtMetadata message) | Err err \<Rightarrow> Err (UtMetadataError err) | Panic \<Rightarrow> Panic)))"

definition ut_metadata_fn :: "wire \<Rightarrow> extended_message \<Rightarrow> bytes \<Rightarrow> ('m, 'e) ext_parse_result parsed" where
  "ut_metadata_fn w extended input =
    and_then (ok_or NomError (nom_be_u32 w input)) (\<lambda>(rest, message_len).
    and_then (ok_or NomError (nom_be_u8 w rest)) (\<lambda>(rest, extended_message_id).
    and_then (ok_or NomError (nom_be_u8 w rest)) (\<lambda>(_, message_id).
      if extended_message_id = EXTENDED_MESSAGE_ID then
        and_then (slice_range input EXTENSION_HEADER_LEN (EXTENSION_HEADER_LEN + unat message_len - 2)) (\<lambda>bs.
          case parse_extensions_with_id bs extended message_id of Panic \<Rightarrow> Panic | res \<Rightarrow> Ok (input, res))
      else Ok (input, Ok (Err (UnknownExtensionId extended_message_id))))))"

definition parse_extensions ::
    "wire \<Rightarrow> ('p, 'm, 'e, 'z) protocol_scheme \<Rightarrow> bytes \<Rightarrow> extended_message \<Rightarrow> 'p \<Rightarrow> ('m, 'e) ext_parse_result parsed \<times> 'p" where
  "parse_extensions w P bs extended custom_prot =
    (case ut_metadata_fn w extended bs of
       Err NomError \<Rightarrow>
         let (res, custom_prot) = p_parse_bytes P custom_prot bs
         in (case res of Panic \<Rightarrow> Panic | res \<Rightarrow> Ok (bs, and_then res (\<lambda>item. Ok (Ok (ExtCustom item)))), custom_prot)
     | res \<Rightarrow> (res, custom_prot))"

definition ext_parse_bytes ::
    "wire \<Rightarrow> ('p, 'm, 'e, 'z) protocol_scheme \<Rightarrow> bytes \<Rightarrow> extended_message \<Rightarrow> 'p \<Rightarrow> ('m, 'e) ext_parse_result \<times> 'p" where
  "ext_parse_bytes w P bs extended custom_prot =
    (let (res, custom_prot) = parse_extensions w P bs extended custom_prot
     in (case res of Ok (_, result) \<Rightarrow> result | Err err \<Rightarrow> Ok (Err (ParseExtensionError err)) | Panic \<Rightarrow> Panic,
         custom_prot))"

fun ext_write_bytes ::
    "wire \<Rightarrow> ('p, 'm, 'e, 'z) protocol_scheme \<Rightarrow> ('m, 'e) ext_protocol_message \<Rightarrow> extended_message \<Rightarrow> 'p \<Rightarrow> io_error written \<times> 'p" where
  "ext_write_bytes w P (ExtUtMetadata msg) extended custom_prot =
    ((case query_id extended UtMetadata of
        None \<Rightarrow> ([], Err (IoOther ''Can't Send UtMetadataMessage As We Have No Id Mapping''))
      | Some i \<Rightarrow>
          let total_len = 2 + ut_message_size msg in
          (case u32_of_usize total_len of
             None \<Rightarrow> ([], Panic)
           | Some len \<Rightarrow>
               let (header, id_length) = write_length_id_pair w len (Some EXTENDED_MESSAGE_ID)
               in (header @ [i] @ ut_write_bytes msg, and_then id_length (\<lambda>n. Ok (n + total_len))))),
     custom_prot)"
| "ext_write_bytes w P (ExtCustom msg) extended custom_prot = p_write_bytes P custom_prot msg"

fun ext_message_size ::
    "('p, 'm, 'e, 'z) protocol_scheme \<Rightarrow> ('m, 'e) ext_protocol_message \<Rightarrow> 'p \<Rightarrow> (io_error, nat) outcome \<times> 'p" where
  "ext_message_size P (ExtUtMetadata msg) custom_prot = (Ok (ut_message_size msg), custom_prot)"
| "ext_message_size P (ExtCustom msg) custom_prot = p_message_size P custom_prot msg"

section \<open>Metadata messages survive the wire\<close>

text \<open>The messages that a program builds itself, as opposed to those it received.\<close>

fun ut_built :: "ut_metadata_message \<Rightarrow> bool" where
  "ut_built (UtRequest m) = (m = ut_request_new (ur_piece m))"
| "ut_built (UtData m) = (m = ut_data_new (ud_piece m) (ud_total_size m) (ud_data m))"
| "ut_built (UtReject m) = (m = ut_reject_new (uj_piece m))"

lemma ut_built_sizes:
  "ur_piece (ut_request_new p) = p" "ur_bencode_size (ut_request_new p) = length (ut_request_encoded p)"
  "ud_bencode_size (ut_data_new p t d) = length (ut_data_encoded p t)"
  "uj_bencode_size (ut_reject_new p) = length (ut_reject_encoded p)"
  by (simp_all add: ut_request_new_def ut_data_new_def ut_reject_new_def)

lemma ut_message_size_built: "ut_built m \<Longrightarrow> ut_message_size m = length (ut_write_bytes m)"
proof (cases m)
  case (UtRequest r)
  assume "ut_built m"
  then have "ur_bencode_size r = length (ut_request_encoded (ur_piece r))"
    using UtRequest ut_built_sizes(2) [of "ur_piece r"] by simp
  then show ?thesis using UtRequest by simp
next
  case (UtData d)
  assume "ut_built m"
  then have "ud_bencode_size d = length (ut_data_encoded (ud_piece d) (ud_total_size d))"
    using UtData ut_built_sizes(3) [of "ud_piece d" "ud_total_size d" "ud_data d"] by simp
  then show ?thesis using UtData by simp
next
  case (UtReject r)
  assume "ut_built m"
  then have "uj_bencode_size r = length (ut_reject_encoded (uj_piece r))"
    using UtReject ut_built_sizes(4) [of "uj_piece r"] by simp
  then show ?thesis using UtReject by simp
qed

lemma ut_decode:
  assumes "\<And>k v. (k, v) \<in> set kvs \<Longrightarrow> length k \<le> 16 \<and> (\<exists>n. v = MutInt n)"
  shows "bencode_ref_decode (bencode_mut_encode (ben_map kvs) @ post) ut_decode_opts = Ok (annotate (ben_map kvs))"
proof (rule decode_built)
  show "wf_mut (ben_map kvs)" using assms by (fastforce intro!: wf_ben_map simp: i64_max_def)
  have "nesting (ben_map kvs) \<le> Suc 1" using assms by (fastforce intro!: nesting_ben_map)
  then show "nesting (ben_map kvs) \<le> max_recursion ut_decode_opts" by (simp add: ut_decode_opts_def)
qed (simp add: ut_decode_opts_def)

lemma ut_keys:
  "length MESSAGE_TYPE_KEY \<le> 16" "length PIECE_INDEX_KEY \<le> 16" "length TOTAL_SIZE_KEY \<le> 16"
  "MESSAGE_TYPE_KEY \<noteq> PIECE_INDEX_KEY" "PIECE_INDEX_KEY \<noteq> MESSAGE_TYPE_KEY"
  "MESSAGE_TYPE_KEY \<noteq> TOTAL_SIZE_KEY" "TOTAL_SIZE_KEY \<noteq> MESSAGE_TYPE_KEY"
  "PIECE_INDEX_KEY \<noteq> TOTAL_SIZE_KEY" "TOTAL_SIZE_KEY \<noteq> PIECE_INDEX_KEY"
  by code_simp+

lemmas ut_parse_simps = ut_parse_bytes_def bencode_mut_encode_def convert_built parse_message_type_def
  parse_piece_index_def parse_total_size_def lookup_built get_ben_entries ut_keys message_type_ids

lemma ut_roundtrip:
  assumes "ut_built m"
  shows "ut_parse_bytes (ut_write_bytes m) = Ok (Ok m)"
proof (cases m)
  case (UtRequest r)
  let ?kvs = "[(MESSAGE_TYPE_KEY, MutInt (ucast REQUEST_MESSAGE_TYPE_ID)), (PIECE_INDEX_KEY, MutInt (ur_piece r))]"
  have "bencode_ref_decode (bencode_mut_encode (ben_map ?kvs) @ []) ut_decode_opts = Ok (annotate (ben_map ?kvs))"
    by (rule ut_decode) (auto simp: ut_keys)
  moreover have "ut_request_with_bytes (ur_piece r) (ut_request_encoded (ur_piece r)) = r"
    using assms UtRequest by (metis ut_built.simps(1) ut_request_new_def ut_request_with_bytes_def)
  ultimately show ?thesis
    using UtRequest i64_to_u8_ucast [of REQUEST_MESSAGE_TYPE_ID]
    by (simp add: ut_request_encoded_def ut_parse_simps)
next
  case (UtData d)
  let ?kvs = "[(MESSAGE_TYPE_KEY, MutInt (ucast DATA_MESSAGE_TYPE_ID)), (PIECE_INDEX_KEY, MutInt (ud_piece d)),
     (TOTAL_SIZE_KEY, MutInt (ud_total_size d))]"
  have "bencode_ref_decode (bencode_mut_encode (ben_map ?kvs) @ ud_data d) ut_decode_opts = Ok (annotate (ben_map ?kvs))"
    by (rule ut_decode) (auto simp: ut_keys)
  moreover have "ut_data_with_bytes (ud_piece d) (ud_total_size d) (ud_data d)
      (ut_data_encoded (ud_piece d) (ud_total_size d)) = d"
    using assms UtData by (metis ut_built.simps(2) ut_data_new_def ut_data_with_bytes_def)
  ultimately show ?thesis
    using UtData i64_to_u8_ucast [of DATA_MESSAGE_TYPE_ID]
    by (simp add: ut_data_encoded_def ut_parse_simps)
next
  case (UtReject r)
  let ?kvs = "[(MESSAGE_TYPE_KEY, MutInt (ucast REJECT_MESSAGE_TYPE_ID)), (PIECE_INDEX_KEY, MutInt (uj_piece r))]"
  have "bencode_ref_decode (bencode_mut_encode (ben_map ?kvs) @ []) ut_decode_opts = Ok (annotate (ben_map ?kvs))"
    by (rule ut_decode) (auto simp: ut_keys)
  moreover have "ut_reject_with_bytes (uj_piece r) (ut_reject_encoded (uj_piece r)) = r"
    using assms UtReject by (metis ut_built.simps(3) ut_reject_new_def ut_reject_with_bytes_def)
  ultimately show ?thesis
    using UtReject i64_to_u8_ucast [of REJECT_MESSAGE_TYPE_ID]
    by (simp add: ut_reject_encoded_def ut_parse_simps)
qed

end
