(* ===== verification/Peer_Wire.thy ===== *)
theory Peer_Wire
  imports Peer_Ut_Metadata
begin

text \<open>
  The peer wire protocol: the message type and its parser and writer (\<^verbatim>\<open>packages/peer/src/message/mod.rs\<close>),
  the protocols that nest in one another (\<^verbatim>\<open>protocol\<close>), and the codec that cuts a byte stream into
  messages (\<^verbatim>\<open>codec.rs\<close>).
\<close>

section \<open>Messages\<close>

datatype ('m, 'e) wire_message = KeepAlive | Choke | UnChoke | Interested | UnInterested
  | Have have_message | BitField bitfield_message | Request request_message | Piece piece_message
  | Cancel cancel_message | BitsExtension bits_extension_message | ProtExtension "('e, 'm) outcome"

definition keep_alive :: "('m, 'e) wire_message" where
  "keep_alive = KeepAlive"

definition is_keep_alive :: "('m, 'e) wire_message \<Rightarrow> bool" where
  "is_keep_alive m \<longleftrightarrow> (case m of KeepAlive \<Rightarrow> True | _ \<Rightarrow> False)"

definition wire_bytes_needed :: "wire \<Rightarrow> bytes \<Rightarrow> (io_error, nat option) outcome" where
  "wire_bytes_needed w bs =
    (case nom_be_u32 w bs of
       Some (_, len) \<Rightarrow> Ok (Some (MESSAGE_LENGTH_LEN_BYTES + u32_to_usize len))
     | None \<Rightarrow> Ok None)"

type_synonym ('m, 'e) wire_parsed = "(io_error, ('m, 'e) wire_message) outcome parsed"

text \<open>
  \<^verbatim>\<open>value(x, p)\<close> runs \<^verbatim>\<open>p\<close> and returns \<^verbatim>\<open>x\<close>: the length and the id are read but not compared. The
  headers of all parsers below share this step.
\<close>

definition read_header :: "wire \<Rightarrow> bytes \<Rightarrow> unit parsed" where
  "read_header w input =
    and_then (ok_or NomError (nom_be_u32 w input)) (\<lambda>(rest, _).
    and_then (ok_or NomError (nom_be_u8 w rest)) (\<lambda>(rest, _). Ok (rest, ())))"

definition msg_parse_keep_alive :: "wire \<Rightarrow> bytes \<Rightarrow> ('m, 'e) wire_parsed" where
  "msg_parse_keep_alive w input =
    and_then (ok_or NomError (nom_be_u32 w input)) (\<lambda>(rest, _).
      Ok (case nom_be_u8 w rest of Some (rest, _) \<Rightarrow> rest | None \<Rightarrow> rest, Ok KeepAlive))"

definition msg_parse_choke :: "wire \<Rightarrow> bytes \<Rightarrow> ('m, 'e) wire_parsed" where
  "msg_parse_choke w input = and_then (read_header w input) (\<lambda>(rest, _). Ok (rest, Ok Choke))"

definition msg_parse_unchoke :: "wire \<Rightarrow> bytes \<Rightarrow> ('m, 'e) wire_parsed" where
  "msg_parse_unchoke w input = and_then (read_header w input) (\<lambda>(rest, _). Ok (rest, Ok UnChoke))"

definition msg_parse_interested :: "wire \<Rightarrow> bytes \<Rightarrow> ('m, 'e) wire_parsed" where
  "msg_parse_interested w input = and_then (read_header w input) (\<lambda>(rest, _). Ok (rest, Ok Interested))"

definition msg_parse_uninterested :: "wire \<Rightarrow> bytes \<Rightarrow> ('m, 'e) wire_parsed" where
  "msg_parse_uninterested w input = and_then (read_header w input) (\<lambda>(rest, _). Ok (rest, Ok UnInterested))"

definition msg_parse_have :: "wire \<Rightarrow> bytes \<Rightarrow> ('m, 'e) wire_parsed" where
  "msg_parse_have w input =
    and_then (read_header w input) (\<lambda>(rest, _).
    and_then (ok_or NomError (nom_take w 4 rest)) (\<lambda>(rest, have).
      Ok (rest, and_then (have_parse_bytes w have) (\<lambda>m. Ok (Have m)))))"

definition msg_parse_bitfield :: "wire \<Rightarrow> bytes \<Rightarrow> ('m, 'e) wire_parsed" where
  "msg_parse_bitfield w input =
    and_then (read_header w input) (\<lambda>(rest, _).
    and_then (ok_or NomError (nom_take w 4 rest)) (\<lambda>(rest, field).
      Ok (rest, and_then (bitfield_parse_bytes field) (\<lambda>m. Ok (BitField m)))))"

definition msg_parse_request :: "wire \<Rightarrow> bytes \<Rightarrow> ('m, 'e) wire_parsed" where
  "msg_parse_request w input =
    and_then (read_header w input) (\<lambda>(rest, _).
    and_then (ok_or NomError (nom_take w 4 rest)) (\<lambda>(rest, request).
      Ok (rest, and_then (request_parse_bytes w request) (\<lambda>m. Ok (Request m)))))"

definition msg_parse_piece :: "wire \<Rightarrow> bytes \<Rightarrow> ('m, 'e) wire_parsed" where
  "msg_parse_piece w input =
    and_then (read_header w input) (\<lambda>(rest, _).
    and_then (ok_or NomError (nom_take w 4 rest)) (\<lambda>(rest, piece).
    and_then (parse_message_length w piece) (\<lambda>len.
      case piece_parse_bytes w piece len of
        Panic \<Rightarrow> Panic
      | res \<Rightarrow> Ok (rest, and_then res (\<lambda>m. Ok (Piece m))))))"

definition msg_parse_cancel :: "wire \<Rightarrow> bytes \<Rightarrow> ('m, 'e) wire_parsed" where
  "msg_parse_cancel w input =
    and_then (read_header w input) (\<lambda>(rest, _).
    and_then (ok_or NomError (nom_take w 4 rest)) (\<lambda>(rest, cancel).
      Ok (rest, and_then (cancel_parse_bytes w cancel) (\<lambda>m. Ok (Cancel m)))))"

definition msg_parse_bits_extension :: "wire \<Rightarrow> bytes \<Rightarrow> ('m, 'e) wire_parsed" where
  "msg_parse_bits_extension w input =
    and_then (bits_parse_bytes w input) (\<lambda>(rest, res_bits_ext).
      Ok (rest, and_then res_bits_ext (\<lambda>m. Ok (BitsExtension m))))"

definition msg_parse_prot_extension ::
    "('p, 'm, 'e, 'z) protocol_scheme \<Rightarrow> bytes \<Rightarrow> 'p \<Rightarrow> ('m, 'e) wire_parsed \<times> 'p" where
  "msg_parse_prot_extension P input ext_protocol =
    (let (res, ext_protocol) = p_parse_bytes P ext_protocol input
     in (case res of
           Ok msg \<Rightarrow> Ok (input, Ok (ProtExtension msg))
         | Err _ \<Rightarrow> Err NomError
         | Panic \<Rightarrow> Panic, ext_protocol))"

text \<open>\<^verbatim>\<open>alt\<close>: the first alternative that does not fail with a recoverable error.\<close>

fun alt_all :: "(bytes \<Rightarrow> 'a parsed) list \<Rightarrow> bytes \<Rightarrow> 'a parsed" where
  "alt_all [] bs = Err NomError"
| "alt_all (p # ps) bs = (case p bs of Err NomError \<Rightarrow> alt_all ps bs | r \<Rightarrow> r)"

definition parse_message ::
    "wire \<Rightarrow> ('p, 'm, 'e, 'z) protocol_scheme \<Rightarrow> bytes \<Rightarrow> 'p \<Rightarrow> ('m, 'e) wire_parsed \<times> 'p" where
  "parse_message w P bs ext_protocol =
    (case alt_all [msg_parse_keep_alive w, msg_parse_choke w, msg_parse_unchoke w, msg_parse_interested w,
         msg_parse_uninterested w, msg_parse_have w, msg_parse_bitfield w, msg_parse_request w,
         msg_parse_piece w, msg_parse_cancel w, msg_parse_bits_extension w] bs of
       Err NomError \<Rightarrow> msg_parse_prot_extension P bs ext_protocol
     | res \<Rightarrow> (res, ext_protocol))"

definition message_parse_bytes ::
    "wire \<Rightarrow> ('p, 'm, 'e, 'z) protocol_scheme \<Rightarrow> bytes \<Rightarrow> 'p \<Rightarrow> (io_error, ('m, 'e) wire_message) outcome \<times> 'p" where
  "message_parse_bytes w P bs ext_protocol =
    (let (res, ext_protocol) = parse_message w P bs ext_protocol
     in (case res of
           Ok (_, result) \<Rightarrow> result
         | Err _ \<Rightarrow> Err (IoOther ''Failed To Parse PeerWireProtocolMessage'')
         | Panic \<Rightarrow> Panic, ext_protocol))"

fun message_write_bytes ::
    "wire \<Rightarrow> ('p, 'm, 'e, 'z) protocol_scheme \<Rightarrow> ('m, 'e) wire_message \<Rightarrow> 'p \<Rightarrow> io_error written \<times> 'p" where
  "message_write_bytes w P KeepAlive p = (write_length_id_pair w KEEP_ALIVE_MESSAGE_LEN None, p)"
| "message_write_bytes w P Choke p = (write_length_id_pair w CHOKE_MESSAGE_LEN (Some CHOKE_MESSAGE_ID), p)"
| "message_write_bytes w P UnChoke p = (write_length_id_pair w UNCHOKE_MESSAGE_LEN (Some UNCHOKE_MESSAGE_ID), p)"
| "message_write_bytes w P Interested p =
    (write_length_id_pair w INTERESTED_MESSAGE_LEN (Some INTERESTED_MESSAGE_ID), p)"
| "message_write_bytes w P UnInterested p =
    (write_length_id_pair w UNINTERESTED_MESSAGE_LEN (Some UNINTERESTED_MESSAGE_ID), p)"
| "message_write_bytes w P (Have msg) p = (have_write_bytes w msg, p)"
| "message_write_bytes w P (BitField msg) p = (bitfield_write_bytes w msg, p)"
| "message_write_bytes w P (Request msg) p = (request_write_bytes w msg, p)"
| "message_write_bytes w P (Piece msg) p = (piece_write_bytes w msg, p)"
| "message_write_bytes w P (Cancel msg) p = (cancel_write_bytes w msg, p)"
| "message_write_bytes w P (BitsExtension ext) p = (bits_write_bytes w ext, p)"
| "message_write_bytes w P (ProtExtension ext) p = p_write_bytes P p ext"

fun message_specific_len :: "('p, 'm, 'e, 'z) protocol_scheme \<Rightarrow> ('m, 'e) wire_message \<Rightarrow> 'p \<Rightarrow> (io_error, nat) outcome \<times> 'p" where
  "message_specific_len P KeepAlive p = (Ok (unat KEEP_ALIVE_MESSAGE_LEN), p)"
| "message_specific_len P Choke p = (Ok (unat CHOKE_MESSAGE_LEN), p)"
| "message_specific_len P UnChoke p = (Ok (unat UNCHOKE_MESSAGE_LEN), p)"
| "message_specific_len P Interested p = (Ok (unat INTERESTED_MESSAGE_LEN), p)"
| "message_specific_len P UnInterested p = (Ok (unat UNINTERESTED_MESSAGE_LEN), p)"
| "message_specific_len P (Have _) p = (Ok (unat HAVE_MESSAGE_LEN), p)"
| "message_specific_len P (BitField msg) p = (Ok (unat BASE_BITFIELD_MESSAGE_LEN + length (bitfield msg)), p)"
| "message_specific_len P (Request _) p = (Ok (unat REQUEST_MESSAGE_LEN), p)"
| "message_specific_len P (Piece msg) p = (Ok (unat BASE_PIECE_MESSAGE_LEN + length (piece_block msg)), p)"
| "message_specific_len P (Cancel _) p = (Ok (unat CANCEL_MESSAGE_LEN), p)"
| "message_specific_len P (BitsExtension ext) p = (Ok (bits_message_size ext), p)"
| "message_specific_len P (ProtExtension ext) p = p_message_size P p ext"

definition message_size :: "('p, 'm, 'e, 'z) protocol_scheme \<Rightarrow> ('m, 'e) wire_message \<Rightarrow> 'p \<Rightarrow> (io_error, nat) outcome \<times> 'p" where
  "message_size P m p =
    (let (res, p) = message_specific_len P m p
     in (and_then res (\<lambda>len. Ok (MESSAGE_LENGTH_LEN_BYTES + len)), p))"

section \<open>Protocols\<close>

text \<open>
  \<^verbatim>\<open>NullProtocolMessage\<close> and \<^verbatim>\<open>PeerWireProtocolMessageError\<close> are types without values. A type of HOL has
  one, so the two are types of which nothing is known; the branches that would need a value are the
  panics of the code.
\<close>

typedecl null_protocol_message

typedecl wire_message_error

definition null_protocol :: "(unit, null_protocol_message, io_error) nested_protocol" where
  "null_protocol = \<lparr>
    p_bytes_needed = (\<lambda>p _. (Ok (Some 0), p)),
    p_parse_bytes = (\<lambda>p _. (Err (IoOther ''Attempted To Parse Bytes As Null Protocol''), p)),
    p_write_bytes = (\<lambda>p _. (([], Panic), p)),
    p_message_size = (\<lambda>p _. (Ok 0, p)),
    p_received_message = (\<lambda>p _. (0, p)),
    p_sent_message = (\<lambda>p _. (0, p))\<rparr>"

definition unit_protocol :: "(unit, unit, io_error) nested_protocol" where
  "unit_protocol = \<lparr>
    p_bytes_needed = (\<lambda>p _. (Ok (Some 0), p)),
    p_parse_bytes = (\<lambda>p _. (Ok (Ok ()), p)),
    p_write_bytes = (\<lambda>p _. (([], Ok 0), p)),
    p_message_size = (\<lambda>p _. (Ok 0, p)),
    p_received_message = (\<lambda>p _. (0, p)),
    p_sent_message = (\<lambda>p _. (0, p))\<rparr>"

record 'p peer_extension_protocol =
  our_extended_msg :: "extended_message option"
  their_extended_msg :: "extended_message option"
  custom_protocol :: 'p

definition peer_extension_new :: "'p \<Rightarrow> 'p peer_extension_protocol" where
  "peer_extension_new p = \<lparr>our_extended_msg = None, their_extended_msg = None, custom_protocol = p\<rparr>"

definition extension_parse_bytes ::
    "wire \<Rightarrow> ('p, 'm, 'e, 'z) protocol_scheme \<Rightarrow> 'p peer_extension_protocol \<Rightarrow> bytes \<Rightarrow>
     ('m, 'e) ext_parse_result \<times> 'p peer_extension_protocol" where
  "extension_parse_bytes w P self bs =
    (case our_extended_msg self of
       Some extended_msg \<Rightarrow>
         let (res, custom) = ext_parse_bytes w P bs extended_msg (custom_protocol self)
         in (res, self\<lparr>custom_protocol := custom\<rparr>)
     | None \<Rightarrow> (Err (IoOther ''Extension Message Received From Peer Before Extended Message...''), self))"

definition extension_write_bytes ::
    "wire \<Rightarrow> ('p, 'm, 'e, 'z) protocol_scheme \<Rightarrow> 'p peer_extension_protocol \<Rightarrow>
     (ext_protocol_error, ('m, 'e) ext_protocol_message) outcome \<Rightarrow> io_error written \<times> 'p peer_extension_protocol" where
  "extension_write_bytes w P self item =
    (case item of
       Ok message \<Rightarrow>
         (case their_extended_msg self of
            Some extended_msg \<Rightarrow>
              let (res, custom) = ext_write_bytes w P message extended_msg (custom_protocol self)
              in (res, self\<lparr>custom_protocol := custom\<rparr>)
          | None \<Rightarrow> (([], Err (IoOther ''Extension Message Sent From Us Before Extended Message...'')), self))
     | Err _ \<Rightarrow> (([], Err IoInvalidInput), self)
     | Panic \<Rightarrow> (([], Panic), self))"

definition extension_message_size ::
    "('p, 'm, 'e, 'z) protocol_scheme \<Rightarrow> 'p peer_extension_protocol \<Rightarrow>
     (ext_protocol_error, ('m, 'e) ext_protocol_message) outcome \<Rightarrow>
     (io_error, nat) outcome \<times> 'p peer_extension_protocol" where
  "extension_message_size P self item =
    (case item of
       Ok message \<Rightarrow>
         let (res, custom) = ext_message_size P message (custom_protocol self)
         in (res, self\<lparr>custom_protocol := custom\<rparr>)
     | Err _ \<Rightarrow> (Err IoInvalidInput, self)
     | Panic \<Rightarrow> (Panic, self))"

definition extension_received_message ::
    "('p, 'm, 'e) nested_protocol \<Rightarrow> 'p peer_extension_protocol \<Rightarrow> extended_message \<Rightarrow> nat \<times> 'p peer_extension_protocol" where
  "extension_received_message P self message =
    (let (n, custom) = p_received_message P (custom_protocol self) message
     in (n, self\<lparr>their_extended_msg := Some message, custom_protocol := custom\<rparr>))"

definition extension_sent_message ::
    "('p, 'm, 'e) nested_protocol \<Rightarrow> 'p peer_extension_protocol \<Rightarrow> extended_message \<Rightarrow> nat \<times> 'p peer_extension_protocol" where
  "extension_sent_message P self message =
    (let (n, custom) = p_sent_message P (custom_protocol self) message
     in (n, self\<lparr>our_extended_msg := Some message, custom_protocol := custom\<rparr>))"

definition extension_protocol ::
    "wire \<Rightarrow> ('p, 'm, 'e) nested_protocol \<Rightarrow>
     ('p peer_extension_protocol, ('m, 'e) ext_protocol_message, ext_protocol_error) nested_protocol" where
  "extension_protocol w P = \<lparr>
    p_bytes_needed = (\<lambda>self bs. (wire_bytes_needed w bs, self)),
    p_parse_bytes = extension_parse_bytes w P,
    p_write_bytes = extension_write_bytes w P,
    p_message_size = extension_message_size P,
    p_received_message = extension_received_message P,
    p_sent_message = extension_sent_message P\<rparr>"

record 'p peer_wire_protocol =
  ext_protocol :: 'p

definition peer_wire_new :: "'p \<Rightarrow> 'p peer_wire_protocol" where
  "peer_wire_new p = \<lparr>ext_protocol = p\<rparr>"

definition wire_parse_bytes ::
    "wire \<Rightarrow> ('p, 'm, 'e) nested_protocol \<Rightarrow> 'p peer_wire_protocol \<Rightarrow> bytes \<Rightarrow>
     (io_error, (wire_message_error, ('m, 'e) wire_message) outcome) outcome \<times> 'p peer_wire_protocol" where
  "wire_parse_bytes w P self bs =
    (let (res, ext) = message_parse_bytes w P bs (ext_protocol self) in
     case res of
       Ok (BitsExtension (Extended msg)) \<Rightarrow>
         let (_, ext) = p_received_message P ext msg
         in (Ok (Ok (BitsExtension (Extended msg))), self\<lparr>ext_protocol := ext\<rparr>)
     | Ok other \<Rightarrow> (Ok (Ok other), self\<lparr>ext_protocol := ext\<rparr>)
     | Err e \<Rightarrow> (Err e, self\<lparr>ext_protocol := ext\<rparr>)
     | Panic \<Rightarrow> (Panic, self\<lparr>ext_protocol := ext\<rparr>))"

definition wire_write_bytes ::
    "wire \<Rightarrow> ('p, 'm, 'e) nested_protocol \<Rightarrow> 'p peer_wire_protocol \<Rightarrow> (wire_message_error, ('m, 'e) wire_message) outcome \<Rightarrow>
     io_error written \<times> 'p peer_wire_protocol" where
  "wire_write_bytes w P self item =
    (case item of
       Ok message \<Rightarrow>
         let ((out, res), ext) = message_write_bytes w P message (ext_protocol self)
         in (case (res, message) of
               (Ok _, BitsExtension (Extended extended_message)) \<Rightarrow>
                 let (n, ext) = p_sent_message P ext extended_message
                 in ((out, Ok n), self\<lparr>ext_protocol := ext\<rparr>)
             | _ \<Rightarrow> ((out, res), self\<lparr>ext_protocol := ext\<rparr>))
     | _ \<Rightarrow> (([], Panic), self))"

definition wire_message_size ::
    "('p, 'm, 'e, 'z) protocol_scheme \<Rightarrow> 'p peer_wire_protocol \<Rightarrow> (wire_message_error, ('m, 'e) wire_message) outcome \<Rightarrow>
     (io_error, nat) outcome \<times> 'p peer_wire_protocol" where
  "wire_message_size P self item =
    (case item of
       Ok message \<Rightarrow>
         let (res, ext) = message_size P message (ext_protocol self) in (res, self\<lparr>ext_protocol := ext\<rparr>)
     | _ \<Rightarrow> (Panic, self))"

definition wire_protocol ::
    "wire \<Rightarrow> ('p, 'm, 'e) nested_protocol \<Rightarrow> ('p peer_wire_protocol, ('m, 'e) wire_message, wire_message_error) protocol" where
  "wire_protocol w P = \<lparr>
    p_bytes_needed = (\<lambda>self bs. (wire_bytes_needed w bs, self)),
    p_parse_bytes = wire_parse_bytes w P,
    p_write_bytes = wire_write_bytes w P,
    p_message_size = wire_message_size P\<rparr>"

section \<open>Codec\<close>

text \<open>
  The error type of a protocol item is wrapped in an \<^verbatim>\<open>io::Error\<close> by the decoder; \<open>CodecItem\<close> keeps it.
  Reserving space in the destination buffer changes no byte of it and is left out.
\<close>

datatype 'e codec_error = CodecIo io_error | CodecItem 'e

record 'p peer_protocol_codec =
  codec_protocol :: 'p
  max_payload :: "nat option"

definition codec_new :: "'p \<Rightarrow> 'p peer_protocol_codec" where
  "codec_new p = \<lparr>codec_protocol = p, max_payload = None\<rparr>"

definition codec_with_max_payload :: "'p \<Rightarrow> nat \<Rightarrow> 'p peer_protocol_codec" where
  "codec_with_max_payload p n = \<lparr>codec_protocol = p, max_payload = Some n\<rparr>"

definition codec_parse ::
    "('p, 'm, 'e, 'z) protocol_scheme \<Rightarrow> 'p peer_protocol_codec \<Rightarrow> bytes \<Rightarrow>
     ('e codec_error, 'm option) outcome \<times> 'p peer_protocol_codec" where
  "codec_parse P self bs =
    (let (res, p) = p_parse_bytes P (codec_protocol self) bs
     in (case res of
           Ok (Ok m) \<Rightarrow> Ok (Some m)
         | Ok (Err e) \<Rightarrow> Err (CodecItem e)
         | Err e \<Rightarrow> Err (CodecIo e)
         | _ \<Rightarrow> Panic, self\<lparr>codec_protocol := p\<rparr>))"

definition codec_decode ::
    "('p, 'm, 'e, 'z) protocol_scheme \<Rightarrow> 'p peer_protocol_codec \<Rightarrow> bytes \<Rightarrow>
     ('e codec_error, 'm option) outcome \<times> 'p peer_protocol_codec \<times> bytes" where
  "codec_decode P self src =
    (let (res, p) = p_bytes_needed P (codec_protocol self) src; self = self\<lparr>codec_protocol := p\<rparr> in
     case res of
       Err e \<Rightarrow> (Err (CodecIo e), self, src)
     | Panic \<Rightarrow> (Panic, self, src)
     | Ok None \<Rightarrow> (Ok None, self, src)
     | Ok (Some bytes_needed) \<Rightarrow>
         if (case max_payload self of Some limit \<Rightarrow> limit < bytes_needed | None \<Rightarrow> False) then
           (Err (CodecIo (IoOther ''PeerProtocolCodec Enforced Maximum Payload Check For Peer'')), self, src)
         else if bytes_needed \<le> length src then
           let (res, self) = codec_parse P self (take bytes_needed src) in (res, self, drop bytes_needed src)
         else (Ok None, self, src))"

definition codec_encode ::
    "('p, 'm, 'e, 'z) protocol_scheme \<Rightarrow> 'p peer_protocol_codec \<Rightarrow> (io_error, 'm) outcome \<Rightarrow> bytes \<Rightarrow>
     (io_error, unit) outcome \<times> 'p peer_protocol_codec \<times> bytes" where
  "codec_encode P self item dst =
    (case item of
       Err e \<Rightarrow> (Err e, self, dst)
     | Panic \<Rightarrow> (Panic, self, dst)
     | Ok m \<Rightarrow>
         let (size, p) = p_message_size P (codec_protocol self) (Ok m); self = self\<lparr>codec_protocol := p\<rparr> in
         case size of
           Err e \<Rightarrow> (Err e, self, dst)
         | Panic \<Rightarrow> (Panic, self, dst)
         | Ok _ \<Rightarrow>
             let ((out, res), p) = p_write_bytes P (codec_protocol self) (Ok m)
             in (and_then res (\<lambda>_. Ok ()), self\<lparr>codec_protocol := p\<rparr>, dst @ out))"

end
