(* ===== verification/Peer_Codec.thy ===== *)
theory Peer_Codec
  imports Peer_Wire
begin

text \<open>
  Every message the protocols write is one frame, a length and that many bytes, and the codec cuts
  the stream of frames where the writer did. The contract of a protocol that the codec relies on is
  the locale \<open>framed_protocol\<close>; the protocols nest, and so do the proofs of the contract.
\<close>

section \<open>Frames\<close>

definition frame :: "bytes \<Rightarrow> bool" where
  "frame out \<longleftrightarrow> 4 \<le> length out \<and> length out = 4 + unat (from_be_bytes (take 4 out) :: u32)"

lemma frameI:
  assumes "n < 2 ^ 32" and "length body = n"
  shows "frame (to_be_bytes 4 (of_nat n :: u32) @ body)"
  using assms unat_u32_of_nat [of n] by (simp add: frame_def)

lemma frame_header:
  assumes "wire_spec w" and "u32_of_usize n = Some d" and "length body + 1 = n"
  shows "frame (fst (write_length_id_pair w d (Some i)) @ body)"
  using assms frameI [of n "i # body"]
  by (auto simp: write_length_id_pair_def wireD [OF assms(1)] u32_of_usize_Some)

lemma frame_const: "frame (to_be_bytes 4 (d :: u32) @ body) \<longleftrightarrow> length body = unat d"
  by (auto simp: frame_def)

lemma bytes_needed_frame:
  assumes "wire_spec w" and "frame out"
  shows "wire_bytes_needed w (out @ rest) = Ok (Some (length out))"
  using assms(2) by (simp add: frame_def wire_bytes_needed_def wireD [OF assms(1)] MESSAGE_LENGTH_LEN_BYTES_def u32_to_usize_def)

lemma bytes_needed_prefix:
  assumes "wire_spec w" and "frame (a @ b)"
  shows "wire_bytes_needed w a = Ok (if length a < 4 then None else Some (length (a @ b)))"
  using assms(2)
  by (simp add: frame_def wire_bytes_needed_def wireD [OF assms(1)] MESSAGE_LENGTH_LEN_BYTES_def u32_to_usize_def)

section \<open>The contract of a framed protocol\<close>

definition within :: "'p peer_protocol_codec \<Rightarrow> bytes \<Rightarrow> bool" where
  "within c out \<longleftrightarrow> (case max_payload c of Some limit \<Rightarrow> length out \<le> limit | None \<Rightarrow> True)"

locale framed_protocol =
  fixes P :: "('p, 'm, 'e, 'z) protocol_scheme"
    and ok :: "('e, 'm) outcome \<Rightarrow> bool"
  assumes framed: "\<lbrakk>ok item; p_write_bytes P p item = ((out, Ok n), p')\<rbrakk> \<Longrightarrow> frame out"

locale framed_stream = framed_protocol P ok
  for P :: "('p, 'm, 'e, 'z) protocol_scheme" and ok +
  fixes w :: wire
  assumes spec: "wire_spec w"
    and needed: "p_bytes_needed P p bs = (wire_bytes_needed w bs, p)"
begin

lemma encode_frame:
  assumes "ok (Ok m)" and "codec_encode P c (Ok m) dst = (Ok (), c', dst')"
  shows "\<exists>out. dst' = dst @ out \<and> frame out"
  using assms by (auto simp: codec_encode_def Let_def and_then_eq_Ok split: prod.splits outcome.splits dest: framed)

lemma decode_frame:
  assumes "frame out" and "within c out"
  shows "codec_decode P c (out @ rest) = (let (res, c') = codec_parse P c out in (res, c', rest))"
  using assms bytes_needed_frame [OF spec, of out rest]
  by (auto simp: codec_decode_def needed within_def Let_def split: option.splits)

lemma decode_too_long:
  assumes "frame out" and "\<not> within c out"
  shows "codec_decode P c (out @ rest) =
    (Err (CodecIo (IoOther ''PeerProtocolCodec Enforced Maximum Payload Check For Peer'')), c, out @ rest)"
  using assms bytes_needed_frame [OF spec, of out rest]
  by (auto simp: codec_decode_def needed within_def Let_def split: option.splits)

lemma decode_prefix:
  assumes "frame (a @ b)" and "b \<noteq> []" and "within c (a @ b)"
  shows "codec_decode P c a = (Ok None, c, a)"
  using assms bytes_needed_prefix [OF spec assms(1)]
  by (auto simp: codec_decode_def needed within_def Let_def split: option.splits)

end

section \<open>The protocols keep the contract\<close>

interpretation null_framed: framed_protocol null_protocol "\<lambda>_. True"
  by unfold_locales (simp add: null_protocol_def)

definition extension_ok :: "(('e, 'm) outcome \<Rightarrow> bool) \<Rightarrow> (ext_protocol_error, ('m, 'e) ext_protocol_message) outcome \<Rightarrow> bool" where
  "extension_ok ok item \<longleftrightarrow>
    (case item of Ok (ExtUtMetadata m) \<Rightarrow> ut_built m | Ok (ExtCustom c) \<Rightarrow> ok c | _ \<Rightarrow> True)"

lemma ext_write_framed:
  assumes "wire_spec w" and "framed_protocol P ok" and "extension_ok ok (Ok m)"
    and "ext_write_bytes w P m extended p = ((out, Ok n), p')"
  shows "frame out"
proof (cases m)
  case (ExtUtMetadata msg)
  have "ut_message_size msg = length (ut_write_bytes msg)"
    using assms(3) ExtUtMetadata by (simp add: extension_ok_def ut_message_size_built)
  moreover obtain i len where "u32_of_usize (2 + ut_message_size msg) = Some len"
    and "out = fst (write_length_id_pair w len (Some EXTENDED_MESSAGE_ID)) @ i # ut_write_bytes msg"
    using assms(4) ExtUtMetadata by (auto simp: Let_def split: option.splits prod.splits)
  ultimately show ?thesis using frame_header [OF assms(1)] by simp
next
  case (ExtCustom c)
  then show ?thesis
    using assms(3,4) framed_protocol.framed [OF assms(2), of c] by (auto simp: extension_ok_def)
qed

lemma extension_framed:
  assumes "wire_spec w" and "framed_protocol P ok"
  shows "framed_protocol (extension_protocol w P) (extension_ok ok)"
proof
  fix item p out n p'
  assume ok: "extension_ok ok item" and wr: "p_write_bytes (extension_protocol w P) p item = ((out, Ok n), p')"
  then obtain m extended c where "item = Ok m"
    and "ext_write_bytes w P m extended (custom_protocol p) = ((out, Ok n), c)"
    by (auto simp: extension_protocol_def extension_write_bytes_def Let_def
        split: outcome.splits option.splits prod.splits)
  then show "frame out" using ext_write_framed [OF assms] ok by auto
qed

definition wire_ok :: "(('e, 'm) outcome \<Rightarrow> bool) \<Rightarrow> (wire_message_error, ('m, 'e) wire_message) outcome \<Rightarrow> bool" where
  "wire_ok ok item \<longleftrightarrow> (case item of Ok (ProtExtension x) \<Rightarrow> ok x | _ \<Rightarrow> True)"

lemma bits_write_framed:
  assumes "wire_spec w" and "bits_write_bytes w m = (out, Ok n)"
  shows "frame out"
proof (cases m)
  case (Port p)
  then show ?thesis
    using assms(2) frame_const [of PORT_MESSAGE_LEN "PORT_MESSAGE_ID # to_be_bytes 2 (dht_port p)"]
    by (auto simp: port_write_bytes_def write_length_id_pair_def wireD [OF assms(1)] PORT_MESSAGE_LEN_def)
next
  case (Extended e)
  then obtain len where "u32_of_usize (bencode_size e + 2) = Some len"
    and "out = fst (write_length_id_pair w len (Some EXTENDED_MESSAGE_ID)) @ EXTENDED_MESSAGE_HANDSHAKE_ID # raw_bencode e"
    using assms(2) by (auto simp: extended_write_bytes_def Let_def split: option.splits prod.splits)
  then show ?thesis using frame_header [OF assms(1)] by (simp add: bencode_size_def)
qed

lemma standard_write_framed:
  assumes "wire_spec w"
  shows "have_write_bytes w h = (out, Ok n) \<Longrightarrow> frame out"
    and "bitfield_write_bytes w b = (out, Ok n) \<Longrightarrow> frame out"
    and "request_write_bytes w r = (out, Ok n) \<Longrightarrow> frame out"
    and "piece_write_bytes w p = (out, Ok n) \<Longrightarrow> frame out"
    and "cancel_write_bytes w c = (out, Ok n) \<Longrightarrow> frame out"
proof -
  show "have_write_bytes w h = (out, Ok n) \<Longrightarrow> frame out"
    using have_roundtrip(1) [OF assms, of h] frame_const [of 5 "4 # to_be_bytes 4 (have_piece_index h)"] by auto
  show "frame out" if wr: "bitfield_write_bytes w b = (out, Ok n)"
  proof -
    have len: "length (bitfield b) + 1 < 2 ^ 32"
      using wr by (auto simp: bitfield_write_bytes_def u32_of_usize_Some unat_u32_of_nat split: option.splits if_splits)
    then show ?thesis
      using wr bitfield_roundtrip(1) [OF assms len] frameI [OF len, of "5 # bitfield b"] by simp
  qed
  show "frame out" if wr: "request_write_bytes w r = (out, Ok n)"
  proof -
    have len: "req_block_length r < 2 ^ 32"
      using wr by (auto simp: request_write_bytes_def Let_def u32_of_usize_Some split: option.splits prod.splits)
    obtain body where "request_write_bytes w r = (to_be_bytes 4 (13 :: u32) @ [6] @ body, Ok 17)" and "length body = 12"
      using request_roundtrip [OF assms len] by blast
    then show ?thesis using wr frame_const [of 13 "6 # body"] by simp
  qed
  show "frame out" if wr: "piece_write_bytes w p = (out, Ok n)"
  proof -
    have len: "length (piece_block p) + 9 < 2 ^ 32"
      using wr by (auto simp: piece_write_bytes_def Let_def u32_of_usize_Some piece_block_length_def
          split: option.splits prod.splits)
    obtain body where "piece_write_bytes w p =
        (to_be_bytes 4 (of_nat (length (piece_block p) + 9) :: u32) @ [7] @ body, Ok (13 + length (piece_block p)))"
      and "length body = length (piece_block p) + 8"
      using piece_roundtrip [OF assms len] by blast
    then show ?thesis using wr frameI [OF len, of "7 # body"] by simp
  qed
  show "frame out" if wr: "cancel_write_bytes w c = (out, Ok n)"
  proof -
    have len: "cancel_block_length c < 2 ^ 32"
      using wr by (auto simp: cancel_write_bytes_def Let_def u32_of_usize_Some split: option.splits prod.splits)
    obtain body where "cancel_write_bytes w c = (to_be_bytes 4 (13 :: u32) @ [8] @ body, Ok 17)" and "length body = 12"
      using cancel_roundtrip [OF assms len] by blast
    then show ?thesis using wr frame_const [of 13 "8 # body"] by simp
  qed
qed

lemma simple_write_framed:
  assumes "wire_spec w"
  shows "write_length_id_pair w 0 None = (out, Ok n) \<Longrightarrow> frame out"
    and "write_length_id_pair w 1 (Some i) = (out, Ok n) \<Longrightarrow> frame out"
  using frame_const [of 0 "[]"] frame_const [of 1 "[i]"]
  by (auto simp: write_length_id_pair_def wireD [OF assms])

lemma message_write_framed:
  assumes "wire_spec w" and "framed_protocol P ok" and "wire_ok ok (Ok m)"
    and "message_write_bytes w P m p = ((out, Ok n), p')"
  shows "frame out"
  using assms(3,4)
  by (cases m) (auto simp: wire_ok_def message_len_defs dest: framed_protocol.framed [OF assms(2)]
      bits_write_framed [OF assms(1)] standard_write_framed [OF assms(1)] simple_write_framed [OF assms(1)])

lemma wire_framed:
  assumes "wire_spec w" and "framed_protocol P ok"
  shows "framed_protocol (wire_protocol w P) (wire_ok ok)"
proof
  fix item p out n p'
  assume ok: "wire_ok ok item" and wr: "p_write_bytes (wire_protocol w P) p item = ((out, Ok n), p')"
  then obtain m k q where "item = Ok m" and "message_write_bytes w P m (ext_protocol p) = ((out, Ok k), q)"
    by (auto simp: wire_protocol_def wire_write_bytes_def Let_def
        split: outcome.splits prod.splits wire_message.splits bits_extension_message.splits)
  then show "frame out" using message_write_framed [OF assms] ok by auto
qed

lemma wire_framed_stream:
  assumes "wire_spec w" and "framed_protocol P ok"
  shows "framed_stream (wire_protocol w P) (wire_ok ok) w"
proof -
  have "framed_protocol (wire_protocol w P) (wire_ok ok)" by (rule wire_framed [OF assms])
  then show ?thesis
    by (rule framed_stream.intro) (unfold_locales, simp_all add: assms(1) wire_protocol_def)
qed

interpretation extension_null_framed:
    framed_protocol "extension_protocol big_endian null_protocol" "extension_ok (\<lambda>_. True)"
  by (rule extension_framed [OF wire_spec_big_endian null_framed.framed_protocol_axioms])

interpretation wire_stream:
    framed_stream "wire_protocol big_endian (extension_protocol big_endian null_protocol)"
      "wire_ok (extension_ok (\<lambda>_. True))" big_endian
  by (rule wire_framed_stream [OF wire_spec_big_endian extension_null_framed.framed_protocol_axioms])

end
