(* ===== verification/Peer_Properties.thy ===== *)
theory Peer_Properties
  imports Peer_Codec
begin

text \<open>
  What the peer wire protocol promises: frames on the stream, message bodies that survive the wire,
  the extended handshake, metadata messages through the nested protocol, and the places where the
  code departs from it. Each property with hypotheses is followed by a concrete instance.
\<close>

section \<open>Shared facts\<close>

lemma short_input_fails:
  assumes "wire_spec w" and "length bs < 4"
  shows "alt_all [msg_parse_keep_alive w, msg_parse_choke w, msg_parse_unchoke w, msg_parse_interested w,
      msg_parse_uninterested w, msg_parse_have w, msg_parse_bitfield w, msg_parse_request w, msg_parse_piece w,
      msg_parse_cancel w, msg_parse_bits_extension w] bs = (Err NomError :: ('m, 'e) wire_parsed)"
  using assms(2)
  by (simp add: msg_parse_keep_alive_def msg_parse_choke_def msg_parse_unchoke_def msg_parse_interested_def
      msg_parse_uninterested_def msg_parse_have_def msg_parse_bitfield_def msg_parse_request_def
      msg_parse_piece_def msg_parse_cancel_def msg_parse_bits_extension_def read_header_def bits_parse_bytes_def
      bits_port_fn_def bits_ext_fn_def wireD [OF assms(1)])

lemma keep_alive_first:
  assumes "wire_spec w" and "4 \<le> length bs"
  shows "msg_parse_keep_alive w bs = Ok (drop 5 bs, Ok KeepAlive)"
proof (cases "drop 4 bs")
  case Nil
  then show ?thesis using assms(2) by (simp add: msg_parse_keep_alive_def wireD [OF assms(1)])
next
  case (Cons b rest)
  then have "drop 5 bs = rest" by (metis add_Suc_shift drop0 drop_Suc_Cons drop_drop eval_nat_numeral(3) plus_1_eq_Suc One_nat_def)
  then show ?thesis using assms(2) Cons by (simp add: msg_parse_keep_alive_def wireD [OF assms(1)])
qed

lemma long_input_keep_alive:
  assumes "wire_spec w" and "4 \<le> length bs"
  shows "message_parse_bytes w P bs p = (Ok KeepAlive, p)"
  by (simp add: message_parse_bytes_def parse_message_def keep_alive_first [OF assms])

section \<open>The stream\<close>

text \<open>
  C19. The codec cuts the stream where the writer did. What encoding a message appends to the buffer
  is decoded as one unit, whatever follows it: the decoder removes exactly these bytes. While some
  of them are missing, it returns nothing and leaves the buffer alone. A message longer than the
  payload limit is refused with an error.
\<close>

theorem codec_keeps_frames:
  assumes "wire_spec w" and "framed_protocol P ok" and "wire_ok ok (Ok m)"
    and "codec_encode (wire_protocol w P) c (Ok m) dst = (Ok (), c', dst')"
  shows "\<exists>out. dst' = dst @ out \<and>
    (\<forall>d rest. within d out \<longrightarrow> snd (snd (codec_decode (wire_protocol w P) d (out @ rest))) = rest) \<and>
    (\<forall>d k. within d out \<and> k < length out \<longrightarrow>
      codec_decode (wire_protocol w P) d (take k out) = (Ok None, d, take k out)) \<and>
    (\<forall>d rest. \<not> within d out \<longrightarrow>
      (\<exists>e. codec_decode (wire_protocol w P) d (out @ rest) = (Err e, d, out @ rest)))"
proof -
  note st = wire_framed_stream [OF assms(1,2)]
  obtain out where out: "dst' = dst @ out" "frame out"
    using framed_stream.encode_frame [OF st assms(3,4)] by blast
  have "codec_decode (wire_protocol w P) d (take k out) = (Ok None, d, take k out)"
    if "within d out" and "k < length out" for d k
    using framed_stream.decode_prefix [OF st, of "take k out" "drop k out" d] out(2) that by simp
  moreover have "snd (snd (codec_decode (wire_protocol w P) d (out @ rest))) = rest" if "within d out" for d rest
    using framed_stream.decode_frame [OF st out(2) that] by (simp add: Let_def split: prod.split)
  ultimately show ?thesis
    using out(1) framed_stream.decode_too_long [OF st out(2)] by blast
qed

definition demo_codec :: "unit peer_extension_protocol peer_wire_protocol peer_protocol_codec" where
  "demo_codec = codec_with_max_payload (peer_wire_new (peer_extension_new ())) 1000"

abbreviation demo_protocol :: "(unit peer_extension_protocol peer_wire_protocol,
    ((null_protocol_message, io_error) ext_protocol_message, ext_protocol_error) wire_message, wire_message_error) protocol" where
  "demo_protocol \<equiv> wire_protocol big_endian (extension_protocol big_endian null_protocol)"

theorem codec_keeps_frames_witness:
  "codec_decode demo_protocol demo_codec [0, 0, 0, 5, 4, 0, 0, 0] = (Ok None, demo_codec, [0, 0, 0, 5, 4, 0, 0, 0]) \<and>
   snd (snd (codec_decode demo_protocol demo_codec [0, 0, 0, 5, 4, 0, 0, 0, 7, 1, 2])) = [1, 2]"
proof -
  let ?out = "[0, 0, 0, 5, 4, 0, 0, 0, 7] :: bytes"
  have "codec_encode demo_protocol demo_codec (Ok (Have (have_new 7))) [] = (Ok (), demo_codec, ?out)"
    by code_simp
  from codec_keeps_frames [OF wire_spec_big_endian extension_null_framed.framed_protocol_axioms _ this]
  have "within demo_codec ?out \<longrightarrow> snd (snd (codec_decode demo_protocol demo_codec (?out @ [1, 2]))) = [1, 2]"
    and "within demo_codec ?out \<and> 8 < length ?out \<longrightarrow>
      codec_decode demo_protocol demo_codec (take 8 ?out) = (Ok None, demo_codec, take 8 ?out)"
    by (simp_all add: wire_ok_def del: take_Cons_numeral)
  then show ?thesis by (simp add: within_def demo_codec_def codec_with_max_payload_def)
qed

text \<open>
  C24. What the message parser returns for every input. The first alternative, the keep-alive parser,
  reads a length of any value and an optional id, so every input of four bytes or more is a
  keep-alive message and no other message is ever recognised. Shorter inputs go to the nested
  protocol.
\<close>

theorem every_frame_is_keep_alive:
  assumes "wire_spec w"
  shows "message_parse_bytes w P bs p =
    (if 4 \<le> length bs then (Ok KeepAlive, p)
     else case p_parse_bytes P p bs of
       (Ok msg, p') \<Rightarrow> (Ok (ProtExtension msg), p')
     | (Err _, p') \<Rightarrow> (Err (IoOther ''Failed To Parse PeerWireProtocolMessage''), p')
     | (Panic, p') \<Rightarrow> (Panic, p'))"
proof (cases "4 \<le> length bs")
  case True
  then show ?thesis using long_input_keep_alive [OF assms] by simp
next
  case False
  then have "length bs < 4" by simp
  then show ?thesis
    by (simp add: message_parse_bytes_def parse_message_def short_input_fails [OF assms] msg_parse_prot_extension_def
        del: alt_all.simps split: prod.split outcome.split)
qed

theorem every_frame_is_keep_alive_witness:
  "fst (message_parse_bytes big_endian (extension_protocol big_endian null_protocol)
    (fst (have_write_bytes big_endian (have_new 7))) (peer_extension_new ())) = Ok KeepAlive"
  using every_frame_is_keep_alive [OF wire_spec_big_endian, of "extension_protocol big_endian null_protocol"
      "fst (have_write_bytes big_endian (have_new 7))" "peer_extension_new ()"]
  by (simp add: have_roundtrip(1) [OF wire_spec_big_endian])

section \<open>Message bodies\<close>

text \<open>
  C20. The standard messages survive the wire. Each is written as its length, its id and a body of
  the length announced, and the body parser reads the message back. Requests and cancels need a
  block length of 32 bits, pieces and bit fields a body whose length fits.
\<close>

theorem standard_messages_roundtrip:
  assumes "wire_spec w"
  shows "(\<exists>body. have_write_bytes w h = (to_be_bytes 4 (5 :: u32) @ [4] @ body, Ok 9) \<and>
      length body = 4 \<and> have_parse_bytes w body = Ok h) \<and>
    (length (bitfield b) + 1 < 2 ^ 32 \<longrightarrow> (\<exists>body.
      bitfield_write_bytes w b = (to_be_bytes 4 (of_nat (length body + 1) :: u32) @ [5] @ body, Ok (5 + length body)) \<and>
      bitfield_parse_bytes body = Ok b)) \<and>
    (req_block_length r < 2 ^ 32 \<longrightarrow> (\<exists>body. request_write_bytes w r = (to_be_bytes 4 (13 :: u32) @ [6] @ body, Ok 17) \<and>
      length body = 12 \<and> request_parse_bytes w body = Ok r)) \<and>
    (length (piece_block p) + 9 < 2 ^ 32 \<longrightarrow> (\<exists>body.
      piece_write_bytes w p = (to_be_bytes 4 (of_nat (length body + 1) :: u32) @ [7] @ body, Ok (5 + length body)) \<and>
      piece_parse_bytes w body (length body) = Ok p)) \<and>
    (cancel_block_length c < 2 ^ 32 \<longrightarrow> (\<exists>body. cancel_write_bytes w c = (to_be_bytes 4 (13 :: u32) @ [8] @ body, Ok 17) \<and>
      length body = 12 \<and> cancel_parse_bytes w body = Ok c))"
proof (intro conjI impI)
  show "\<exists>body. have_write_bytes w h = (to_be_bytes 4 (5 :: u32) @ [4] @ body, Ok 9) \<and>
      length body = 4 \<and> have_parse_bytes w body = Ok h"
    using have_roundtrip [OF assms, of h] by (intro exI [of _ "to_be_bytes 4 (have_piece_index h)"]) simp
  assume "length (bitfield b) + 1 < 2 ^ 32"
  from bitfield_roundtrip [OF assms this] show "\<exists>body.
      bitfield_write_bytes w b = (to_be_bytes 4 (of_nat (length body + 1) :: u32) @ [5] @ body, Ok (5 + length body)) \<and>
      bitfield_parse_bytes body = Ok b" by blast
next
  assume "req_block_length r < 2 ^ 32"
  from request_roundtrip [OF assms this]
  show "\<exists>body. request_write_bytes w r = (to_be_bytes 4 (13 :: u32) @ [6] @ body, Ok 17) \<and>
      length body = 12 \<and> request_parse_bytes w body = Ok r" by metis
next
  assume "length (piece_block p) + 9 < 2 ^ 32"
  from piece_roundtrip [OF assms this] obtain body where
    "piece_write_bytes w p =
      (to_be_bytes 4 (of_nat (length (piece_block p) + 9) :: u32) @ [7] @ body, Ok (13 + length (piece_block p)))"
    "length body = length (piece_block p) + 8" "piece_parse_bytes w body (length body) = Ok p" by blast
  then show "\<exists>body.
      piece_write_bytes w p = (to_be_bytes 4 (of_nat (length body + 1) :: u32) @ [7] @ body, Ok (5 + length body)) \<and>
      piece_parse_bytes w body (length body) = Ok p" by (intro exI [of _ body]) (simp add: algebra_simps)
next
  assume "cancel_block_length c < 2 ^ 32"
  from cancel_roundtrip [OF assms this]
  show "\<exists>body. cancel_write_bytes w c = (to_be_bytes 4 (13 :: u32) @ [8] @ body, Ok 17) \<and>
      length body = 12 \<and> cancel_parse_bytes w body = Ok c" by metis
qed

theorem standard_messages_roundtrip_witness:
  "\<exists>body. request_write_bytes big_endian (request_new 1 2 16384) = (to_be_bytes 4 (13 :: u32) @ [6] @ body, Ok 17) \<and>
      length body = 12 \<and> request_parse_bytes big_endian body = Ok (request_new 1 2 16384)"
  using standard_messages_roundtrip [OF wire_spec_big_endian, where r = "request_new 1 2 16384"]
  by (simp add: request_new_def)

text \<open>
  C23. Iterating over a bit field ends and yields one message per set bit, in increasing order of
  the piece index, the first piece being the highest bit of the first byte. This holds for fields
  of up to two to the 32 bits, the range of a piece index.
\<close>

theorem bitfield_iterates_set_bits:
  assumes "8 * length (bitfield b) \<le> 2 ^ 32"
  shows "(bitfield_collect (bitfield_iter_of b) :: (io_error, have_message list) outcome) =
    Ok (map (\<lambda>i. have_new (of_nat i)) (filter (bit_at (bitfield b)) [0..<8 * length (bitfield b)]))"
  using bitfield_collect_from [of "bitfield_iter_of b"] assms by (simp add: bitfield_iter_of_def)

theorem bitfield_iterates_set_bits_witness:
  "(bitfield_collect (bitfield_iter_of (bitfield_new [0x81, 0x40])) :: (io_error, have_message list) outcome) =
    Ok [have_new 0, have_new 7, have_new 9]"
proof -
  have "(bitfield_collect (bitfield_iter_of (bitfield_new [0x81, 0x40])) :: (io_error, have_message list) outcome) =
    Ok (map (\<lambda>i. have_new (of_nat i)) (filter (bit_at (bitfield (bitfield_new [0x81, 0x40])))
      [0..<8 * length (bitfield (bitfield_new [0x81, 0x40]))]))"
    by (rule bitfield_iterates_set_bits) (simp add: bitfield_new_def)
  also have "\<dots> = Ok [have_new 0, have_new 7, have_new 9]" by code_simp
  finally show ?thesis .
qed

text \<open>
  C21. The writer and the parser of bit extension messages agree on extended handshakes: from the
  frame of a built message \<^verbatim>\<open>BitsExtensionMessage::parse_bytes\<close> reads every field that the builder was
  given, the same raw dictionary, and the same assignment of message ids to extensions; the order in
  which the ids are listed is not kept. The builder's custom entries must not use the keys of the
  fields. The property is of this parser only. The parser of the whole message tries it after the
  keep-alive parser and takes the same frame for a keep-alive message, so a connected peer does not
  get that far.
\<close>

theorem extended_handshake_roundtrip:
  assumes "wire_spec w" and "builder_wf b" and "length (raw_bencode (builder_build b)) + 2 < 2 ^ 32"
  shows "\<exists>out n ids. bits_write_bytes w (Extended (builder_build b)) = (out, Ok n) \<and>
    bits_parse_bytes w out = Ok (out, Ok (Extended (builder_build b\<lparr>em_id_map := ids\<rparr>))) \<and>
    map_of ids = map_of (b_id_map b) \<and> message_parse_bytes w P out p = (Ok KeepAlive, p)"
proof -
  let ?raw = "raw_bencode (from_builder b)" and ?len = "of_nat (length (raw_bencode (from_builder b)) + 2) :: u32"
  let ?out = "to_be_bytes 4 ?len @ [20, 0] @ ?raw"
  obtain ids where ids: "extended_of_bencode ?raw = Ok (from_builder b\<lparr>em_id_map := ids\<rparr>)"
    "map_of ids = map_of (b_id_map b)"
    using extended_of_bencode_built [OF assms(2)] by blast
  have len: "unat ?len = length ?raw + 2"
    using assms(3) by (intro unat_u32_of_nat) (simp add: builder_build_def)
  have len2: "?len - 2 = of_nat (length ?raw)" by simp
  have "unat (?len - 2) = length ?raw"
    unfolding len2 using assms(3) by (intro unat_u32_of_nat) (simp add: builder_build_def)
  then have "extended_parse_bytes ?raw (?len - 2) = Ok (?raw, Ok (from_builder b\<lparr>em_id_map := ids\<rparr>))"
    using ids(1) by (simp add: extended_parse_bytes_def u32_to_usize_def Let_def)
  then have "bits_parse_bytes w ?out = Ok (?out, Ok (Extended (from_builder b\<lparr>em_id_map := ids\<rparr>)))"
    using len
    by (simp add: bits_parse_bytes_def bits_port_fn_def bits_ext_fn_def wireD(1,2) [OF assms(1)] be_u32_written [OF assms(1)]
        PORT_MESSAGE_ID_def EXTENDED_MESSAGE_ID_def EXTENDED_MESSAGE_HANDSHAKE_ID_def HEADER_LEN_def
        MESSAGE_LENGTH_LEN_BYTES_def MESSAGE_ID_LEN_BYTES_def)
  moreover have "bits_write_bytes w (Extended (from_builder b)) = (?out, Ok (length ?raw + 7))"
    using assms(3) len
    by (simp add: extended_write_bytes_def bencode_size_def u32_of_usize_def write_length_id_pair_def wireD [OF assms(1)]
        builder_build_def EXTENDED_MESSAGE_ID_def EXTENDED_MESSAGE_HANDSHAKE_ID_def)
  moreover have "message_parse_bytes w P ?out p = (Ok KeepAlive, p)"
    by (rule long_input_keep_alive [OF assms(1)]) simp
  ultimately show ?thesis using ids(2) unfolding builder_build_def by blast
qed

definition demo_builder :: extended_builder where
  "demo_builder = with_metadata_size (Some 7) (with_our_tcp_port (Some 9)
    (with_extended_type UtMetadata (Some 3) builder_empty))"

lemma demo_builder_wf: "builder_wf demo_builder"
proof -
  have "from_id (ext_id UtMetadata) = UtMetadata" "from_utf8 (ext_id UtMetadata)" "length (ext_id UtMetadata) = 11"
    by code_simp+
  then show ?thesis
    by (simp add: builder_wf_def demo_builder_def with_metadata_size_def with_our_tcp_port_def with_extended_type_def
        builder_empty_def i64_max_def)
qed

theorem extended_handshake_roundtrip_witness:
  "\<exists>out n ids. bits_write_bytes big_endian (Extended (builder_build demo_builder)) = (out, Ok n) \<and>
    bits_parse_bytes big_endian out = Ok (out, Ok (Extended (builder_build demo_builder\<lparr>em_id_map := ids\<rparr>))) \<and>
    map_of ids = map_of (b_id_map demo_builder) \<and>
    message_parse_bytes big_endian null_protocol out () = (Ok KeepAlive, ())"
proof -
  have "length (raw_bencode (builder_build demo_builder)) = 49" by code_simp
  then show ?thesis by (intro extended_handshake_roundtrip [OF wire_spec_big_endian demo_builder_wf]) simp
qed

section \<open>Metadata messages\<close>

text \<open>
  C22. A metadata message crosses the nested extension protocol. When the receiver has told us an id
  for the metadata extension and has itself announced one, the bytes we write are read as the
  message we sent, and neither side's state changes. The message must be one built by the program
  and its size must fit the length field.
\<close>

theorem ut_metadata_crosses_extension_protocol:
  fixes Q :: "('q, 'm, 'e, 'z) protocol_scheme"
  assumes "wire_spec w" and "ut_built m" and "ut_message_size m + 2 < 2 ^ 32"
    and "their_extended_msg sender = Some theirs" and "query_id theirs UtMetadata = Some i"
    and "our_extended_msg receiver = Some ours" and "query_id ours UtMetadata \<noteq> None"
  shows "\<exists>out n. extension_write_bytes w P sender (Ok (ExtUtMetadata m)) = ((out, Ok n), sender) \<and>
    extension_parse_bytes w Q receiver out = (Ok (Ok (ExtUtMetadata m)), receiver)"
proof -
  let ?body = "ut_write_bytes m"
  let ?len = "of_nat (length ?body + 2) :: u32"
  let ?out = "to_be_bytes 4 ?len @ [20, i] @ ?body"
  have sz: "ut_message_size m = length ?body" by (rule ut_message_size_built [OF assms(2)])
  have len: "unat ?len = length ?body + 2" using assms(3) sz by (intro unat_u32_of_nat) simp
  have "extension_write_bytes w P sender (Ok (ExtUtMetadata m)) = ((?out, Ok (length ?body + 7)), sender)"
    using assms(3,4,5) sz
    by (simp add: extension_write_bytes_def u32_of_usize_def write_length_id_pair_def wireD [OF assms(1)]
        EXTENDED_MESSAGE_ID_def add.commute)
  moreover have "parse_extensions_with_id ?body ours i = (Ok (Ok (ExtUtMetadata m)) :: ('m, 'e) ext_parse_result)"
    using assms(7) ut_roundtrip [OF assms(2)] by (auto simp: parse_extensions_with_id_def)
  then have "ut_metadata_fn w ours ?out = Ok (?out, Ok (Ok (ExtUtMetadata m)) :: ('m, 'e) ext_parse_result)"
    using len
    by (simp add: ut_metadata_fn_def be_u32_written [OF assms(1)] wireD(1,2) [OF assms(1)] EXTENDED_MESSAGE_ID_def
        slice_range_def slice_def EXTENSION_HEADER_LEN_def HEADER_LEN_def MESSAGE_LENGTH_LEN_BYTES_def MESSAGE_ID_LEN_BYTES_def)
  then have "extension_parse_bytes w Q receiver ?out = (Ok (Ok (ExtUtMetadata m)), receiver)"
    using assms(6) by (simp add: extension_parse_bytes_def ext_parse_bytes_def parse_extensions_def)
  ultimately show ?thesis by blast
qed

definition demo_extension :: "unit peer_extension_protocol" where
  "demo_extension = \<lparr>our_extended_msg = Some (builder_build demo_builder),
    their_extended_msg = Some (builder_build demo_builder), custom_protocol = ()\<rparr>"

theorem ut_metadata_crosses_extension_protocol_witness:
  "\<exists>out n. extension_write_bytes big_endian null_protocol demo_extension (Ok (ExtUtMetadata (UtRequest (ut_request_new 3)))) =
      ((out, Ok n), demo_extension) \<and>
    extension_parse_bytes big_endian null_protocol demo_extension out =
      (Ok (Ok (ExtUtMetadata (UtRequest (ut_request_new 3)))), demo_extension)"
proof -
  have "ut_message_size (UtRequest (ut_request_new 3)) = 25" by code_simp
  moreover have "query_id (builder_build demo_builder) UtMetadata = Some 3" by code_simp
  ultimately show ?thesis
    by (intro ut_metadata_crosses_extension_protocol
          [of big_endian _ _ "builder_build demo_builder" 3 _ "builder_build demo_builder"])
      (simp_all add: wire_spec_big_endian demo_extension_def ut_built_sizes)
qed

section \<open>Malformed and oversized messages\<close>

lemma fold_id_map_panic: "fold id_map_step entries Panic = (Panic :: ('e, _) outcome)"
  by (induction entries) (simp_all add: id_map_step_def)

lemma fold_id_map_step_not_Err: "fold id_map_step entries (Ok ids) \<noteq> (Err e :: ('e, _) outcome)"
proof (induction entries arbitrary: ids)
  case (Cons entry entries)
  have "(id_map_step entry (Ok ids) :: ('e, _) outcome) = Panic \<or> (\<exists>ids'. id_map_step entry (Ok ids) = (Ok ids' :: ('e, _) outcome))"
    by (auto simp: id_map_step_def split: prod.split outcome.split option.split)
  then show ?case using Cons by (auto simp: fold_id_map_panic)
qed simp

lemma fold_id_map_bad_entry:
  assumes "(k, v) \<in> set entries" and "ref_int v = Some n" and "from_utf8 k" and "i64_to_u8 n = None"
  shows "fold id_map_step entries (Ok ids) = (Panic :: ('e, _) outcome)"
proof -
  obtain xs ys where split: "entries = xs @ (k, v) # ys" using assms(1) by (blast dest: split_list)
  have "id_map_step (k, v) (Ok ids) = (Panic :: ('e, _) outcome)" for ids
    using assms(2-4) by (simp add: id_map_step_def convert_basics)
  then show ?thesis
    using fold_id_map_step_not_Err [of xs ids, where ?'e = 'e]
    by (cases "fold id_map_step xs (Ok ids) :: ('e, _) outcome") (auto simp: split fold_id_map_panic id_map_step_def [of _ Panic])
qed

text \<open>
  C25. \<^verbatim>\<open>ExtendedMessage::parse_bytes\<close> and the parser of bit extension messages panic on an extended handshake with an
  extension id that does not fit a byte: whatever bytes decode to a dictionary whose id map has one
  entry with a UTF-8 key and an integer outside 0 to 255, canonical or not. The property is of these two public
  parsers: the parser of the whole message takes the same frame for a keep-alive message first.
\<close>

theorem extension_id_out_of_range_panics:
  assumes "wire_spec w" and "bencode_ref_decode raw bdecode_opt_default = Ok root" and "ref_dict root = Some entries"
    and "btm_get entries ID_MAP_KEY = Some m" and "ref_dict m = Some ids"
    and "(k, v) \<in> set ids" and "from_utf8 k" and "ref_int v = Some n" and "sint n < 0 \<or> 255 < sint n"
    and "length raw + 2 < 2 ^ 32"
  shows "extended_parse_bytes (raw @ rest) (of_nat (length raw)) = Panic \<and>
    bits_parse_bytes w (to_be_bytes 4 (of_nat (length raw + 2) :: u32) @ [20, 0] @ raw @ rest) = Panic \<and>
    message_parse_bytes w P (to_be_bytes 4 (of_nat (length raw + 2) :: u32) @ [20, 0] @ raw @ rest) p = (Ok KeepAlive, p)"
proof -
  let ?len = "of_nat (length raw + 2) :: u32"
  have "i64_to_u8 n = None" using assms(9) by (auto simp: i64_to_u8_def)
  then have "(fold id_map_step ids (Ok []) :: (io_error, _) outcome) = Panic"
    using assms(6-8) by (intro fold_id_map_bad_entry)
  then have "(parse_id_map entries :: (io_error, _) outcome) = Panic"
    using assms(4,5) by (simp add: parse_id_map_def lookup_and_convert_dict_def lookup_key_def convert_dict_def)
  then have "extended_of_bencode raw = Panic"
    using assms(2,3) by (simp add: extended_of_bencode_def convert_dict_def)
  moreover have "unat (of_nat (length raw) :: u32) = length raw" using assms(10) by (intro unat_u32_of_nat) simp
  ultimately have ext: "extended_parse_bytes (raw @ rest) (of_nat (length raw)) = Panic"
    by (simp add: extended_parse_bytes_def u32_to_usize_def)
  have len: "unat ?len = length raw + 2" "?len - 2 = of_nat (length raw)"
    using assms(10) unat_u32_of_nat by (blast, simp)
  have "bits_parse_bytes w (to_be_bytes 4 ?len @ [20, 0] @ raw @ rest) = Panic"
    using len ext
    by (simp add: bits_parse_bytes_def bits_port_fn_def bits_ext_fn_def wireD(1,2) [OF assms(1)] be_u32_written [OF assms(1)]
        PORT_MESSAGE_ID_def EXTENDED_MESSAGE_ID_def EXTENDED_MESSAGE_HANDSHAKE_ID_def HEADER_LEN_def
        MESSAGE_LENGTH_LEN_BYTES_def MESSAGE_ID_LEN_BYTES_def)
  moreover have "message_parse_bytes w P (to_be_bytes 4 ?len @ [20, 0] @ raw @ rest) p = (Ok KeepAlive, p)"
    by (rule long_input_keep_alive [OF assms(1)]) simp
  ultimately show ?thesis using ext by blast
qed

text \<open>The number of the entry has a plus sign, which no writer produces.\<close>

theorem extension_id_out_of_range_panics_witness:
  "bits_parse_bytes big_endian (to_be_bytes 4 (18 :: u32) @ [20, 0] @ ascii ''d1:md1:xi+256eee'' @ []) = Panic"
proof -
  let ?raw = "ascii ''d1:md1:xi+256eee''"
  let ?v = "RefInt 256 (ascii ''i+256e'')"
  let ?m = "RefDict [(ascii ''x'', ?v)] (ascii ''d1:xi+256ee'')"
  let ?root = "RefDict [(ID_MAP_KEY, ?m)] ?raw"
  have "bencode_ref_decode ?raw bdecode_opt_default = Ok ?root" and "from_utf8 (ascii ''x'')" and "length ?raw = 16" by code_simp+
  then show ?thesis
    using extension_id_out_of_range_panics [where P = null_protocol and p = "()", OF wire_spec_big_endian, of ?raw ?root "[(ID_MAP_KEY, ?m)]" ?m
        "[(ascii ''x'', ?v)]" "ascii ''x''" ?v 256 "[]"]
    by (simp add: btm_get_def)
qed

text \<open>
  C26. How the sizes the code computes relate to what it writes. For every standard message and the
  port message the reserved size and the returned count are the number of bytes written. For an
  extended handshake the size is four too large and the count one too large. What a nested protocol
  returns for its own messages is passed on.
\<close>

theorem sizes_on_the_wire:
  assumes "wire_spec w" and "message_write_bytes w P m p = ((out, Ok n), p')"
  shows "(case m of
      ProtExtension _ \<Rightarrow> True
    | BitsExtension (Extended _) \<Rightarrow> fst (message_size P m p) = Ok (length out + 4) \<and> n = length out + 1
    | _ \<Rightarrow> fst (message_size P m p) = Ok (length out) \<and> n = length out)"
proof (cases "\<exists>e. m = BitsExtension (Extended e)")
  case True
  then obtain e where e: "m = BitsExtension (Extended e)" by blast
  then have "bencode_size e + 2 < 2 ^ 32"
    using assms(2) by (auto simp: extended_write_bytes_def u32_of_usize_Some split: option.splits)
  from unat_u32_of_nat [OF this] show ?thesis
    using assms(2) e
    by (auto simp: extended_write_bytes_def write_length_id_pair_def u32_of_usize_Some wireD [OF assms(1)] bencode_size_def
        message_size_def MESSAGE_LENGTH_LEN_BYTES_def BASE_EXTENDED_MESSAGE_LEN_def split: option.splits)
next
  case False
  then show ?thesis
    using assms(2)
    by (cases m) (auto simp: message_size_def message_len_defs MESSAGE_LENGTH_LEN_BYTES_def wireD [OF assms(1)]
        have_write_bytes_def bitfield_write_bytes_def request_write_bytes_def piece_write_bytes_def cancel_write_bytes_def
        piece_block_length_def write_length_id_pair_def u32_of_usize_Some unat_u32_of_nat Let_def
        port_write_bytes_def PORT_MESSAGE_LEN_def
        split: option.splits if_splits bits_extension_message.splits)
qed

theorem sizes_on_the_wire_witness:
  "message_write_bytes big_endian null_protocol (BitsExtension (Extended (builder_build builder_empty))) () =
      (([0, 0, 0, 9, 20, 0] @ ascii ''d1:mdee'', Ok 14), ()) \<and>
   fst (message_size null_protocol (BitsExtension (Extended (builder_build builder_empty))) ()) = Ok (13 + 4)"
proof -
  have raw: "raw_bencode (builder_build builder_empty) = ascii ''d1:mdee''" and len: "length (ascii ''d1:mdee'') = 7"
    and hd: "to_be_bytes 4 (9 :: u32) = [0, 0, 0, 9]"
    by code_simp+
  have "message_write_bytes big_endian null_protocol (BitsExtension (Extended (builder_build builder_empty))) () =
      (([0, 0, 0, 9, 20, 0] @ ascii ''d1:mdee'', Ok 14), ())"
    by (simp add: extended_write_bytes_def bencode_size_def raw len u32_of_usize_def write_length_id_pair_def hd
        wireD [OF wire_spec_big_endian] EXTENDED_MESSAGE_ID_def EXTENDED_MESSAGE_HANDSHAKE_ID_def)
  moreover from sizes_on_the_wire [OF wire_spec_big_endian this]
  have "fst (message_size null_protocol (BitsExtension (Extended (builder_build builder_empty))) ()) =
      Ok (length ([0, 0, 0, 9, 20, 0] @ ascii ''d1:mdee'') + 4)" by simp
  ultimately show ?thesis using len by simp
qed

text \<open>
  C27. A request or cancel whose block length does not fit 32 bits fails to encode with an error, not with the panic its
  documentation announces, and after thirteen of its seventeen bytes are in the buffer. The length
  field in front of them announces the full message, so a decoder whose payload limit admits the seventeen bytes takes the
  four bytes after them, of the next message, for its rest.
\<close>

theorem oversized_request_leaves_partial_frame:
  assumes "wire_spec w" and "m = Request r \<and> 2 ^ 32 \<le> req_block_length r \<or> m = Cancel c \<and> 2 ^ 32 \<le> cancel_block_length c"
  shows "\<exists>out. codec_encode (wire_protocol w P) e (Ok m) dst = (Err IoUnsupported, e, dst @ out) \<and>
    length out = 13 \<and>
    (\<forall>next d. length next = 4 \<and> within d (out @ next) \<longrightarrow>
      (\<forall>rest. snd (snd (codec_decode (wire_protocol w P) d (out @ next @ rest))) = rest))"
proof -
  obtain i a b where enc: "codec_encode (wire_protocol w P) e (Ok m) dst =
      (Err IoUnsupported, e, dst @ to_be_bytes 4 (13 :: u32) @ [i] @ to_be_bytes 4 (a :: u32) @ to_be_bytes 4 (b :: u32))"
    using assms(2)
    by (auto simp: codec_encode_def wire_protocol_def wire_message_size_def message_size_def wire_write_bytes_def
        request_write_bytes_def cancel_write_bytes_def write_length_id_pair_def wireD [OF assms(1)] u32_of_usize_def
        REQUEST_MESSAGE_LEN_def CANCEL_MESSAGE_LEN_def)
  let ?out = "to_be_bytes 4 (13 :: u32) @ [i] @ to_be_bytes 4 a @ to_be_bytes 4 b"
  have "snd (snd (codec_decode (wire_protocol w P) d (?out @ next @ rest))) = rest"
    if "length next = 4" and "within d (?out @ next)" for "next" d rest
    using that
    by (simp add: codec_decode_def wire_protocol_def wire_bytes_needed_def be_u32_written [OF assms(1)] within_def
        MESSAGE_LENGTH_LEN_BYTES_def u32_to_usize_def Let_def split: prod.split option.splits)
  then show ?thesis using enc by (intro exI [of _ ?out]) simp
qed

theorem oversized_request_leaves_partial_frame_witness:
  "\<exists>out. fst (codec_encode demo_protocol demo_codec (Ok (Request (request_new 1 0 (2 ^ 32)))) []) = Err IoUnsupported \<and>
    snd (snd (codec_encode demo_protocol demo_codec (Ok (Request (request_new 1 0 (2 ^ 32)))) [])) = out \<and> length out = 13 \<and>
    snd (snd (codec_decode demo_protocol demo_codec (out @ [0, 0, 0, 1] @ [2]))) = [2]"
proof -
  obtain out where "codec_encode demo_protocol demo_codec (Ok (Request (request_new 1 0 (2 ^ 32)))) [] =
      (Err IoUnsupported, demo_codec, [] @ out)" and "length out = 13"
    and rest: "\<forall>next d. length next = 4 \<and> within d (out @ next) \<longrightarrow>
      (\<forall>rest. snd (snd (codec_decode demo_protocol d (out @ next @ rest))) = rest)"
    using oversized_request_leaves_partial_frame [OF wire_spec_big_endian, of "Request (request_new 1 0 (2 ^ 32))"
        "request_new 1 0 (2 ^ 32)" undefined "extension_protocol big_endian null_protocol" demo_codec "[]"]
    by (auto simp: request_new_def)
  moreover from this have "snd (snd (codec_decode demo_protocol demo_codec (out @ [0, 0, 0, 1] @ [2]))) = [2]"
    using rest [THEN spec [of _ "[0, 0, 0, 1]"], THEN spec [of _ demo_codec]]
    by (simp add: within_def demo_codec_def codec_with_max_payload_def)
  ultimately show ?thesis by simp
qed

end
