(* ===== verification/Handshake_Message.thy ===== *)
theory Handshake_Message
  imports Wire_Bytes Util_Sha
begin

text \<open>
  The handshake two peers exchange first: protocol names, extension bits and the message itself.
  Sources: \<^verbatim>\<open>packages/handshake/src/message\<close> and \<^verbatim>\<open>bittorrent/message.rs\<close>. The synchronous and the
  asynchronous writers send the same bytes and are one definition. \<^verbatim>\<open>nom\<close>'s parser \<^verbatim>\<open>u8\<close> reads one
  byte and is \<open>nom_be_u8\<close>.
\<close>

section \<open>Extension bits\<close>

definition NUM_EXTENSION_BYTES :: nat where "NUM_EXTENSION_BYTES = 8"

datatype extension = ExtensionProtocol

fun extension_bit :: "extension \<Rightarrow> nat" where
  "extension_bit ExtensionProtocol = 43"

type_synonym extensions = bytes

definition extensions_wf :: "extensions \<Rightarrow> bool" where
  "extensions_wf e \<longleftrightarrow> length e = NUM_EXTENSION_BYTES"

definition extensions_new :: extensions where
  "extensions_new = replicate NUM_EXTENSION_BYTES 0"

definition parse_extension_bits :: "wire \<Rightarrow> bytes \<Rightarrow> extensions parsed" where
  "parse_extension_bits w bs = ok_or NomError (nom_take w NUM_EXTENSION_BYTES bs)"

definition extensions_add :: "extension \<Rightarrow> extensions \<Rightarrow> extensions" where
  "extensions_add x e =
    (let active_bit = extension_bit x; byte_index = active_bit div 8; bit_index = active_bit mod 8
     in e[byte_index := e ! byte_index OR drop_bit bit_index 0x80])"

definition extensions_remove :: "extension \<Rightarrow> extensions \<Rightarrow> extensions" where
  "extensions_remove x e =
    (let active_bit = extension_bit x; byte_index = active_bit div 8; bit_index = active_bit mod 8
     in e[byte_index := e ! byte_index AND NOT (drop_bit bit_index 0x80)])"

definition extensions_contains :: "extension \<Rightarrow> extensions \<Rightarrow> bool" where
  "extensions_contains x e \<longleftrightarrow>
    (let active_bit = extension_bit x; byte_index = active_bit div 8; bit_index = active_bit mod 8
     in e ! byte_index AND drop_bit bit_index 0x80 \<noteq> 0)"

definition extensions_union :: "extensions \<Rightarrow> extensions \<Rightarrow> extensions" where
  "extensions_union a b =
    fold (\<lambda>index result. result[index := a ! index AND b ! index]) [0..<NUM_EXTENSION_BYTES] extensions_new"

section \<open>Protocol names\<close>

definition BT_PROTOCOL :: bytes where
  "BT_PROTOCOL = [0x42, 0x69, 0x74, 0x54, 0x6F, 0x72, 0x72, 0x65, 0x6E, 0x74, 0x20,
    0x70, 0x72, 0x6F, 0x74, 0x6F, 0x63, 0x6F, 0x6C]"

definition BT_PROTOCOL_LEN :: u8 where "BT_PROTOCOL_LEN = 19"

datatype protocol_name = BitTorrent | CustomProt bytes

definition protocol_write_bytes :: "protocol_name \<Rightarrow> bytes" where
  "protocol_write_bytes p =
    (let (len, bs) = (case p of BitTorrent \<Rightarrow> (unat BT_PROTOCOL_LEN, BT_PROTOCOL) | CustomProt prot \<Rightarrow> (length prot, prot))
     in of_nat len # bs)"

fun protocol_write_len :: "protocol_name \<Rightarrow> nat" where
  "protocol_write_len BitTorrent = unat BT_PROTOCOL_LEN"
| "protocol_write_len (CustomProt custom) = length custom"

definition parse_real_protocol :: "wire \<Rightarrow> bytes \<Rightarrow> protocol_name parsed" where
  "parse_real_protocol w bs =
    (case bs of
       [] \<Rightarrow> Panic
     | first # _ \<Rightarrow>
         and_then (ok_or NomError (nom_be_u8 w bs)) (\<lambda>(rest, _).
         and_then (ok_or NomError (nom_take w (unat first) rest)) (\<lambda>(remaining, raw_protocol).
           Ok (remaining, if raw_protocol = BT_PROTOCOL then BitTorrent else CustomProt raw_protocol))))"

section \<open>Messages\<close>

record handshake_message =
  hm_prot :: protocol_name
  hm_ext :: extensions
  hm_hash :: info_hash
  hm_pid :: sha_hash

definition message_from_parts ::
    "protocol_name \<Rightarrow> extensions \<Rightarrow> info_hash \<Rightarrow> sha_hash \<Rightarrow> ('e, handshake_message) outcome" where
  "message_from_parts prot ext hash pid =
    (if (case prot of CustomProt custom \<Rightarrow> length custom < 2 ^ 8 | BitTorrent \<Rightarrow> True)
     then Ok \<lparr>hm_prot = prot, hm_ext = ext, hm_hash = hash, hm_pid = pid\<rparr>
     else Panic)"

definition message_write_bytes_sync :: "handshake_message \<Rightarrow> bytes" where
  "message_write_bytes_sync m = protocol_write_bytes (hm_prot m) @ hm_ext m @ hm_hash m @ hm_pid m"

definition write_len_with_protocol_len :: "u8 \<Rightarrow> nat" where
  "write_len_with_protocol_len protocol_len =
    1 + unat protocol_len + NUM_EXTENSION_BYTES + SHA_HASH_LEN + SHA_HASH_LEN"

definition message_write_len :: "handshake_message \<Rightarrow> nat" where
  "message_write_len m = write_len_with_protocol_len (of_nat (protocol_write_len (hm_prot m)))"

definition parse_remote_hash :: "wire \<Rightarrow> bytes \<Rightarrow> sha_hash parsed" where
  "parse_remote_hash w bs =
    and_then (ok_or NomError (nom_take w SHA_HASH_LEN bs)) (\<lambda>(rest, hash).
      case from_hash hash of Ok h \<Rightarrow> Ok (rest, h) | Err _ \<Rightarrow> Err NomError | Panic \<Rightarrow> Panic)"

definition parse_remote_handshake :: "wire \<Rightarrow> bytes \<Rightarrow> (nom_err, handshake_message) outcome" where
  "parse_remote_handshake w bs =
    and_then (parse_real_protocol w bs) (\<lambda>(rest, prot).
    and_then (parse_extension_bits w rest) (\<lambda>(rest, ext).
    and_then (parse_remote_hash w rest) (\<lambda>(rest, hash).
    and_then (parse_remote_hash w rest) (\<lambda>(_, pid).
      message_from_parts prot ext hash pid))))"

section \<open>Well-formed messages\<close>

text \<open>
  A custom protocol that spells the name of the standard one is read back as the standard one, so a
  well-formed message does not use it. The arrays of the code have the lengths of the other fields.
\<close>

definition message_wf :: "handshake_message \<Rightarrow> bool" where
  "message_wf m \<longleftrightarrow> extensions_wf (hm_ext m) \<and> sha_wf (hm_hash m) \<and> sha_wf (hm_pid m) \<and>
    (case hm_prot m of CustomProt custom \<Rightarrow> length custom < 2 ^ 8 \<and> custom \<noteq> BT_PROTOCOL | BitTorrent \<Rightarrow> True)"

lemma length_BT_PROTOCOL: "length BT_PROTOCOL = 19"
  by (simp add: BT_PROTOCOL_def)

lemma unat_of_nat_u8: "n < 2 ^ 8 \<Longrightarrow> unat (of_nat n :: u8) = n"
  by (simp add: unat_of_nat take_bit_eq_mod)

lemma protocol_roundtrip:
  assumes "wire_spec w" and "message_wf m"
  shows "parse_real_protocol w (protocol_write_bytes (hm_prot m) @ rest) = Ok (rest, hm_prot m)"
  using assms(2)
  by (cases "hm_prot m")
    (simp_all add: parse_real_protocol_def protocol_write_bytes_def wireD [OF assms(1)] BT_PROTOCOL_LEN_def
      length_BT_PROTOCOL message_wf_def unat_of_nat_u8)

lemma message_from_parts_wf:
  "message_wf m \<Longrightarrow> message_from_parts (hm_prot m) (hm_ext m) (hm_hash m) (hm_pid m) = Ok m"
  by (auto simp: message_wf_def message_from_parts_def split: protocol_name.splits)

lemma handshake_roundtrip:
  assumes "wire_spec w" and "message_wf m"
  shows "parse_remote_handshake w (message_write_bytes_sync m @ rest) = Ok m"
proof -
  have "length (hm_ext m) = 8" "length (hm_hash m) = 20" "length (hm_pid m) = 20"
    using assms(2) by (simp_all add: message_wf_def extensions_wf_def sha_wf_def NUM_EXTENSION_BYTES_def SHA_HASH_LEN_def)
  then show ?thesis
    using protocol_roundtrip [OF assms] message_from_parts_wf [OF assms(2)]
    by (simp add: parse_remote_handshake_def message_write_bytes_sync_def parse_extension_bits_def parse_remote_hash_def
        wireD [OF assms(1)] NUM_EXTENSION_BYTES_def SHA_HASH_LEN_def from_hash_def)
qed

lemma handshake_length:
  assumes "message_wf m"
  obtains first tail where "message_write_bytes_sync m = first # tail"
    and "write_len_with_protocol_len first = length (message_write_bytes_sync m)"
    and "message_write_len m = length (message_write_bytes_sync m)"
proof -
  have "length (hm_ext m) = 8" "length (hm_hash m) = 20" "length (hm_pid m) = 20"
    using assms by (simp_all add: message_wf_def extensions_wf_def sha_wf_def NUM_EXTENSION_BYTES_def SHA_HASH_LEN_def)
  then have "message_write_bytes_sync m = of_nat (protocol_write_len (hm_prot m)) # tl (message_write_bytes_sync m)"
    and "write_len_with_protocol_len (of_nat (protocol_write_len (hm_prot m))) = length (message_write_bytes_sync m)"
    using assms
    by (cases "hm_prot m"; simp add: message_write_bytes_sync_def protocol_write_bytes_def write_len_with_protocol_len_def
        BT_PROTOCOL_LEN_def length_BT_PROTOCOL message_wf_def unat_of_nat_u8 NUM_EXTENSION_BYTES_def SHA_HASH_LEN_def)+
  then show ?thesis using that unfolding message_write_len_def by blast
qed

section \<open>Extension bits as a set\<close>

lemma extensions_add_wf: "extensions_wf e \<Longrightarrow> extensions_wf (extensions_add x e)"
  by (simp add: extensions_wf_def extensions_add_def Let_def)

lemma extensions_remove_wf: "extensions_wf e \<Longrightarrow> extensions_wf (extensions_remove x e)"
  by (simp add: extensions_wf_def extensions_remove_def Let_def)

lemma contains_add: "extensions_wf e \<Longrightarrow> extensions_contains x (extensions_add x e)"
  by (cases x) (simp add: extensions_contains_def extensions_add_def extensions_wf_def NUM_EXTENSION_BYTES_def
      bit.conj_disj_distrib2)

lemma contains_remove: "extensions_wf e \<Longrightarrow> \<not> extensions_contains x (extensions_remove x e)"
  by (cases x) (simp add: extensions_contains_def extensions_remove_def extensions_wf_def NUM_EXTENSION_BYTES_def
      and.assoc)

lemma extensions_union_map2:
  assumes "extensions_wf a" and "extensions_wf b"
  shows "extensions_union a b = map2 (AND) a b"
proof -
  have upd: "fold (\<lambda>i r. r[i := f i]) [0..<n] xs = map (\<lambda>i. if i < n then f i else xs ! i) [0..<length xs]"
    if "n \<le> length xs" for f :: "nat \<Rightarrow> u8" and n xs
    using that by (induction n) (auto intro!: nth_equalityI simp: map_nth less_Suc_eq)
  show ?thesis
    using assms unfolding extensions_union_def
    by (subst upd) (auto intro!: nth_equalityI simp: extensions_new_def extensions_wf_def)
qed

lemma extensions_union_wf: "extensions_wf a \<Longrightarrow> extensions_wf b \<Longrightarrow> extensions_wf (extensions_union a b)"
  by (simp add: extensions_union_map2 extensions_wf_def)

lemma extensions_union_commute:
  assumes "extensions_wf a" and "extensions_wf b"
  shows "extensions_union a b = extensions_union b a"
  using assms by (auto intro!: nth_equalityI simp: extensions_union_map2 extensions_wf_def and.commute)

lemma contains_union:
  assumes "extensions_wf a" and "extensions_wf b"
  shows "extensions_contains x (extensions_union a b) \<longleftrightarrow> extensions_contains x a \<and> extensions_contains x b"
proof -
  have one: "(c AND 16 = 0) = (\<not> bit c 4)" for c :: u8
    by (simp add: bit_iff_and_push_bit_not_eq_0)
  show ?thesis
    using assms
    by (cases x) (simp add: extensions_contains_def extensions_union_map2 extensions_wf_def NUM_EXTENSION_BYTES_def one
        bit_and_iff)
qed

end
