(* ===== verification/Handshake_Framed.thy ===== *)
theory Handshake_Framed
  imports Handshake_Message
begin

text \<open>
  The framed transport of the handshake, a state machine that is polled: \<^verbatim>\<open>bittorrent/framed.rs\<close>. The
  socket is a record of its polling operations on a state of any type; \<open>socket_spec\<close> states what
  \<^verbatim>\<open>AsyncRead\<close> and \<^verbatim>\<open>AsyncWrite\<close> document of them, in terms of the bytes still to come and the bytes
  sent. An item that is \<open>Panic\<close> stands for a panic of the poll itself.
\<close>

section \<open>Sockets\<close>

datatype 'a poll = Pending | Ready 'a

datatype hs_error = HsOther string | WriteZero | InvalidData nom_err | SockError nat

record 's socket =
  poll_read :: "nat \<Rightarrow> 's \<Rightarrow> (hs_error, bytes) outcome poll \<times> 's"
  poll_write :: "bytes \<Rightarrow> 's \<Rightarrow> (hs_error, nat) outcome poll \<times> 's"
  sock_poll_flush :: "'s \<Rightarrow> (hs_error, unit) outcome poll \<times> 's"
  poll_shutdown :: "'s \<Rightarrow> (hs_error, unit) outcome poll \<times> 's"

definition socket_spec :: "'s socket \<Rightarrow> ('s \<Rightarrow> bytes) \<Rightarrow> ('s \<Rightarrow> bytes) \<Rightarrow> bool" where
  "socket_spec S incoming outgoing \<longleftrightarrow>
    (\<forall>n s r s'. poll_read S n s = (r, s') \<longrightarrow> outgoing s' = outgoing s \<and>
      (case r of
         Ready (Ok bs) \<Rightarrow> length bs \<le> n \<and> incoming s = bs @ incoming s'
       | Ready Panic \<Rightarrow> False
       | _ \<Rightarrow> incoming s' = incoming s)) \<and>
    (\<forall>bs s r s'. poll_write S bs s = (r, s') \<longrightarrow> incoming s' = incoming s \<and>
      (case r of
         Ready (Ok k) \<Rightarrow> k \<le> length bs \<and> outgoing s' = outgoing s @ take k bs
       | Ready Panic \<Rightarrow> False
       | _ \<Rightarrow> outgoing s' = outgoing s)) \<and>
    (\<forall>s r s'. sock_poll_flush S s = (r, s') \<longrightarrow>
      r \<noteq> Ready Panic \<and> incoming s' = incoming s \<and> outgoing s' = outgoing s)"

text \<open>A socket that makes progress whenever it is polled.\<close>

definition socket_eager :: "'s socket \<Rightarrow> ('s \<Rightarrow> bytes) \<Rightarrow> bool" where
  "socket_eager S incoming \<longleftrightarrow>
    (\<forall>n s. 0 < n \<and> incoming s \<noteq> [] \<longrightarrow> (\<exists>bs s'. poll_read S n s = (Ready (Ok bs), s') \<and> bs \<noteq> [])) \<and>
    (\<forall>bs s. bs \<noteq> [] \<longrightarrow> (\<exists>k s'. poll_write S bs s = (Ready (Ok k), s') \<and> 0 < k)) \<and>
    (\<forall>s. \<exists>s'. sock_poll_flush S s = (Ready (Ok ()), s'))"

section \<open>The framed transport\<close>

datatype handshake_state = Waiting | Reading | ReadyState | Finished | Errored

record 's framed_handshake =
  sock :: 's
  write_buffer :: bytes
  read_buffer :: bytes
  read_pos :: nat
  state :: handshake_state

definition framed_new :: "'s \<Rightarrow> 's framed_handshake" where
  "framed_new s = \<lparr>sock = s, write_buffer = [], read_buffer = [], read_pos = 0, state = Waiting\<rparr>"

definition into_inner :: "'s framed_handshake \<Rightarrow> 's" where
  "into_inner f = sock f"

definition start_send :: "handshake_message \<Rightarrow> 's framed_handshake \<Rightarrow> 's framed_handshake" where
  "start_send item f = f\<lparr>write_buffer := write_buffer f @ message_write_bytes_sync item\<rparr>"

function flush_loop :: "'s socket \<Rightarrow> bytes \<Rightarrow> 's \<Rightarrow> (hs_error, unit) outcome poll \<times> bytes \<times> 's" where
  "flush_loop S buf s =
    (if buf = [] then (let (r, s) = sock_poll_flush S s in (r, [], s))
     else case poll_write S buf s of
       (Ready (Ok written), s) \<Rightarrow>
         if written = 0 then (Ready (Err WriteZero), buf, s)
         else if length buf < written then (Ready Panic, buf, s)
         else flush_loop S (drop written buf) s
     | (Ready (Err e), s) \<Rightarrow> (Ready (Err e), buf, s)
     | (Ready Panic, s) \<Rightarrow> (Ready Panic, buf, s)
     | (Pending, s) \<Rightarrow> (Pending, buf, s))"
  by pat_completeness auto
termination by (relation "measure (\<lambda>(S, buf, s). length buf)") auto

declare flush_loop.simps [simp del]

definition framed_poll_flush :: "'s socket \<Rightarrow> 's framed_handshake \<Rightarrow> (hs_error, unit) outcome poll \<times> 's framed_handshake" where
  "framed_poll_flush S f =
    (let (r, buf, s) = flush_loop S (write_buffer f) (sock f) in (r, f\<lparr>write_buffer := buf, sock := s\<rparr>))"

definition framed_poll_close :: "'s socket \<Rightarrow> 's framed_handshake \<Rightarrow> (hs_error, unit) outcome poll \<times> 's framed_handshake" where
  "framed_poll_close S f =
    (case framed_poll_flush S f of
       (Ready (Ok ()), f) \<Rightarrow> let (r, s) = poll_shutdown S (sock f) in (r, f\<lparr>sock := s\<rparr>)
     | (r, f) \<Rightarrow> (r, f))"

type_synonym 's next_result = "(hs_error, handshake_message) outcome option poll \<times> 's framed_handshake"

definition poll_waiting :: "'s socket \<Rightarrow> 's framed_handshake \<Rightarrow> 's next_result" where
  "poll_waiting S f =
    (if read_buffer f \<noteq> [] \<or> read_pos f \<noteq> 0 then (Ready (Some Panic), f)
     else case poll_read S 1 (sock f) of
       (Pending, s) \<Rightarrow> (Pending, f\<lparr>sock := s, read_buffer := []\<rparr>)
     | (Ready (Err e), s) \<Rightarrow> (Ready (Some (Err e)), f\<lparr>sock := s, read_buffer := [0], state := Errored\<rparr>)
     | (Ready Panic, s) \<Rightarrow> (Ready (Some Panic), f\<lparr>sock := s, read_buffer := [0]\<rparr>)
     | (Ready (Ok []), s) \<Rightarrow> (Pending, f\<lparr>sock := s, read_buffer := []\<rparr>)
     | (Ready (Ok [byte]), s) \<Rightarrow>
         let len = write_len_with_protocol_len byte
         in (Pending, f\<lparr>sock := s, read_buffer := take len ([byte] @ replicate (len - 1) 0), read_pos := 1, state := Reading\<rparr>)
     | (Ready (Ok _), s) \<Rightarrow> (Ready (Some Panic), f\<lparr>sock := s, read_buffer := [0]\<rparr>))"

definition poll_reading :: "'s socket \<Rightarrow> 's framed_handshake \<Rightarrow> 's next_result" where
  "poll_reading S f =
    (let len = length (read_buffer f); pos = read_pos f in
     if read_buffer f = [] \<or> pos = 0 \<or> len \<le> pos then (Ready (Some Panic), f)
     else case poll_read S (len - pos) (sock f) of
       (Pending, s) \<Rightarrow> (Pending, f\<lparr>sock := s\<rparr>)
     | (Ready (Err e), s) \<Rightarrow> (Ready (Some (Err e)), f\<lparr>sock := s, state := Errored\<rparr>)
     | (Ready Panic, s) \<Rightarrow> (Ready (Some Panic), f\<lparr>sock := s\<rparr>)
     | (Ready (Ok bs), s) \<Rightarrow>
         let filled = pos + length bs in
         if len < filled then (Ready (Some Panic), f\<lparr>sock := s\<rparr>)
         else (Pending, f\<lparr>sock := s, read_buffer := take pos (read_buffer f) @ bs @ drop filled (read_buffer f),
                 read_pos := filled, state := (if filled = len then ReadyState else Reading)\<rparr>))"

definition poll_ready_state :: "wire \<Rightarrow> 's framed_handshake \<Rightarrow> 's next_result" where
  "poll_ready_state w f =
    (if read_buffer f = [] \<or> read_pos f \<noteq> length (read_buffer f) then (Ready (Some Panic), f)
     else let buf = read_buffer f; f = f\<lparr>read_buffer := []\<rparr> in
       case parse_remote_handshake w buf of
         Ok message \<Rightarrow> (Ready (Some (Ok message)), f\<lparr>state := Finished\<rparr>)
       | Err e \<Rightarrow> (Ready (Some (Err (InvalidData e))), f\<lparr>state := Errored\<rparr>)
       | Panic \<Rightarrow> (Ready (Some Panic), f))"

definition framed_poll_next :: "wire \<Rightarrow> 's socket \<Rightarrow> 's framed_handshake \<Rightarrow> 's next_result" where
  "framed_poll_next w S f =
    (case state f of
       Waiting \<Rightarrow> poll_waiting S f
     | Reading \<Rightarrow> poll_reading S f
     | ReadyState \<Rightarrow> poll_ready_state w f
     | Finished \<Rightarrow> (Ready None, f)
     | Errored \<Rightarrow> (Ready None, f))"

text \<open>
  Awaiting \<^verbatim>\<open>next\<close> or \<^verbatim>\<open>send\<close> under a timeout polls until the result is ready or the time is up; the
  number of polls that fit is the argument, and \<open>None\<close> the elapsed timeout.
\<close>

fun framed_next ::
    "wire \<Rightarrow> 's socket \<Rightarrow> nat \<Rightarrow> 's framed_handshake \<Rightarrow>
     (hs_error, handshake_message) outcome option option \<times> 's framed_handshake" where
  "framed_next w S 0 f = (None, f)"
| "framed_next w S (Suc n) f =
    (case framed_poll_next w S f of
       (Ready r, f) \<Rightarrow> (Some r, f)
     | (Pending, f) \<Rightarrow> framed_next w S n f)"

fun framed_flush :: "'s socket \<Rightarrow> nat \<Rightarrow> 's framed_handshake \<Rightarrow> (hs_error, unit) outcome option \<times> 's framed_handshake" where
  "framed_flush S 0 f = (None, f)"
| "framed_flush S (Suc n) f =
    (case framed_poll_flush S f of
       (Ready r, f) \<Rightarrow> (Some r, f)
     | (Pending, f) \<Rightarrow> framed_flush S n f)"

definition framed_send ::
    "'s socket \<Rightarrow> nat \<Rightarrow> handshake_message \<Rightarrow> 's framed_handshake \<Rightarrow> (hs_error, unit) outcome option \<times> 's framed_handshake" where
  "framed_send S n item f = framed_flush S n (start_send item f)"

section \<open>Reading one message\<close>

text \<open>
  What is known while the message \<open>m\<close> followed by \<open>rest\<close> is being read: the buffer holds the part
  that was read and the socket the part that was not.
\<close>

definition reading :: "('s \<Rightarrow> bytes) \<Rightarrow> bytes \<Rightarrow> bytes \<Rightarrow> 's framed_handshake \<Rightarrow> bool" where
  "reading incoming msg rest f \<longleftrightarrow>
    (case state f of
       Waiting \<Rightarrow> read_buffer f = [] \<and> read_pos f = 0 \<and> incoming (sock f) = msg @ rest
     | Reading \<Rightarrow> 0 < read_pos f \<and> read_pos f < length msg \<and> length (read_buffer f) = length msg \<and>
         take (read_pos f) (read_buffer f) = take (read_pos f) msg \<and> incoming (sock f) = drop (read_pos f) msg @ rest
     | ReadyState \<Rightarrow> read_buffer f = msg \<and> read_pos f = length msg \<and> incoming (sock f) = rest
     | _ \<Rightarrow> False)"

lemma reading_new: "incoming s = msg @ rest \<Longrightarrow> reading incoming msg rest (framed_new s)"
  by (simp add: reading_def framed_new_def)

lemma poll_readD:
  assumes "socket_spec S incoming outgoing" and "poll_read S n s = (r, s')"
  shows "outgoing s' = outgoing s" and "r \<noteq> Ready Panic" and "r = Ready (Ok bs) \<Longrightarrow> length bs \<le> n \<and> incoming s = bs @ incoming s'"
    and "r = Pending \<or> r = Ready (Err e) \<Longrightarrow> incoming s' = incoming s"
  using assms unfolding socket_spec_def by fastforce+

lemma socket_eagerD:
  assumes "socket_eager S incoming"
  shows "0 < n \<Longrightarrow> incoming s \<noteq> [] \<Longrightarrow> \<exists>bs s'. poll_read S n s = (Ready (Ok bs), s') \<and> bs \<noteq> []"
    and "bs \<noteq> [] \<Longrightarrow> \<exists>k s'. poll_write S bs s = (Ready (Ok k), s') \<and> 0 < k"
    and "\<exists>s'. sock_poll_flush S s = (Ready (Ok ()), s')"
  using assms by (simp_all add: socket_eager_def)

lemma poll_waiting_reading:
  assumes "socket_spec S incoming outgoing" and "reading incoming msg rest f" and "state f = Waiting"
    and "msg = first # tail" and "write_len_with_protocol_len first = length msg" and "tail \<noteq> []"
    and "poll_waiting S f = (r, f')"
  shows "outgoing (sock f') = outgoing (sock f)"
    and "r = Pending \<and> reading incoming msg rest f' \<or> (\<exists>e. r = Ready (Some (Err e)))"
    and "socket_eager S incoming \<Longrightarrow> r = Pending \<and> state f' = Reading"
proof -
  obtain pr s' where pr: "poll_read S 1 (sock f) = (pr, s')" by fastforce
  have inc: "incoming (sock f) = first # tail @ rest" and buf: "read_buffer f = []" "read_pos f = 0"
    using assms(2-4) by (simp_all add: reading_def)
  note rd = poll_readD [OF assms(1) pr]
  have cases: "pr = Pending \<or> (\<exists>e. pr = Ready (Err e)) \<or> pr = Ready (Ok []) \<or> pr = Ready (Ok [first]) \<and> incoming s' = tail @ rest"
  proof (cases pr)
    case (Ready a)
    show ?thesis
    proof (cases a)
      case (Ok bs)
      then show ?thesis using Ready rd(3) [of bs] inc by (cases bs) (auto simp: Cons_eq_append_conv)
    qed (use Ready rd(2) in auto)
  qed simp
  have first_read: "r = Pending \<and> reading incoming msg rest f' \<and> state f' = Reading"
    if "pr = Ready (Ok [first])" "incoming s' = tail @ rest"
    using assms(4-7) pr buf that by (auto simp: poll_waiting_def reading_def Let_def)
  show "outgoing (sock f') = outgoing (sock f)"
    using cases assms(7) pr buf rd(1) by (auto simp: poll_waiting_def Let_def)
  show "r = Pending \<and> reading incoming msg rest f' \<or> (\<exists>e. r = Ready (Some (Err e)))"
  proof (cases "pr = Pending \<or> pr = Ready (Ok [])")
    case True
    then have "incoming s' = msg @ rest" using rd(3) [of "[]"] rd(4) inc assms(4) by auto
    then show ?thesis using True assms(3,7) pr buf by (auto simp: poll_waiting_def reading_def)
  next
    case False
    then show ?thesis using cases first_read assms(7) pr buf by (auto simp: poll_waiting_def)
  qed
  show "r = Pending \<and> state f' = Reading" if "socket_eager S incoming"
  proof -
    have "\<exists>bs s'. poll_read S 1 (sock f) = (Ready (Ok bs), s') \<and> bs \<noteq> []"
      using that inc unfolding socket_eager_def by simp
    then show ?thesis using cases first_read pr by auto
  qed
qed

lemma poll_reading_reading:
  assumes "socket_spec S incoming outgoing" and "reading incoming msg rest f" and "state f = Reading"
    and "poll_reading S f = (r, f')"
  shows "outgoing (sock f') = outgoing (sock f)"
    and "r = Pending \<and> reading incoming msg rest f' \<or> (\<exists>e. r = Ready (Some (Err e)))"
    and "socket_eager S incoming \<Longrightarrow> r = Pending \<and> read_pos f < read_pos f'"
proof -
  let ?n = "length msg - read_pos f"
  obtain pr s' where pr: "poll_read S ?n (sock f) = (pr, s')" by fastforce
  have pos: "0 < read_pos f" "read_pos f < length msg" and len: "length (read_buffer f) = length msg"
    and buf: "take (read_pos f) (read_buffer f) = take (read_pos f) msg"
    and inc: "incoming (sock f) = drop (read_pos f) msg @ rest"
    using assms(2,3) by (simp_all add: reading_def)
  have ne: "read_buffer f \<noteq> []" using pos len by auto
  note rd = poll_readD [OF assms(1) pr]
  show "outgoing (sock f') = outgoing (sock f)"
    using assms(4) pr pos len ne rd(1)
    by (simp add: poll_reading_def Let_def split: poll.splits outcome.splits if_splits) (auto split: if_splits)
  have got: "r = Pending \<and> reading incoming msg rest f' \<and> read_pos f' = read_pos f + length bs" if "pr = Ready (Ok bs)" for bs
  proof -
    have bs: "length bs \<le> ?n" and split: "drop (read_pos f) msg @ rest = bs @ incoming s'"
      using rd(3) [OF that] inc by auto
    have "bs = take (length bs) (drop (read_pos f) msg)"
      using arg_cong [OF split, of "take (length bs)"] bs by simp
    moreover have s': "incoming s' = drop (read_pos f + length bs) msg @ rest"
      using arg_cong [OF split, of "drop (length bs)"] bs by (simp add: add.commute)
    ultimately have "take (read_pos f) msg @ bs = take (read_pos f + length bs) msg" by (metis take_add)
    moreover have "\<not> length msg < read_pos f + length bs" using bs pos by linarith
    ultimately show ?thesis
      using assms(4) pr that pos len ne s' buf by (auto simp: poll_reading_def Let_def reading_def)
  qed
  show "r = Pending \<and> reading incoming msg rest f' \<or> (\<exists>e. r = Ready (Some (Err e)))"
  proof (cases pr)
    case Pending
    then show ?thesis using assms(2-4) pr pos len ne rd(4) by (auto simp: poll_reading_def Let_def reading_def)
  next
    case (Ready a)
    then show ?thesis using got rd(2) assms(4) pr pos len ne by (cases a) (auto simp: poll_reading_def Let_def)
  qed
  show "r = Pending \<and> read_pos f < read_pos f'" if "socket_eager S incoming"
  proof -
    have "\<exists>bs s'. poll_read S ?n (sock f) = (Ready (Ok bs), s') \<and> bs \<noteq> []"
      using that inc pos unfolding socket_eager_def by simp
    then show ?thesis using got pr by auto
  qed
qed

definition polls_left :: "bytes \<Rightarrow> 's framed_handshake \<Rightarrow> nat" where
  "polls_left msg f =
    (case state f of Waiting \<Rightarrow> length msg + 1 | Reading \<Rightarrow> length msg - read_pos f + 1 | _ \<Rightarrow> 1)"

lemma poll_next_reading:
  assumes "wire_spec w" and "socket_spec S incoming outgoing" and "message_wf m"
    and "reading incoming (message_write_bytes_sync m) rest f" and "framed_poll_next w S f = (r, f')"
  shows "outgoing (sock f') = outgoing (sock f)"
    and "r = Pending \<and> reading incoming (message_write_bytes_sync m) rest f' \<or> (\<exists>e. r = Ready (Some (Err e))) \<or>
      r = Ready (Some (Ok m)) \<and> incoming (sock f') = rest"
    and "socket_eager S incoming \<Longrightarrow>
      r = Ready (Some (Ok m)) \<or> r = Pending \<and>
        polls_left (message_write_bytes_sync m) f' < polls_left (message_write_bytes_sync m) f"
proof -
  let ?msg = "message_write_bytes_sync m"
  obtain first tail where msg: "?msg = first # tail" and len: "write_len_with_protocol_len first = length ?msg"
    using handshake_length [OF assms(3)] by metis
  have "1 < length ?msg" using len by (simp add: write_len_with_protocol_len_def SHA_HASH_LEN_def flip: len)
  then have tail: "tail \<noteq> []" using msg by auto
  note waiting = poll_waiting_reading [OF assms(2,4) _ msg len tail] and read = poll_reading_reading [OF assms(2,4)]
  have "state f = Waiting \<or> state f = Reading \<or> state f = ReadyState"
    using assms(4) by (auto simp: reading_def split: handshake_state.splits)
  then consider "state f = Waiting" "poll_waiting S f = (r, f')" | "state f = Reading" "poll_reading S f = (r, f')"
    | "state f = ReadyState" "r = Ready (Some (Ok m))" "incoming (sock f') = rest" "sock f' = sock f"
    using assms(4,5) handshake_roundtrip [OF assms(1,3), of "[]"] msg
    by (auto simp: framed_poll_next_def poll_ready_state_def reading_def Let_def)
  note by_state = this
  show "outgoing (sock f') = outgoing (sock f)"
    by (cases rule: by_state) (auto dest: waiting(1) read(1))
  show "r = Pending \<and> reading incoming ?msg rest f' \<or> (\<exists>e. r = Ready (Some (Err e))) \<or>
      r = Ready (Some (Ok m)) \<and> incoming (sock f') = rest"
    by (cases rule: by_state) (use waiting(2) read(2) in blast)+
  show "r = Ready (Some (Ok m)) \<or> r = Pending \<and> polls_left ?msg f' < polls_left ?msg f" if "socket_eager S incoming"
  proof (cases rule: by_state)
    case 1
    then show ?thesis using waiting(2,3) that by (fastforce simp: polls_left_def reading_def)
  next
    case 2
    then have "r = Pending" "read_pos f < read_pos f'" "reading incoming ?msg rest f'" using read(2,3) that by blast+
    then show ?thesis
      using 2(1) assms(4) by (auto simp: polls_left_def reading_def split: handshake_state.splits)
  qed simp
qed

lemma framed_next_reading:
  assumes "wire_spec w" and "socket_spec S incoming outgoing" and "message_wf m"
    and "reading incoming (message_write_bytes_sync m) rest f" and "framed_next w S n f = (r, f')"
  shows "outgoing (sock f') = outgoing (sock f)"
    and "r = None \<or> (\<exists>e. r = Some (Some (Err e))) \<or> r = Some (Some (Ok m)) \<and> incoming (sock f') = rest"
    and "socket_eager S incoming \<Longrightarrow> polls_left (message_write_bytes_sync m) f \<le> n \<Longrightarrow> r = Some (Some (Ok m))"
proof -
  let ?msg = "message_write_bytes_sync m"
  have "outgoing (sock f') = outgoing (sock f) \<and>
    (r = None \<or> (\<exists>e. r = Some (Some (Err e))) \<or> r = Some (Some (Ok m)) \<and> incoming (sock f') = rest) \<and>
    (socket_eager S incoming \<longrightarrow> polls_left ?msg f \<le> n \<longrightarrow> r = Some (Some (Ok m)))"
    using assms(4,5)
  proof (induction n arbitrary: f)
    case 0
    then show ?case by (auto simp: polls_left_def split: handshake_state.splits)
  next
    case (Suc n)
    obtain pr g where poll: "framed_poll_next w S f = (pr, g)" by fastforce
    note step = poll_next_reading [OF assms(1-3) Suc.prems(1) poll]
    show ?case
    proof (cases pr)
      case Pending
      then have "reading incoming ?msg rest g" "framed_next w S n g = (r, f')"
        using step(2) Suc.prems(2) poll by auto
      from Suc.IH [OF this] show ?thesis using step(1,3) Pending by auto
    next
      case (Ready item)
      then show ?thesis using step Suc.prems(2) poll by auto
    qed
  qed
  then show "outgoing (sock f') = outgoing (sock f)"
    and "r = None \<or> (\<exists>e. r = Some (Some (Err e))) \<or> r = Some (Some (Ok m)) \<and> incoming (sock f') = rest"
    and "socket_eager S incoming \<Longrightarrow> polls_left ?msg f \<le> n \<Longrightarrow> r = Some (Some (Ok m))"
    by blast+
qed

section \<open>Sending\<close>

lemma flush_loop_sends:
  assumes "socket_spec S incoming outgoing" and "flush_loop S buf s = (r, buf', s')"
  shows "incoming s' = incoming s" and "outgoing s' @ buf' = outgoing s @ buf"
    and "r = Ready (Ok ()) \<Longrightarrow> buf' = []" and "r \<noteq> Ready Panic"
    and "socket_eager S incoming \<Longrightarrow> r = Ready (Ok ())"
proof -
  have "incoming s' = incoming s \<and> outgoing s' @ buf' = outgoing s @ buf \<and> (r = Ready (Ok ()) \<longrightarrow> buf' = []) \<and>
    r \<noteq> Ready Panic \<and> (socket_eager S incoming \<longrightarrow> r = Ready (Ok ()))"
    using assms(2)
  proof (induction "length buf" arbitrary: buf s rule: less_induct)
    case less
    show ?case
    proof (cases "buf = []")
      case True
      obtain fr s1 where fl: "sock_poll_flush S s = (fr, s1)" by fastforce
      moreover have "fr \<noteq> Ready Panic" "incoming s1 = incoming s" "outgoing s1 = outgoing s"
        using assms(1) fl unfolding socket_spec_def by blast+
      moreover have "socket_eager S incoming \<Longrightarrow> fr = Ready (Ok ())" using socket_eagerD(3) [of S incoming s] fl by auto
      ultimately show ?thesis using less.prems True by (auto simp: flush_loop.simps [of S "[]"])
    next
      case False
      obtain wr s1 where wr: "poll_write S buf s = (wr, s1)" by fastforce
      have inc: "incoming s1 = incoming s" and spec: "case wr of Ready (Ok k) \<Rightarrow> k \<le> length buf \<and> outgoing s1 = outgoing s @ take k buf
          | Ready Panic \<Rightarrow> False | _ \<Rightarrow> outgoing s1 = outgoing s"
        using assms(1) wr unfolding socket_spec_def by blast+
      have eager: "socket_eager S incoming \<Longrightarrow> \<exists>k>0. wr = Ready (Ok k)"
        using wr False socket_eagerD(2) [of S incoming buf s] by auto
      show ?thesis
      proof (cases "\<exists>k>0. wr = Ready (Ok k)")
        case True
        then obtain k where k: "0 < k" "wr = Ready (Ok k)" by blast
        then have loop: "flush_loop S (drop k buf) s1 = (r, buf', s')"
          using less.prems wr False spec by (simp add: flush_loop.simps [of S buf])
        have "outgoing s1 @ drop k buf = outgoing s @ buf" using k spec by simp
        then show ?thesis using less.hyps [OF _ loop] k(1) False inc by simp
      next
        case no: False
        have zero: "wr = Ready (Ok k) \<Longrightarrow> k = 0" for k using no by auto
        have "buf' = buf \<and> s' = s1 \<and> r \<noteq> Ready (Ok ()) \<and> r \<noteq> Ready Panic"
          using less.prems wr False spec zero by (auto simp: flush_loop.simps [of S buf] split: poll.splits outcome.splits if_splits)
        moreover have "outgoing s1 = outgoing s" using zero spec by (auto split: poll.splits outcome.splits)
        ultimately show ?thesis using inc eager no by blast
      qed
    qed
  qed
  then show "incoming s' = incoming s" and "outgoing s' @ buf' = outgoing s @ buf"
    and "r = Ready (Ok ()) \<Longrightarrow> buf' = []" and "r \<noteq> Ready Panic" and "socket_eager S incoming \<Longrightarrow> r = Ready (Ok ())"
    by blast+
qed

lemma poll_flush_sends:
  assumes "socket_spec S incoming outgoing" and "framed_poll_flush S f = (r, f')"
  shows "incoming (sock f') = incoming (sock f)"
    and "outgoing (sock f') @ write_buffer f' = outgoing (sock f) @ write_buffer f"
    and "r = Ready (Ok ()) \<Longrightarrow> write_buffer f' = []" and "r \<noteq> Ready Panic"
    and "socket_eager S incoming \<Longrightarrow> r = Ready (Ok ())"
    and "read_buffer f' = read_buffer f" and "read_pos f' = read_pos f" and "state f' = state f"
proof -
  obtain buf s where fl: "flush_loop S (write_buffer f) (sock f) = (r, buf, s)" and f': "f' = f\<lparr>write_buffer := buf, sock := s\<rparr>"
    using assms(2) by (auto simp: framed_poll_flush_def split: prod.splits)
  show "incoming (sock f') = incoming (sock f)"
    and "outgoing (sock f') @ write_buffer f' = outgoing (sock f) @ write_buffer f"
    and "r = Ready (Ok ()) \<Longrightarrow> write_buffer f' = []" and "r \<noteq> Ready Panic"
    and "socket_eager S incoming \<Longrightarrow> r = Ready (Ok ())"
    and "read_buffer f' = read_buffer f" and "read_pos f' = read_pos f" and "state f' = state f"
    using flush_loop_sends [OF assms(1) fl] f' by simp_all
qed

lemma framed_flush_sends:
  assumes "socket_spec S incoming outgoing" and "framed_flush S n f = (r, f')"
  shows "incoming (sock f') = incoming (sock f) \<and>
    outgoing (sock f') @ write_buffer f' = outgoing (sock f) @ write_buffer f \<and>
    (r = Some (Ok ()) \<longrightarrow> write_buffer f' = []) \<and> r \<noteq> Some Panic \<and> (socket_eager S incoming \<and> 0 < n \<longrightarrow> r = Some (Ok ())) \<and>
    read_buffer f' = read_buffer f \<and> read_pos f' = read_pos f \<and> state f' = state f"
  using assms(2)
proof (induction n arbitrary: f)
  case (Suc n)
  obtain pr g where poll: "framed_poll_flush S f = (pr, g)" by fastforce
  note step = poll_flush_sends [OF assms(1) poll]
  show ?case
  proof (cases pr)
    case Pending
    then have "framed_flush S n g = (r, f')" using Suc.prems poll by simp
    from Suc.IH [OF this] show ?thesis using step Pending by auto
  next
    case (Ready item)
    then show ?thesis using step Suc.prems poll by auto
  qed
qed simp

lemma framed_send_eager:
  assumes "socket_spec S incoming outgoing" and "socket_eager S incoming" and "0 < n"
  obtains f' where "framed_send S n m f = (Some (Ok ()), f')" and "incoming (sock f') = incoming (sock f)"
    and "outgoing (sock f') = outgoing (sock f) @ write_buffer f @ message_write_bytes_sync m"
    and "read_buffer f' = read_buffer f" and "read_pos f' = read_pos f" and "state f' = state f"
proof -
  obtain r f' where run: "framed_send S n m f = (r, f')" by fastforce
  then have "framed_flush S n (start_send m f) = (r, f')" by (simp add: framed_send_def)
  from framed_flush_sends [OF assms(1) this] show ?thesis
    using that run assms(2,3) by (auto simp: start_send_def)
qed

lemma poll_next_write_buffer: "framed_poll_next w S f = (r, f') \<Longrightarrow> write_buffer f' = write_buffer f"
proof -
  have "write_buffer (snd (poll_waiting S f)) = write_buffer f"
    by (simp add: poll_waiting_def Let_def split: prod.split poll.split outcome.split list.split)
  moreover have "write_buffer (snd (poll_reading S f)) = write_buffer f"
    by (simp add: poll_reading_def Let_def split: prod.split poll.split outcome.split)
  moreover have "write_buffer (snd (poll_ready_state w f)) = write_buffer f"
    by (simp add: poll_ready_state_def Let_def split: outcome.split)
  ultimately show "framed_poll_next w S f = (r, f') \<Longrightarrow> write_buffer f' = write_buffer f"
    by (cases "state f") (auto simp: framed_poll_next_def)
qed

lemma framed_next_write_buffer: "framed_next w S n f = (r, f') \<Longrightarrow> write_buffer f' = write_buffer f"
  by (induction n arbitrary: f) (auto split: prod.splits poll.splits dest: poll_next_write_buffer)

end
