(* ===== verification/Handshake_Handler.thy ===== *)
theory Handshake_Handler
  imports Handshake_Framed Util_Convert "HOL-Library.Multiset"
begin

text \<open>
  Filters and the pipeline of handlers: \<^verbatim>\<open>packages/handshake/src/filter\<close>, \<^verbatim>\<open>message/initiate.rs\<close>,
  \<^verbatim>\<open>message/complete.rs\<close> and \<^verbatim>\<open>handshake/handler\<close>. A filter is a trait object: a value of any type with
  the record of its methods; \<open>filter_eq\<close> is the comparison after the downcast. The lock around the list
  of filters is taken for one access at a time and is left out.
\<close>

section \<open>Filters\<close>

datatype filter_decision = Pass | Block | NeedData | Allow

fun decision_num :: "filter_decision \<Rightarrow> nat" where
  "decision_num Pass = 0"
| "decision_num Block = 1"
| "decision_num NeedData = 2"
| "decision_num Allow = 3"

definition choose_decision :: "filter_decision \<Rightarrow> filter_decision \<Rightarrow> filter_decision" where
  "choose_decision d other = (if decision_num other < decision_num d then d else other)"

record 'f filter_ops =
  on_addr :: "'f \<Rightarrow> socket_addr option \<Rightarrow> filter_decision"
  on_prot :: "'f \<Rightarrow> protocol_name option \<Rightarrow> filter_decision"
  on_ext :: "'f \<Rightarrow> extensions option \<Rightarrow> filter_decision"
  on_hash :: "'f \<Rightarrow> info_hash option \<Rightarrow> filter_decision"
  on_pid :: "'f \<Rightarrow> sha_hash option \<Rightarrow> filter_decision"
  filter_eq :: "'f \<Rightarrow> 'f \<Rightarrow> bool"

fun check_index :: "'f filter_ops \<Rightarrow> 'f list \<Rightarrow> 'f \<Rightarrow> nat option" where
  "check_index F [] x = None"
| "check_index F (y # ys) x = (if filter_eq F y x then Some 0 else map_option Suc (check_index F ys x))"

definition add_filter :: "'f filter_ops \<Rightarrow> 'f \<Rightarrow> 'f list \<Rightarrow> 'f list" where
  "add_filter F x filters = (case check_index F filters x of None \<Rightarrow> filters @ [x] | Some _ \<Rightarrow> filters)"

text \<open>\<^verbatim>\<open>Vec::swap_remove\<close>: the last element takes the place of the removed one.\<close>

definition swap_remove :: "nat \<Rightarrow> 'a list \<Rightarrow> 'a list" where
  "swap_remove i xs = butlast (xs[i := last xs])"

definition remove_filter :: "'f filter_ops \<Rightarrow> 'f \<Rightarrow> 'f list \<Rightarrow> 'f list" where
  "remove_filter F x filters = (case check_index F filters x of Some i \<Rightarrow> swap_remove i filters | None \<Rightarrow> filters)"

definition clear_filters :: "'f list \<Rightarrow> 'f list" where
  "clear_filters filters = []"

type_synonym field_decisions =
  "filter_decision \<times> filter_decision \<times> filter_decision \<times> filter_decision \<times> filter_decision"

definition choose_fields ::
    "'f filter_ops \<Rightarrow> socket_addr option \<Rightarrow> protocol_name option \<Rightarrow> extensions option \<Rightarrow> info_hash option \<Rightarrow>
     sha_hash option \<Rightarrow> 'f \<Rightarrow> field_decisions \<Rightarrow> field_decisions" where
  "choose_fields F addr prot ext hash pid x =
    (\<lambda>(addr_filter, prot_filter, ext_filter, hash_filter, pid_filter).
      (choose_decision addr_filter (on_addr F x addr), choose_decision prot_filter (on_prot F x prot),
       choose_decision ext_filter (on_ext F x ext), choose_decision hash_filter (on_hash F x hash),
       choose_decision pid_filter (on_pid F x pid)))"

definition choose_across :: "field_decisions \<Rightarrow> filter_decision" where
  "choose_across = (\<lambda>(addr_filter, prot_filter, ext_filter, hash_filter, pid_filter).
    choose_decision (choose_decision (choose_decision (choose_decision addr_filter prot_filter) ext_filter) hash_filter)
      pid_filter)"

definition should_filter ::
    "'f filter_ops \<Rightarrow> socket_addr option \<Rightarrow> protocol_name option \<Rightarrow> extensions option \<Rightarrow> info_hash option \<Rightarrow>
     sha_hash option \<Rightarrow> 'f list \<Rightarrow> bool" where
  "should_filter F addr prot ext hash pid filters \<longleftrightarrow>
    choose_across (fold (choose_fields F addr prot ext hash pid) filters (Pass, Pass, Pass, Pass, Pass)) = Block"

section \<open>Messages of the pipeline\<close>

record initiate_message =
  im_prot :: protocol_name
  im_hash :: info_hash
  im_addr :: socket_addr

record 's complete_message =
  cm_prot :: protocol_name
  cm_ext :: extensions
  cm_hash :: info_hash
  cm_pid :: sha_hash
  cm_addr :: socket_addr
  cm_sock :: 's

datatype 's handshake_type = Initiate 's initiate_message | Complete 's socket_addr

section \<open>Handlers\<close>

text \<open>The transport's \<^verbatim>\<open>connect\<close> is a parameter, a function from the address to a socket or an error.\<close>

definition initiator_handler ::
    "'f filter_ops \<Rightarrow> (socket_addr \<Rightarrow> (hs_error, 's) outcome) \<Rightarrow> 'f list \<Rightarrow> initiate_message \<Rightarrow>
     (hs_error, 's handshake_type option) outcome" where
  "initiator_handler F connect filters item =
    (if should_filter F (Some (im_addr item)) (Some (im_prot item)) None (Some (im_hash item)) None filters then Ok None
     else and_then (connect (im_addr item)) (\<lambda>s. Ok (Some (Initiate s item))))"

definition listener_handler ::
    "'f filter_ops \<Rightarrow> 'f list \<Rightarrow> (hs_error, 's \<times> socket_addr) outcome \<Rightarrow> (hs_error, 's handshake_type option) outcome" where
  "listener_handler F filters item =
    and_then item (\<lambda>(s, addr).
      Ok (if should_filter F (Some addr) None None None None filters then None else Some (Complete s addr)))"

text \<open>
  The timeouts of the two awaited operations are the numbers of polls that fit in them. A failed send
  that is not a timeout is not looked at, as in the code.
\<close>

definition initiate_handshake ::
    "wire \<Rightarrow> 's socket \<Rightarrow> 'f filter_ops \<Rightarrow> nat \<Rightarrow> nat \<Rightarrow> 's \<Rightarrow> initiate_message \<Rightarrow> extensions \<Rightarrow> sha_hash \<Rightarrow> 'f list \<Rightarrow>
     (hs_error, 's complete_message option) outcome" where
  "initiate_handshake w S F n_send n_recv s init_msg ext pid filters =
    and_then (message_from_parts (im_prot init_msg) ext (im_hash init_msg) pid) (\<lambda>handshake_msg.
      case framed_send S n_send handshake_msg (framed_new s) of
        (None, _) \<Rightarrow> Ok None
      | (Some Panic, _) \<Rightarrow> Panic
      | (Some _, framed) \<Rightarrow>
          (case framed_next w S n_recv framed of
             (Some (Some Panic), _) \<Rightarrow> Panic
           | (Some (Some (Ok msg)), framed) \<Rightarrow>
               if hm_hash msg \<noteq> im_hash init_msg then Err (HsOther ''not matching hash'')
               else if hm_prot msg \<noteq> im_prot init_msg then Err (HsOther ''not matching port'')
               else if should_filter F (Some (im_addr init_msg)) (Some (hm_prot msg)) (Some (hm_ext msg))
                   (Some (hm_hash msg)) (Some (hm_pid msg)) filters then Err (HsOther ''should not filter'')
               else Ok (Some \<lparr>cm_prot = im_prot init_msg, cm_ext = extensions_union ext (hm_ext msg),
                   cm_hash = im_hash init_msg, cm_pid = hm_pid msg, cm_addr = im_addr init_msg,
                   cm_sock = into_inner framed\<rparr>)
           | _ \<Rightarrow> Ok None))"

definition complete_handshake ::
    "wire \<Rightarrow> 's socket \<Rightarrow> 'f filter_ops \<Rightarrow> nat \<Rightarrow> nat \<Rightarrow> 's \<Rightarrow> socket_addr \<Rightarrow> extensions \<Rightarrow> sha_hash \<Rightarrow> 'f list \<Rightarrow>
     (hs_error, 's complete_message option) outcome" where
  "complete_handshake w S F n_send n_recv s addr ext pid filters =
    (case framed_next w S n_recv (framed_new s) of
       (Some (Some Panic), _) \<Rightarrow> Panic
     | (Some (Some (Ok msg)), framed) \<Rightarrow>
         if should_filter F (Some addr) (Some (hm_prot msg)) (Some (hm_ext msg)) (Some (hm_hash msg)) (Some (hm_pid msg)) filters
         then Err (HsOther ''should not filter'')
         else and_then (message_from_parts (hm_prot msg) ext (hm_hash msg) pid) (\<lambda>handshake_msg.
           case framed_send S n_send handshake_msg framed of
             (None, _) \<Rightarrow> Ok None
           | (Some Panic, _) \<Rightarrow> Panic
           | (Some _, framed) \<Rightarrow>
               Ok (Some \<lparr>cm_prot = hm_prot msg, cm_ext = extensions_union ext (hm_ext msg), cm_hash = hm_hash msg,
                   cm_pid = hm_pid msg, cm_addr = addr, cm_sock = into_inner framed\<rparr>))
     | _ \<Rightarrow> Ok None)"

definition execute_handshake ::
    "wire \<Rightarrow> 's socket \<Rightarrow> 'f filter_ops \<Rightarrow> nat \<Rightarrow> nat \<Rightarrow> extensions \<Rightarrow> sha_hash \<Rightarrow> 'f list \<Rightarrow>
     (hs_error, 's handshake_type) outcome \<Rightarrow> (hs_error, 's complete_message option) outcome" where
  "execute_handshake w S F n_send n_recv ext pid filters item =
    (case item of
       Ok (Initiate s init_msg) \<Rightarrow> initiate_handshake w S F n_send n_recv s init_msg ext pid filters
     | Ok (Complete s addr) \<Rightarrow> complete_handshake w S F n_send n_recv s addr ext pid filters
     | Err err \<Rightarrow> Err err
     | Panic \<Rightarrow> Panic)"

text \<open>The loop that feeds a handler with the items of a stream; the result is what reached the sink.\<close>

fun loop_handler :: "('i \<Rightarrow> ('e, 'r option) outcome) \<Rightarrow> 'i list \<Rightarrow> 'r list" where
  "loop_handler handler [] = []"
| "loop_handler handler (item # stream) =
    (case handler item of
       Ok (Some result) \<Rightarrow> result # loop_handler handler stream
     | Ok None \<Rightarrow> loop_handler handler stream
     | _ \<Rightarrow> [])"

section \<open>Filter decisions\<close>

lemma choose_num: "decision_num (choose_decision a b) = max (decision_num a) (decision_num b)"
  by (simp add: choose_decision_def max_def)

lemma decision_num_inj: "decision_num a = decision_num b \<longleftrightarrow> a = b"
  by (cases a; cases b) simp_all

text \<open>All decisions the filters make on a handshake, over all fields.\<close>

definition decisions ::
    "'f filter_ops \<Rightarrow> socket_addr option \<Rightarrow> protocol_name option \<Rightarrow> extensions option \<Rightarrow> info_hash option \<Rightarrow>
     sha_hash option \<Rightarrow> 'f list \<Rightarrow> filter_decision set" where
  "decisions F addr prot ext hash pid filters =
    (\<Union>x \<in> set filters. {on_addr F x addr, on_prot F x prot, on_ext F x ext, on_hash F x hash, on_pid F x pid})"

lemma choose_across_fold:
  "decision_num (choose_across (fold (choose_fields F addr prot ext hash pid) filters acc)) \<le> k \<longleftrightarrow>
    decision_num (choose_across acc) \<le> k \<and> (\<forall>d \<in> decisions F addr prot ext hash pid filters. decision_num d \<le> k)"
proof (induction filters arbitrary: acc)
  case (Cons x filters)
  have "decision_num (choose_across (choose_fields F addr prot ext hash pid x acc)) \<le> k \<longleftrightarrow>
    decision_num (choose_across acc) \<le> k \<and> (\<forall>d \<in> decisions F addr prot ext hash pid [x]. decision_num d \<le> k)"
    by (cases acc) (auto simp: choose_fields_def choose_across_def choose_num decisions_def)
  then show ?case using Cons [of "choose_fields F addr prot ext hash pid x acc"] by (auto simp: decisions_def)
qed (simp add: decisions_def)

lemma should_filter_iff:
  "should_filter F addr prot ext hash pid filters \<longleftrightarrow>
    Block \<in> decisions F addr prot ext hash pid filters \<and>
    NeedData \<notin> decisions F addr prot ext hash pid filters \<and> Allow \<notin> decisions F addr prot ext hash pid filters"
proof -
  let ?D = "decisions F addr prot ext hash pid filters"
  have block: "d = Block \<longleftrightarrow> decision_num d \<le> 1 \<and> \<not> decision_num d \<le> 0" for d by (cases d) simp_all
  have nums: "decision_num d \<le> 1 \<longleftrightarrow> d \<noteq> NeedData \<and> d \<noteq> Allow" "decision_num d \<le> 0 \<longleftrightarrow> d = Pass" for d
    by (cases d; simp)+
  have "choose_across (Pass, Pass, Pass, Pass, Pass) = Pass" by (simp add: choose_across_def choose_decision_def)
  then have "should_filter F addr prot ext hash pid filters \<longleftrightarrow>
      (\<forall>d \<in> ?D. decision_num d \<le> 1) \<and> \<not> (\<forall>d \<in> ?D. decision_num d \<le> 0)"
    unfolding should_filter_def block choose_across_fold by simp
  moreover have "d = Pass \<longleftrightarrow> d \<noteq> Block \<and> d \<noteq> NeedData \<and> d \<noteq> Allow" for d by (cases d) simp_all
  ultimately show ?thesis unfolding nums by blast
qed

section \<open>The list of filters as a set\<close>

lemma check_index_None: "check_index F ys x = None \<longleftrightarrow> (\<forall>y \<in> set ys. \<not> filter_eq F y x)"
  by (induction ys) auto

lemma check_index_Some: "check_index F ys x = Some i \<Longrightarrow> i < length ys \<and> filter_eq F (ys ! i) x"
  by (induction ys arbitrary: i) (auto split: if_splits)

lemma mset_swap_remove: "i < length xs \<Longrightarrow> mset (swap_remove i xs) = mset xs - {#xs ! i#}"
proof -
  assume i: "i < length xs"
  then have ne: "xs \<noteq> []" by auto
  have "last (xs[i := last xs]) = last xs"
    using i ne by (metis last_conv_nth last_list_update list_update_id)
  then have "xs[i := last xs] = swap_remove i xs @ [last xs]"
    using ne by (metis append_butlast_last_id list_update_nonempty swap_remove_def)
  then have "mset (swap_remove i xs) = mset (xs[i := last xs]) - {#last xs#}" by simp
  then show ?thesis using i by (simp add: mset_update)
qed

definition filters_wf :: "'f filter_ops \<Rightarrow> 'f list \<Rightarrow> bool" where
  "filters_wf F filters \<longleftrightarrow> (\<forall>x. size {#y \<in># mset filters. filter_eq F y x#} \<le> 1)"

definition filter_equality :: "'f filter_ops \<Rightarrow> bool" where
  "filter_equality F \<longleftrightarrow> equivp (filter_eq F)"

lemma add_filter_wf:
  assumes "filter_equality F" and "filters_wf F filters"
  shows "filters_wf F (add_filter F x filters)" and "\<exists>y \<in> set (add_filter F x filters). filter_eq F y x"
    and "set (add_filter F x filters) \<subseteq> insert x (set filters)" and "set filters \<subseteq> set (add_filter F x filters)"
proof -
  have "filter_eq F x x" using assms(1) by (simp add: filter_equality_def equivp_reflp)
  then show "\<exists>y \<in> set (add_filter F x filters). filter_eq F y x"
    by (auto simp: add_filter_def check_index_None split: option.split dest!: check_index_Some intro: nth_mem)
  show "filters_wf F (add_filter F x filters)"
  proof (cases "check_index F filters x")
    case None
    have none: "{#y \<in># mset filters. filter_eq F y z#} = {#}" if "filter_eq F x z" for z
    proof -
      have "\<not> filter_eq F y z" if "y \<in> set filters" for y
        using None that \<open>filter_eq F x z\<close> assms(1) check_index_None [of F filters x]
        unfolding filter_equality_def by (meson equivp_symp equivp_transp)
      then show ?thesis by simp
    qed
    then have "size {#y \<in># mset (filters @ [x]). filter_eq F y z#} \<le> 1" for z
      using assms(2) by (simp add: filters_wf_def)
    then show ?thesis using None by (simp add: add_filter_def filters_wf_def)
  qed (simp add: add_filter_def assms(2))
qed (auto simp: add_filter_def split: option.split)

lemma remove_filter_wf:
  assumes "filter_equality F" and "filters_wf F filters"
  shows "filters_wf F (remove_filter F x filters)" and "\<forall>y \<in> set (remove_filter F x filters). \<not> filter_eq F y x"
    and "y \<in> set filters \<Longrightarrow> \<not> filter_eq F y x \<Longrightarrow> y \<in> set (remove_filter F x filters)"
proof -
  have "filters_wf F (remove_filter F x filters) \<and> (\<forall>y \<in> set (remove_filter F x filters). \<not> filter_eq F y x) \<and>
    (\<forall>y \<in> set filters. \<not> filter_eq F y x \<longrightarrow> y \<in> set (remove_filter F x filters))"
  proof (cases "check_index F filters x")
    case None
    moreover have "\<forall>y \<in> set filters. \<not> filter_eq F y x" using None check_index_None [of F filters x] by simp
    ultimately show ?thesis using assms(2) by (simp add: remove_filter_def)
  next
    case (Some i)
    then have i: "i < length filters" "filter_eq F (filters ! i) x" using check_index_Some by fastforce+
    let ?rest = "mset filters - {#filters ! i#}"
    have ms: "mset (remove_filter F x filters) = ?rest" using Some mset_swap_remove [OF i(1)] by (simp add: remove_filter_def)
    have split: "mset filters = add_mset (filters ! i) ?rest" using i(1) by (simp add: nth_mem_mset)
    have "size {#y \<in># mset filters. filter_eq F y x#} \<le> 1" using assms(2) by (simp add: filters_wf_def)
    then have "size {#y \<in># ?rest. filter_eq F y x#} = 0" using i(2) by (subst (asm) split) simp
    then have "\<forall>y \<in># ?rest. \<not> filter_eq F y x" unfolding size_eq_0_iff_empty filter_mset_eq_mempty_iff by blast
    moreover have "filters_wf F (remove_filter F x filters)"
      unfolding filters_wf_def ms
    proof
      fix z
      have "size {#y \<in># ?rest. filter_eq F y z#} \<le> size {#y \<in># mset filters. filter_eq F y z#}"
        by (intro size_mset_mono multiset_filter_mono) simp
      also have "\<dots> \<le> 1" using assms(2) by (simp add: filters_wf_def)
      finally show "size {#y \<in># ?rest. filter_eq F y z#} \<le> 1" .
    qed
    moreover have "y \<in># ?rest" if "y \<in> set filters" "\<not> filter_eq F y x" for y
    proof -
      have "y \<in># add_mset (filters ! i) ?rest" using that(1) split by (metis in_multiset_in_set)
      then show ?thesis using that(2) i(2) by auto
    qed
    ultimately show ?thesis using ms by (metis set_mset_mset)
  qed
  then show "filters_wf F (remove_filter F x filters)" and "\<forall>y \<in> set (remove_filter F x filters). \<not> filter_eq F y x"
    and "y \<in> set filters \<Longrightarrow> \<not> filter_eq F y x \<Longrightarrow> y \<in> set (remove_filter F x filters)"
    by blast+
qed

section \<open>The loop\<close>

lemma loop_handler_append_error:
  "(\<exists>e. handler bad = Err e) \<or> handler bad = Panic \<Longrightarrow> loop_handler handler (xs @ bad # ys) = loop_handler handler xs"
  by (induction xs) (auto split: outcome.splits option.splits)

end
