(* ===== verification/Handshake_Properties.thy ===== *)
theory Handshake_Properties
  imports Handshake_Handler
begin

text \<open>
  What the handshake promises: the framed transport reads exactly one message under every schedule of
  the socket, two ends agree on what they negotiated, and what filters and handler loops do. Each
  property with hypotheses is followed by a concrete instance.
\<close>

section \<open>A socket in memory\<close>

definition memory_socket :: "(bytes \<times> bytes) socket" where
  "memory_socket = \<lparr>
    poll_read = (\<lambda>n (inp, out). (Ready (Ok (take n inp)), (drop n inp, out))),
    poll_write = (\<lambda>bs (inp, out). (Ready (Ok (length bs)), (inp, out @ bs))),
    sock_poll_flush = (\<lambda>s. (Ready (Ok ()), s)),
    poll_shutdown = (\<lambda>s. (Ready (Ok ()), s))\<rparr>"

lemma memory_socket_spec: "socket_spec memory_socket fst snd"
  by (auto simp: socket_spec_def memory_socket_def)

lemma memory_socket_eager: "socket_eager memory_socket fst"
  by (auto simp: socket_eager_def memory_socket_def)

definition demo_message :: "u8 \<Rightarrow> handshake_message" where
  "demo_message b = \<lparr>hm_prot = BitTorrent, hm_ext = [0, 0, 0, 0, 0, 0x10, 0, b], hm_hash = replicate 20 7,
    hm_pid = replicate 20 b\<rparr>"

lemma demo_message_wf: "message_wf (demo_message b)"
  by (simp add: message_wf_def demo_message_def extensions_wf_def NUM_EXTENSION_BYTES_def sha_wf_def SHA_HASH_LEN_def)

lemma demo_message_length: "length (message_write_bytes_sync (demo_message b)) = 68"
  by (simp add: message_write_bytes_sync_def demo_message_def protocol_write_bytes_def length_BT_PROTOCOL)

definition exact_filters :: "nat filter_ops" where
  "exact_filters = \<lparr>on_addr = (\<lambda>_ _. Block), on_prot = (\<lambda>_ _. Pass), on_ext = (\<lambda>_ _. Pass), on_hash = (\<lambda>_ _. Pass),
    on_pid = (\<lambda>x _. if x = 0 then Allow else Pass), filter_eq = (=)\<rparr>"

section \<open>The framed transport\<close>

text \<open>
  C29. Reading a handshake from a socket that will deliver a message and then other bytes, in whatever
  portions and with whatever pauses: nothing is written, and the result is that exact message with
  all other bytes still in the socket, unless the time is up or the socket reports an error. It is
  never another message or a panic. When the socket makes progress at every poll, one poll more than
  the message has bytes is always enough.
\<close>

theorem framed_reads_one_message:
  assumes "wire_spec w" and "socket_spec S incoming outgoing" and "message_wf m"
    and "incoming s = message_write_bytes_sync m @ rest" and "framed_next w S n (framed_new s) = (r, f)"
  shows "outgoing (sock f) = outgoing s \<and>
    (r = None \<or> (\<exists>e. r = Some (Some (Err e))) \<or> r = Some (Some (Ok m)) \<and> incoming (sock f) = rest) \<and>
    (socket_eager S incoming \<and> length (message_write_bytes_sync m) + 1 \<le> n \<longrightarrow> r = Some (Some (Ok m)))"
proof -
  have rd: "reading incoming (message_write_bytes_sync m) rest (framed_new s)"
    by (rule reading_new [of incoming, OF assms(4)])
  have "polls_left (message_write_bytes_sync m) (framed_new s) = length (message_write_bytes_sync m) + 1"
    and "sock (framed_new s) = s"
    by (simp_all add: polls_left_def framed_new_def)
  then show ?thesis using framed_next_reading [OF assms(1-3) rd assms(5)] by auto
qed

theorem framed_reads_one_message_witness:
  "\<exists>f. framed_next big_endian memory_socket 69
      (framed_new (message_write_bytes_sync (demo_message 1) @ [55, 54, 21], [])) = (Some (Some (Ok (demo_message 1))), f) \<and>
    fst (sock f) = [55, 54, 21]"
proof -
  let ?s = "(message_write_bytes_sync (demo_message 1) @ [55, 54, 21], [] :: bytes)"
  obtain r f where run: "framed_next big_endian memory_socket 69 (framed_new ?s) = (r, f)" by fastforce
  have "fst ?s = message_write_bytes_sync (demo_message 1) @ [55, 54, 21]" by simp
  from framed_reads_one_message [OF wire_spec_big_endian memory_socket_spec demo_message_wf this run]
  show ?thesis using run memory_socket_eager demo_message_length [of 1] by auto
qed

lemma initiate_completes:
  assumes "wire_spec w" and "socket_spec S incoming outgoing" and "socket_eager S incoming" and "message_wf a" and "message_wf b"
    and "hm_prot a = hm_prot b" and "hm_hash a = hm_hash b" and "incoming s = message_write_bytes_sync b @ rest"
    and "length (message_write_bytes_sync b) + 1 \<le> n"
    and "\<not> should_filter F (Some addr) (Some (hm_prot b)) (Some (hm_ext b)) (Some (hm_hash b)) (Some (hm_pid b)) filters"
  shows "\<exists>t. initiate_handshake w S F n n s \<lparr>im_prot = hm_prot a, im_hash = hm_hash a, im_addr = addr\<rparr> (hm_ext a) (hm_pid a)
      filters = Ok (Some \<lparr>cm_prot = hm_prot a, cm_ext = extensions_union (hm_ext a) (hm_ext b), cm_hash = hm_hash a,
        cm_pid = hm_pid b, cm_addr = addr, cm_sock = t\<rparr>) \<and>
    outgoing t = outgoing s @ message_write_bytes_sync a \<and> incoming t = rest"
proof -
  have "0 < n" using assms(9) by simp
  then obtain f where sent: "framed_send S n a (framed_new s) = (Some (Ok ()), f)" "incoming (sock f) = incoming s"
    "outgoing (sock f) = outgoing s @ message_write_bytes_sync a" "read_buffer f = []" "read_pos f = 0" "state f = Waiting"
    using framed_send_eager [OF assms(2,3), of n a "framed_new s"] by (auto simp: framed_new_def)
  then have rd: "reading incoming (message_write_bytes_sync b) rest f" using assms(8) by (simp add: reading_def)
  obtain r g where run: "framed_next w S n f = (r, g)" by fastforce
  have "r = Some (Some (Ok b))"
    using framed_next_reading(3) [OF assms(1,2,5) rd run assms(3)] assms(9) sent(6) by (simp add: polls_left_def)
  moreover from this have "incoming (sock g) = rest" "outgoing (sock g) = outgoing s @ message_write_bytes_sync a"
    using framed_next_reading(1,2) [OF assms(1,2,5) rd run] sent(3) by auto
  ultimately show ?thesis
    using sent(1) run assms(10)
    by (simp add: initiate_handshake_def into_inner_def message_from_parts_wf [OF assms(4)] assms(6,7) [symmetric])
qed

lemma complete_completes:
  assumes "wire_spec w" and "socket_spec S incoming outgoing" and "socket_eager S incoming" and "message_wf a" and "message_wf b"
    and "hm_prot a = hm_prot b" and "hm_hash a = hm_hash b" and "incoming s = message_write_bytes_sync a @ rest"
    and "length (message_write_bytes_sync a) + 1 \<le> n"
    and "\<not> should_filter F (Some addr) (Some (hm_prot a)) (Some (hm_ext a)) (Some (hm_hash a)) (Some (hm_pid a)) filters"
  shows "\<exists>t. complete_handshake w S F n n s addr (hm_ext b) (hm_pid b) filters =
      Ok (Some \<lparr>cm_prot = hm_prot a, cm_ext = extensions_union (hm_ext b) (hm_ext a), cm_hash = hm_hash a,
        cm_pid = hm_pid a, cm_addr = addr, cm_sock = t\<rparr>) \<and>
    outgoing t = outgoing s @ message_write_bytes_sync b \<and> incoming t = rest"
proof -
  have n: "0 < n" using assms(9) by simp
  have rd: "reading incoming (message_write_bytes_sync a) rest (framed_new s)" by (rule reading_new [of incoming, OF assms(8)])
  obtain r f where run: "framed_next w S n (framed_new s) = (r, f)" by fastforce
  have r: "r = Some (Some (Ok a))"
    using framed_next_reading(3) [OF assms(1,2,4) rd run assms(3)] assms(9) by (simp add: polls_left_def framed_new_def)
  then have f: "incoming (sock f) = rest" "outgoing (sock f) = outgoing s" "write_buffer f = []"
    using framed_next_reading(1,2) [OF assms(1,2,4) rd run] framed_next_write_buffer [OF run] by (auto simp: framed_new_def)
  obtain g where "framed_send S n b f = (Some (Ok ()), g)" "incoming (sock g) = rest"
    "outgoing (sock g) = outgoing s @ message_write_bytes_sync b"
    using framed_send_eager [OF assms(2,3) n, of b f] f by auto
  then show ?thesis
    using run r assms(10)
    by (simp add: complete_handshake_def into_inner_def message_from_parts_wf [OF assms(5)] assms(6,7))
qed

text \<open>
  C28. Both ends of a handshake agree. The initiator reads what the other end writes and the other way
  round, no filter blocks, the sockets make progress and the timeouts allow a poll for every byte.
  Then both complete with the same protocol, hash and extensions, the bitwise conjunction of the two
  offers; each learns the peer id of the other; each has sent exactly its own message and has left the
  bytes that follow the other's message in the socket.
\<close>

theorem handshake_agreement:
  assumes "wire_spec w" and "socket_spec S incoming outgoing" and "socket_eager S incoming"
    and "message_wf a" and "message_wf b" and "hm_prot a = hm_prot b" and "hm_hash a = hm_hash b"
    and "incoming si = message_write_bytes_sync b @ rest_i" and "incoming sc = message_write_bytes_sync a @ rest_c"
    and "length (message_write_bytes_sync a) + 1 \<le> n" and "length (message_write_bytes_sync b) + 1 \<le> n"
    and "\<not> should_filter F (Some addr_c) (Some (hm_prot b)) (Some (hm_ext b)) (Some (hm_hash b)) (Some (hm_pid b)) filters_i"
    and "\<not> should_filter G (Some addr_i) (Some (hm_prot a)) (Some (hm_ext a)) (Some (hm_hash a)) (Some (hm_pid a)) filters_c"
  shows "\<exists>ci cc.
    initiate_handshake w S F n n si \<lparr>im_prot = hm_prot a, im_hash = hm_hash a, im_addr = addr_c\<rparr> (hm_ext a) (hm_pid a)
      filters_i = Ok (Some ci) \<and>
    complete_handshake w S G n n sc addr_i (hm_ext b) (hm_pid b) filters_c = Ok (Some cc) \<and>
    cm_prot ci = cm_prot cc \<and> cm_hash ci = cm_hash cc \<and> cm_ext ci = cm_ext cc \<and>
    cm_ext ci = map2 (AND) (hm_ext a) (hm_ext b) \<and> cm_pid ci = hm_pid b \<and> cm_pid cc = hm_pid a \<and>
    outgoing (cm_sock ci) = outgoing si @ message_write_bytes_sync a \<and> incoming (cm_sock ci) = rest_i \<and>
    outgoing (cm_sock cc) = outgoing sc @ message_write_bytes_sync b \<and> incoming (cm_sock cc) = rest_c"
proof -
  have "extensions_wf (hm_ext a)" "extensions_wf (hm_ext b)" using assms(4,5) by (simp_all add: message_wf_def)
  then have "extensions_union (hm_ext a) (hm_ext b) = map2 (AND) (hm_ext a) (hm_ext b)"
    and "extensions_union (hm_ext b) (hm_ext a) = extensions_union (hm_ext a) (hm_ext b)"
    using extensions_union_map2 extensions_union_commute by blast+
  then show ?thesis
    using initiate_completes [OF assms(1-7,8,11,12)] complete_completes [OF assms(1-7,9,10,13)] by auto
qed

theorem handshake_agreement_witness:
  "\<exists>ci cc.
    initiate_handshake big_endian memory_socket exact_filters 69 69 (message_write_bytes_sync (demo_message 2), [])
      \<lparr>im_prot = BitTorrent, im_hash = replicate 20 7, im_addr = SockV4 \<lparr>v4_ip = Ipv4Addr 10 0 0 2, v4_port = 6881\<rparr>\<rparr>
      (hm_ext (demo_message 1)) (hm_pid (demo_message 1)) ([] :: nat list) = Ok (Some ci) \<and>
    complete_handshake big_endian memory_socket exact_filters 69 69 (snd (cm_sock ci), [])
      (SockV4 \<lparr>v4_ip = Ipv4Addr 10 0 0 1, v4_port = 6881\<rparr>) (hm_ext (demo_message 2)) (hm_pid (demo_message 2)) ([] :: nat list) =
      Ok (Some cc) \<and>
    cm_ext ci = cm_ext cc \<and> cm_pid ci = replicate 20 2 \<and> cm_pid cc = replicate 20 1"
proof -
  let ?a = "demo_message 1" and ?b = "demo_message 2"
  have "\<not> should_filter exact_filters addr prot ext hash pid []" for addr prot ext hash pid
    by (simp add: should_filter_def choose_across_def choose_decision_def)
  then show ?thesis
    using handshake_agreement [OF wire_spec_big_endian memory_socket_spec memory_socket_eager demo_message_wf demo_message_wf,
        of 1 2 "(message_write_bytes_sync ?b, [])" "[]" "(message_write_bytes_sync ?a, [])" "[]" 69 exact_filters
        "SockV4 \<lparr>v4_ip = Ipv4Addr 10 0 0 2, v4_port = 6881\<rparr>" "[] :: nat list" exact_filters
        "SockV4 \<lparr>v4_ip = Ipv4Addr 10 0 0 1, v4_port = 6881\<rparr>" "[] :: nat list"]
      demo_message_length
    by (auto simp: demo_message_def)
qed

section \<open>Filters and loops\<close>

text \<open>
  C31. When a handshake is filtered: some filter blocks one of the fields and no filter, on any field,
  allows it or needs data. The decision is not made field by field: allowing the address overrides a
  block of the peer id, and so does a filter that is still waiting for another field.
\<close>

theorem should_filter_across_fields:
  "should_filter F addr prot ext hash pid filters \<longleftrightarrow>
    Block \<in> decisions F addr prot ext hash pid filters \<and>
    NeedData \<notin> decisions F addr prot ext hash pid filters \<and> Allow \<notin> decisions F addr prot ext hash pid filters"
  by (rule should_filter_iff)

text \<open>
  C30. The filters form a set under their equality: adding and removing keep at most one filter of each
  kind, an added filter is present, a removed one is gone, and all others stay. Clearing leaves no filter, and then
  no handshake is filtered out.
\<close>

theorem filters_form_a_set:
  assumes "filter_equality F" and "filters_wf F filters"
  shows "filters_wf F (add_filter F x filters) \<and> (\<exists>y \<in> set (add_filter F x filters). filter_eq F y x) \<and>
    set filters \<subseteq> set (add_filter F x filters) \<and> set (add_filter F x filters) \<subseteq> insert x (set filters) \<and>
    filters_wf F (remove_filter F x filters) \<and> (\<forall>y. y \<in> set (remove_filter F x filters) \<longleftrightarrow> y \<in> set filters \<and> \<not> filter_eq F y x) \<and>
    set (clear_filters filters) = {} \<and> filters_wf F (clear_filters filters) \<and>
    \<not> should_filter F addr prot ext hash pid (clear_filters filters)"
proof -
  have sub: "y \<in> set filters" if "y \<in> set (remove_filter F x filters)" for y
    using that check_index_Some [of F filters x] mset_swap_remove [of _ filters]
    by (auto simp: remove_filter_def split: option.splits dest!: in_diffD simp flip: set_mset_mset)
  have "set (clear_filters filters) = {} \<and> filters_wf F (clear_filters filters) \<and>
      \<not> should_filter F addr prot ext hash pid (clear_filters filters)"
    by (simp add: filters_wf_def clear_filters_def should_filter_iff decisions_def)
  then show ?thesis using add_filter_wf [OF assms] remove_filter_wf [OF assms] sub by blast
qed

theorem filters_form_a_set_witness:
  "(\<forall>y. y \<in> set (remove_filter exact_filters 2 [1, 2, 3]) \<longleftrightarrow> y = 1 \<or> y = 3) \<and>
   set (clear_filters [1, 2, 3 :: nat]) = {}"
proof -
  have eq: "filter_equality exact_filters"
    by (simp add: filter_equality_def exact_filters_def identity_equivp)
  have "size {#y \<in># mset [1, 2, 3]. y = x#} \<le> 1" for x :: nat by simp
  then have "filters_wf exact_filters [1, 2, 3]" unfolding filters_wf_def by (simp add: exact_filters_def)
  from filters_form_a_set [OF eq this, of 2] show ?thesis by (auto simp: exact_filters_def)
qed

text \<open>
  C32. The first address that cannot be connected to ends the loop for outgoing connections: of the
  messages after it none is handled, however many there are.
\<close>

theorem failed_connect_ends_initiator_loop:
  assumes "connect (im_addr msg) = Err e"
    and "\<not> should_filter F (Some (im_addr msg)) (Some (im_prot msg)) None (Some (im_hash msg)) None filters"
  shows "loop_handler (initiator_handler F connect filters) (before @ msg # after) =
    loop_handler (initiator_handler F connect filters) before"
  using assms by (intro loop_handler_append_error) (simp add: initiator_handler_def)

theorem failed_connect_ends_initiator_loop_witness:
  "loop_handler (initiator_handler exact_filters
      (\<lambda>addr. case addr of SockV4 a \<Rightarrow> if v4_port a = 1 then Err (SockError 111) else Ok () | SockV6 a \<Rightarrow> Ok ()) [])
    [\<lparr>im_prot = BitTorrent, im_hash = [], im_addr = SockV4 \<lparr>v4_ip = Ipv4Addr 10 0 0 1, v4_port = 1\<rparr>\<rparr>,
     \<lparr>im_prot = BitTorrent, im_hash = [], im_addr = SockV4 \<lparr>v4_ip = Ipv4Addr 10 0 0 1, v4_port = 2\<rparr>\<rparr>] = []"
  using failed_connect_ends_initiator_loop [of
      "\<lambda>addr. case addr of SockV4 a \<Rightarrow> if v4_port a = 1 then Err (SockError 111) else Ok () | SockV6 a \<Rightarrow> Ok ()"
      "\<lparr>im_prot = BitTorrent, im_hash = [], im_addr = SockV4 \<lparr>v4_ip = Ipv4Addr 10 0 0 1, v4_port = 1\<rparr>\<rparr>"
      "SockError 111" exact_filters "[]" "[]"]
  by (simp add: should_filter_def choose_across_def choose_decision_def)

end
