(* ===== verification/Metainfo_Parse.thy ===== *)
theory Metainfo_Parse
  imports Bencode_Dict Util_Sha
begin

text \<open>
  Torrent files: the records of \<^verbatim>\<open>packages/metainfo/src/metainfo.rs\<close>, their parsers, and the typed field
  lookups of \<^verbatim>\<open>parse.rs\<close>. A string is its UTF-8 bytes. A path is a string too, as on Unix, with \<^verbatim>\<open>PathBuf\<close>'s
  \<^verbatim>\<open>push\<close> and \<^verbatim>\<open>iter\<close>. SHA-1 is a parameter.
\<close>

section \<open>Paths\<close>

definition SLASH :: u8 where "SLASH = 0x2F"

definition path_push :: "bytes \<Rightarrow> bytes \<Rightarrow> bytes" where
  "path_push p q =
    (if q \<noteq> [] \<and> hd q = SLASH then q
     else if p = [] \<or> last p = SLASH then p @ q
     else p @ [SLASH] @ q)"

text \<open>Components between slashes; empty ones and a dot that is not the first are skipped, and a root is kept.\<close>

fun split_slash :: "bytes \<Rightarrow> bytes \<Rightarrow> bytes list" where
  "split_slash acc [] = [rev acc]"
| "split_slash acc (b # bs) = (if b = SLASH then rev acc # split_slash [] bs else split_slash (b # acc) bs)"

definition path_iter :: "bytes \<Rightarrow> bytes list" where
  "path_iter p =
    (let parts = split_slash [] p; keep = (\<lambda>c. c \<noteq> [] \<and> c \<noteq> [0x2E])
     in if p \<noteq> [] \<and> hd p = SLASH then [SLASH] # filter keep parts
        else if hd parts = [0x2E] then [0x2E] # filter keep (tl parts)
        else filter keep parts)"

section \<open>Keys and lookups\<close>

datatype parse_error = PeIo string | PeDir string | PeConvert bencode_convert_error | PeParse bencode_parse_error | PeMissingData nat

definition ROOT_ERROR_KEY :: bytes where "ROOT_ERROR_KEY = ascii ''root''"
definition ANNOUNCE_LIST_KEY :: bytes where "ANNOUNCE_LIST_KEY = ascii ''announce-list''"
definition ANNOUNCE_URL_KEY :: bytes where "ANNOUNCE_URL_KEY = ascii ''announce''"
definition CREATION_DATE_KEY :: bytes where "CREATION_DATE_KEY = ascii ''creation date''"
definition COMMENT_KEY :: bytes where "COMMENT_KEY = ascii ''comment''"
definition CREATED_BY_KEY :: bytes where "CREATED_BY_KEY = ascii ''created by''"
definition ENCODING_KEY :: bytes where "ENCODING_KEY = ascii ''encoding''"
definition INFO_KEY :: bytes where "INFO_KEY = ascii ''info''"
definition PIECE_LENGTH_KEY :: bytes where "PIECE_LENGTH_KEY = ascii ''piece length''"
definition PIECES_KEY :: bytes where "PIECES_KEY = ascii ''pieces''"
definition PRIVATE_KEY :: bytes where "PRIVATE_KEY = ascii ''private''"
definition NAME_KEY :: bytes where "NAME_KEY = ascii ''name''"
definition FILES_KEY :: bytes where "FILES_KEY = ascii ''files''"
definition LENGTH_KEY :: bytes where "LENGTH_KEY = ascii ''length''"
definition MD5SUM_KEY :: bytes where "MD5SUM_KEY = ascii ''md5sum''"
definition PATH_KEY :: bytes where "PATH_KEY = ascii ''path''"

lemmas metainfo_keys = ROOT_ERROR_KEY_def ANNOUNCE_LIST_KEY_def ANNOUNCE_URL_KEY_def CREATION_DATE_KEY_def
  COMMENT_KEY_def CREATED_BY_KEY_def ENCODING_KEY_def INFO_KEY_def PIECE_LENGTH_KEY_def PIECES_KEY_def
  PRIVATE_KEY_def NAME_KEY_def FILES_KEY_def LENGTH_KEY_def MD5SUM_KEY_def PATH_KEY_def

type_synonym ref_map = "(bytes \<times> bencode_ref) list"

fun result_ok :: "('e, 'a) outcome \<Rightarrow> 'a option" where
  "result_ok (Ok x) = Some x"
| "result_ok _ = None"

definition i64_to_u64 :: "i64 \<Rightarrow> ('e, u64) outcome" where
  "i64_to_u64 n = (if 0 \<le> sint n then Ok (ucast n) else Panic)"

definition parse_root_dict :: "bencode_ref \<Rightarrow> (parse_error, ref_map) outcome" where
  "parse_root_dict root_bencode = convert_dict PeConvert root_bencode ROOT_ERROR_KEY"

definition parse_announce_list :: "ref_map \<Rightarrow> bencode_ref list option" where
  "parse_announce_list root_dict = result_ok (lookup_and_convert_list PeConvert root_dict ANNOUNCE_LIST_KEY)"

definition convert_announce_list :: "bencode_ref list \<Rightarrow> bytes list list" where
  "convert_announce_list xs = map (List.map_filter ref_str) (List.map_filter ref_list xs)"

definition parse_announce_url :: "ref_map \<Rightarrow> bytes option" where
  "parse_announce_url root_dict = result_ok (lookup_and_convert_str PeConvert root_dict ANNOUNCE_URL_KEY)"

definition parse_creation_date :: "ref_map \<Rightarrow> i64 option" where
  "parse_creation_date root_dict = result_ok (lookup_and_convert_int PeConvert root_dict CREATION_DATE_KEY)"

definition parse_comment :: "ref_map \<Rightarrow> bytes option" where
  "parse_comment root_dict = result_ok (lookup_and_convert_str PeConvert root_dict COMMENT_KEY)"

definition parse_created_by :: "ref_map \<Rightarrow> bytes option" where
  "parse_created_by root_dict = result_ok (lookup_and_convert_str PeConvert root_dict CREATED_BY_KEY)"

definition parse_encoding :: "ref_map \<Rightarrow> bytes option" where
  "parse_encoding root_dict = result_ok (lookup_and_convert_str PeConvert root_dict ENCODING_KEY)"

definition parse_info_bencode :: "ref_map \<Rightarrow> (parse_error, bencode_ref) outcome" where
  "parse_info_bencode root_dict = lookup_key PeConvert root_dict INFO_KEY"

definition parse_piece_length :: "ref_map \<Rightarrow> (parse_error, u64) outcome" where
  "parse_piece_length info_dict = and_then (lookup_and_convert_int PeConvert info_dict PIECE_LENGTH_KEY) i64_to_u64"

definition parse_pieces :: "ref_map \<Rightarrow> (parse_error, bytes) outcome" where
  "parse_pieces info_dict = lookup_and_convert_bytes PeConvert info_dict PIECES_KEY"

definition parse_private :: "ref_map \<Rightarrow> bool option" where
  "parse_private info_dict = map_option (\<lambda>p. p = 1) (result_ok (lookup_and_convert_int PeConvert info_dict PRIVATE_KEY))"

definition parse_name :: "ref_map \<Rightarrow> (parse_error, bytes) outcome" where
  "parse_name info_dict = lookup_and_convert_str PeConvert info_dict NAME_KEY"

definition parse_files_list :: "ref_map \<Rightarrow> (parse_error, bencode_ref list) outcome" where
  "parse_files_list info_dict = lookup_and_convert_list PeConvert info_dict FILES_KEY"

definition parse_file_dict :: "bencode_ref \<Rightarrow> (parse_error, ref_map) outcome" where
  "parse_file_dict file_bencode = convert_dict PeConvert file_bencode FILES_KEY"

definition parse_length :: "ref_map \<Rightarrow> (parse_error, u64) outcome" where
  "parse_length d = and_then (lookup_and_convert_int PeConvert d LENGTH_KEY) i64_to_u64"

definition parse_md5sum :: "ref_map \<Rightarrow> bytes option" where
  "parse_md5sum d = result_ok (lookup_and_convert_bytes PeConvert d MD5SUM_KEY)"

definition parse_path_list :: "ref_map \<Rightarrow> (parse_error, bencode_ref list) outcome" where
  "parse_path_list file_dict = lookup_and_convert_list PeConvert file_dict PATH_KEY"

definition parse_path_str :: "bencode_ref \<Rightarrow> (parse_error, bytes) outcome" where
  "parse_path_str path_bencode = convert_str PeConvert path_bencode PATH_KEY"

section \<open>Torrent files\<close>

record torrent_file =
  file_len :: u64
  file_path :: bytes
  file_md5sum :: "bytes option"

record info =
  info_info_hash :: sha_hash
  info_files :: "torrent_file list"
  info_pieces :: "sha_hash list"
  piece_len :: u64
  is_private :: "bool option"
  file_directory :: "bytes option"

record metainfo =
  mi_comment :: "bytes option"
  announce :: "bytes option"
  announce_list :: "bytes list list option"
  mi_encoding :: "bytes option"
  created_by :: "bytes option"
  creation_date :: "i64 option"
  mi_info :: info

definition metainfo_new :: "info \<Rightarrow> metainfo" where
  "metainfo_new i = \<lparr>mi_comment = None, announce = None, announce_list = None, mi_encoding = None, created_by = None,
    creation_date = None, mi_info = i\<rparr>"

text \<open>\<^verbatim>\<open>chunks(n)\<close> of the standard library.\<close>

fun chunks :: "nat \<Rightarrow> 'a list \<Rightarrow> 'a list list" where
  "chunks n xs = (if n = 0 \<or> xs = [] then [] else take n xs # chunks n (drop n xs))"

declare chunks.simps [simp del]

definition allocate_pieces :: "bytes \<Rightarrow> (parse_error, sha_hash list) outcome" where
  "allocate_pieces pieces =
    (if length pieces mod SHA_HASH_LEN = 0 then Ok (chunks SHA_HASH_LEN pieces) else Err (PeMissingData (length pieces)))"

definition is_multi_file_torrent :: "ref_map \<Rightarrow> ('e, bool) outcome" where
  "is_multi_file_torrent info_dict = (case parse_length info_dict of Ok _ \<Rightarrow> Ok False | Err _ \<Rightarrow> Ok True | Panic \<Rightarrow> Panic)"

definition as_single_file :: "ref_map \<Rightarrow> (parse_error, torrent_file) outcome" where
  "as_single_file info_dict =
    and_then (parse_length info_dict) (\<lambda>len.
    let md5sum = parse_md5sum info_dict in
    and_then (parse_name info_dict) (\<lambda>name.
      Ok \<lparr>file_len = len, file_path = name, file_md5sum = md5sum\<rparr>))"

fun push_paths :: "bencode_ref list \<Rightarrow> bytes \<Rightarrow> (parse_error, bytes) outcome" where
  "push_paths [] path_buf = Ok path_buf"
| "push_paths (path_bencode # rest) path_buf =
    and_then (parse_path_str path_bencode) (\<lambda>path. push_paths rest (path_push path_buf path))"

definition as_multi_file :: "ref_map \<Rightarrow> (parse_error, torrent_file) outcome" where
  "as_multi_file file_dict =
    and_then (parse_length file_dict) (\<lambda>len.
    let md5sum = parse_md5sum file_dict in
    and_then (parse_path_list file_dict) (\<lambda>path_list_bencode.
    and_then (push_paths path_list_bencode []) (\<lambda>path_buf.
      Ok \<lparr>file_len = len, file_path = path_buf, file_md5sum = md5sum\<rparr>)))"

fun parse_files :: "bencode_ref list \<Rightarrow> (parse_error, torrent_file list) outcome" where
  "parse_files [] = Ok []"
| "parse_files (file_bencode # rest) =
    and_then (parse_file_dict file_bencode) (\<lambda>file_dict.
    and_then (as_multi_file file_dict) (\<lambda>file.
    and_then (parse_files rest) (\<lambda>files. Ok (file # files))))"

definition parse_info_dictionary :: "(bytes \<Rightarrow> sha_hash) \<Rightarrow> bencode_ref \<Rightarrow> (parse_error, info) outcome" where
  "parse_info_dictionary sha1 info_bencode =
    (let info_hash = from_bytes sha1 (buffer info_bencode) in
    and_then (parse_root_dict info_bencode) (\<lambda>info_dict.
    and_then (parse_piece_length info_dict) (\<lambda>piece_len.
    let is_private = parse_private info_dict in
    and_then (parse_pieces info_dict) (\<lambda>pieces.
    and_then (allocate_pieces pieces) (\<lambda>piece_buffers.
    and_then (is_multi_file_torrent info_dict) (\<lambda>multi.
      if multi then
        and_then (parse_name info_dict) (\<lambda>file_directory.
        and_then (parse_files_list info_dict) (\<lambda>files_bencode.
        and_then (parse_files files_bencode) (\<lambda>files_list.
          Ok \<lparr>info_info_hash = info_hash, info_files = files_list, info_pieces = piece_buffers, piece_len = piece_len,
              is_private = is_private, file_directory = Some (path_push [] file_directory)\<rparr>)))
      else
        and_then (as_single_file info_dict) (\<lambda>file.
          Ok \<lparr>info_info_hash = info_hash, info_files = [file], info_pieces = piece_buffers, piece_len = piece_len,
              is_private = is_private, file_directory = None\<rparr>)))))))"

fun parse_err :: "(bencode_parse_error, 'a) outcome \<Rightarrow> (parse_error, 'a) outcome" where
  "parse_err (Ok x) = Ok x"
| "parse_err (Err e) = Err (PeParse e)"
| "parse_err Panic = Panic"

definition parse_info_bytes :: "(bytes \<Rightarrow> sha_hash) \<Rightarrow> bytes \<Rightarrow> (parse_error, info) outcome" where
  "parse_info_bytes sha1 bs =
    and_then (parse_err (bencode_ref_decode bs bdecode_opt_default)) (parse_info_dictionary sha1)"

definition parse_meta_bytes :: "(bytes \<Rightarrow> sha_hash) \<Rightarrow> bytes \<Rightarrow> (parse_error, metainfo) outcome" where
  "parse_meta_bytes sha1 bs =
    and_then (parse_err (bencode_ref_decode bs bdecode_opt_default)) (\<lambda>root_bencode.
    and_then (parse_root_dict root_bencode) (\<lambda>root_dict.
    and_then (parse_info_bencode root_dict) (\<lambda>info_bencode.
    and_then (parse_info_dictionary sha1 info_bencode) (\<lambda>info.
      Ok \<lparr>mi_comment = parse_comment root_dict, announce = parse_announce_url root_dict,
          announce_list = map_option convert_announce_list (parse_announce_list root_dict),
          mi_encoding = parse_encoding root_dict, created_by = parse_created_by root_dict,
          creation_date = parse_creation_date root_dict, mi_info = info\<rparr>))))"

end
