(* ===== verification/Metainfo_Hasher.thy ===== *)
theory Metainfo_Hasher
  imports Metainfo_Parse "HOL-Library.Multiset"
begin

text \<open>
  The piece hasher of \<^verbatim>\<open>packages/metainfo/src/builder\<close>: the reusable buffers (\<^verbatim>\<open>buffer.rs\<close>), the master that cuts
  the data of an accessor into pieces and the worker threads that hash them (\<^verbatim>\<open>worker.rs\<close>). Each thread is a
  function that takes one step on the shared state, or \<^const>\<open>None\<close> where it is blocked; a schedule says which
  thread runs next. The \<^verbatim>\<open>SegQueue\<close> of crossbeam and the readers handed out by an accessor are parameters.
\<close>

section \<open>Parameters\<close>

text \<open>The queue of crossbeam: the operations, and its documentation (unbounded, first in first out).\<close>

record ('q, 'a) seg_queue =
  sq_new :: 'q
  sq_push :: "'a \<Rightarrow> 'q \<Rightarrow> 'q"
  sq_pop :: "'q \<Rightarrow> ('a \<times> 'q) option"

locale fifo_queue =
  fixes Q :: "('q, 'a) seg_queue" and items :: "'q \<Rightarrow> 'a list"
  assumes items_new: "items (sq_new Q) = []"
    and items_push: "items (sq_push Q x q) = items q @ [x]"
    and pop_empty: "items q = [] \<Longrightarrow> sq_pop Q q = None"
    and pop_items: "items q = x # xs \<Longrightarrow> \<exists>q'. sq_pop Q q = Some (x, q') \<and> items q' = xs"
begin

lemma pop_None: "sq_pop Q q = None \<longleftrightarrow> items q = []"
  using pop_empty pop_items by (cases "items q") fastforce+

lemma pop_Some: "sq_pop Q q = Some (x, q') \<Longrightarrow> items q = x # items q'"
  using pop_empty pop_items by (cases "items q") fastforce+

lemma items_pushes: "items (foldl (\<lambda>q x. sq_push Q x q) q xs) = items q @ xs"
  by (induction xs arbitrary: q) (auto simp: items_push)

end

definition list_queue :: "('a list, 'a) seg_queue" where
  "list_queue = \<lparr>sq_new = [], sq_push = (\<lambda>x q. q @ [x]), sq_pop = (\<lambda>q. case q of [] \<Rightarrow> None | x # xs \<Rightarrow> Some (x, xs))\<rparr>"

interpretation list_fifo: fifo_queue list_queue "\<lambda>q. q"
  by unfold_locales (auto simp: list_queue_def)

text \<open>
  \<^verbatim>\<open>std::io::Read\<close>: at most as many bytes as asked for, and none only for an empty request or at the end. A read
  may also fail.
\<close>

type_synonym 'r reading = "'r \<Rightarrow> nat \<Rightarrow> (string, bytes \<times> 'r) outcome"

locale reader =
  fixes read :: "'r reading" and contents :: "'r \<Rightarrow> bytes"
  assumes read_Ok: "read r k = Ok (bs, r') \<Longrightarrow>
      contents r = bs @ contents r' \<and> length bs \<le> k \<and> (bs = [] \<longrightarrow> k = 0 \<or> contents r = [])"
    and read_no_panic: "read r k \<noteq> Panic"

text \<open>The cursor over a slice, the reader of \<^verbatim>\<open>DirectAccessor\<close>.\<close>

definition cursor_read :: "bytes reading" where
  "cursor_read r k = Ok (take k r, drop k r)"

interpretation cursor: reader cursor_read "\<lambda>r. r"
  by unfold_locales (auto simp: cursor_read_def)

section \<open>Buffers\<close>

record piece_buffer =
  pb_buffer :: bytes
  bytes_read :: nat

definition piece_buffer_new :: "nat \<Rightarrow> piece_buffer" where
  "piece_buffer_new piece_length = \<lparr>pb_buffer = replicate piece_length 0, bytes_read = 0\<rparr>"

text \<open>The callback fills a prefix of the free part; the rest of the buffer keeps its old bytes.\<close>

definition pb_write_bytes :: "'r reading \<Rightarrow> 'r \<Rightarrow> piece_buffer \<Rightarrow> (string, nat \<times> 'r \<times> piece_buffer) outcome" where
  "pb_write_bytes read r b =
    (if length (pb_buffer b) < bytes_read b then Panic
     else and_then (read r (length (pb_buffer b) - bytes_read b)) (\<lambda>(bs, r').
      Ok (length bs, r', b\<lparr>pb_buffer := take (bytes_read b) (pb_buffer b) @ bs @ drop (bytes_read b + length bs) (pb_buffer b),
                          bytes_read := bytes_read b + length bs\<rparr>)))"

definition is_whole :: "piece_buffer \<Rightarrow> bool" where
  "is_whole b \<longleftrightarrow> bytes_read b = length (pb_buffer b)"

definition pb_is_empty :: "piece_buffer \<Rightarrow> bool" where
  "pb_is_empty b \<longleftrightarrow> bytes_read b = 0"

definition pb_as_slice :: "piece_buffer \<Rightarrow> bytes" where
  "pb_as_slice b = take (bytes_read b) (pb_buffer b)"

definition TOTAL_BUFFERS_MULTIPLICATIVE :: nat where "TOTAL_BUFFERS_MULTIPLICATIVE = 2"
definition TOTAL_BUFFERS_ADDITIVE :: nat where "TOTAL_BUFFERS_ADDITIVE = 0"

definition calculate_total_buffers :: "nat \<Rightarrow> nat" where
  "calculate_total_buffers num_workers = num_workers * TOTAL_BUFFERS_MULTIPLICATIVE + TOTAL_BUFFERS_ADDITIVE"

definition piece_buffers_new :: "('b, piece_buffer) seg_queue \<Rightarrow> nat \<Rightarrow> nat \<Rightarrow> 'b" where
  "piece_buffers_new bq piece_length num_workers =
    foldl (\<lambda>q b. sq_push bq b q) (sq_new bq) (replicate (calculate_total_buffers num_workers) (piece_buffer_new piece_length))"

definition piece_checkin :: "('b, piece_buffer) seg_queue \<Rightarrow> piece_buffer \<Rightarrow> 'b \<Rightarrow> 'b" where
  "piece_checkin bq b q = sq_push bq (b\<lparr>bytes_read := 0\<rparr>) q"

text \<open>One round of the waiting loop: \<^const>\<open>None\<close> where the thread goes to sleep.\<close>

definition piece_checkout :: "('b, piece_buffer) seg_queue \<Rightarrow> 'b \<Rightarrow> (piece_buffer \<times> 'b) option" where
  "piece_checkout bq q = sq_pop bq q"

section \<open>Messages and threads\<close>

datatype master_message = AcceptPiece nat sha_hash | WorkerFinished

datatype worker_message = HashPiece nat piece_buffer | Finish

datatype 'r piece_access = Compute 'r | PreComputed sha_hash

text \<open>An accessor hands out a sequence of accesses, or fails at some point.\<close>

type_synonym 'r accesses = "(string, 'r piece_access) outcome list"

type_synonym hashed = "(parse_error, (nat \<times> sha_hash) list) outcome"

text \<open>
  Where the master is: before the next callback; waiting for a buffer inside one, where the flag is
  \<^verbatim>\<open>end_of_region\<close>; at the head of the loop over the region; pushing the remaining \<^verbatim>\<open>Finish\<close> messages; receiving
  with a number of finished workers; returned.
\<close>

datatype 'r master =
    Access "'r accesses" nat "piece_buffer option"
  | Checkout 'r bool "'r accesses" nat
  | Fill 'r piece_buffer "'r accesses" nat
  | Finishing nat
  | Waiting nat
  | Returned hashed

text \<open>Where a worker is: at the head of its loop; before sending a hash; before giving the buffer back; after a
  \<^verbatim>\<open>Finish\<close>; returned; stopped by a panic of \<^verbatim>\<open>send\<close>, when the receiver is gone.\<close>

datatype worker = Popping | Hashing nat piece_buffer | Checkin piece_buffer | Stopping | Exited | Panicked

record ('r, 'w, 'b) hasher =
  h_master :: "'r master"
  h_workers :: "worker list"
  h_work :: 'w
  h_buffers :: 'b
  h_channel :: "master_message list"
  h_pieces :: "(nat \<times> sha_hash) list"

record ('r, 'w, 'b) hasher_env =
  e_work :: "('w, worker_message) seg_queue"
  e_buffers :: "('b, piece_buffer) seg_queue"
  e_read :: "'r reading"
  e_sha1 :: "bytes \<Rightarrow> sha_hash"

definition push_work :: "('r, 'w, 'b) hasher_env \<Rightarrow> worker_message \<Rightarrow> ('r, 'w, 'b) hasher \<Rightarrow> ('r, 'w, 'b) hasher" where
  "push_work E m s = s\<lparr>h_work := sq_push (e_work E) m (h_work s)\<rparr>"

section \<open>The master\<close>

text \<open>The body of the loop over a region, up to the checkout.\<close>

definition fill_step ::
  "('r, 'w, 'b) hasher_env \<Rightarrow> 'r \<Rightarrow> piece_buffer \<Rightarrow> 'r accesses \<Rightarrow> nat \<Rightarrow> ('r, 'w, 'b) hasher \<Rightarrow> ('r, 'w, 'b) hasher" where
  "fill_step E r b rest piece_index s =
    (case pb_write_bytes (e_read E) r b of
       Ok (n, r', b') \<Rightarrow>
         let end_of_region = (n = 0) in
         if is_whole b'
         then (push_work E (HashPiece piece_index b') s)\<lparr>h_master := Checkout r' end_of_region rest (piece_index + 1)\<rparr>
         else if end_of_region then s\<lparr>h_master := Access rest piece_index (Some b')\<rparr>
         else s\<lparr>h_master := Fill r' b' rest piece_index\<rparr>
     | Err e \<Rightarrow> s\<lparr>h_master := Returned (Err (PeIo e))\<rparr>
     | Panic \<Rightarrow> s\<lparr>h_master := Returned Panic\<rparr>)"

fun access_step ::
  "('r, 'w, 'b) hasher_env \<Rightarrow> 'r accesses \<Rightarrow> nat \<Rightarrow> piece_buffer option \<Rightarrow> ('r, 'w, 'b) hasher \<Rightarrow> ('r, 'w, 'b) hasher" where
  "access_step E (Ok (Compute r) # rest) piece_index (Some b) s = s\<lparr>h_master := Fill r b rest piece_index\<rparr>"
| "access_step E (Ok (Compute r) # rest) piece_index None s = s\<lparr>h_master := Checkout r False rest piece_index\<rparr>"
| "access_step E (Ok (PreComputed h) # rest) piece_index ob s =
    s\<lparr>h_pieces := h_pieces s @ [(piece_index, h)], h_master := Access rest (piece_index + 1) ob\<rparr>"
| "access_step E (Err e # rest) piece_index ob s = s\<lparr>h_master := Returned (Err (PeIo e))\<rparr>"
| "access_step E (Panic # rest) piece_index ob s = s\<lparr>h_master := Returned Panic\<rparr>"
| "access_step E [] piece_index ob s =
    (case ob of
       Some b \<Rightarrow> if pb_is_empty b then s else push_work E (HashPiece piece_index b) s
     | None \<Rightarrow> s)\<lparr>h_master := Finishing (length (h_workers s))\<rparr>"

fun recv_step :: "nat \<Rightarrow> master_message \<Rightarrow> ('r, 'w, 'b) hasher \<Rightarrow> ('r, 'w, 'b) hasher" where
  "recv_step k (AcceptPiece i h) s = s\<lparr>h_pieces := h_pieces s @ [(i, h)]\<rparr>"
| "recv_step k WorkerFinished s = s\<lparr>h_master := Waiting (k + 1)\<rparr>"

definition master_step :: "('r, 'w, 'b) hasher_env \<Rightarrow> ('r, 'w, 'b) hasher \<Rightarrow> ('r, 'w, 'b) hasher option" where
  "master_step E s =
    (case h_master s of
       Access as piece_index ob \<Rightarrow> Some (access_step E as piece_index ob s)
     | Checkout r end_of_region rest piece_index \<Rightarrow>
         (case piece_checkout (e_buffers E) (h_buffers s) of
            None \<Rightarrow> None
          | Some (b, q) \<Rightarrow> Some (s\<lparr>h_buffers := q, h_master :=
              (if end_of_region then Access rest piece_index (Some b) else Fill r b rest piece_index)\<rparr>))
     | Fill r b rest piece_index \<Rightarrow> Some (fill_step E r b rest piece_index s)
     | Finishing (Suc k) \<Rightarrow> Some ((push_work E Finish s)\<lparr>h_master := Finishing k\<rparr>)
     | Finishing 0 \<Rightarrow> Some (s\<lparr>h_master := Waiting 0\<rparr>)
     | Waiting k \<Rightarrow>
         if k < length (h_workers s)
         then (case h_channel s of [] \<Rightarrow> None | m # ms \<Rightarrow> Some (recv_step k m (s\<lparr>h_channel := ms\<rparr>)))
         else Some (s\<lparr>h_master := Returned (Ok (sort_key fst (h_pieces s)))\<rparr>)
     | Returned _ \<Rightarrow> None)"

section \<open>The workers\<close>

text \<open>\<^verbatim>\<open>send\<close> fails once the receiver has been dropped, which is when the master has returned.\<close>

fun is_returned :: "'r master \<Rightarrow> bool" where
  "is_returned (Returned _) = True"
| "is_returned _ = False"

definition send :: "nat \<Rightarrow> master_message \<Rightarrow> worker \<Rightarrow> ('r, 'w, 'b) hasher \<Rightarrow> ('r, 'w, 'b) hasher" where
  "send w m next s =
    (if is_returned (h_master s) then s\<lparr>h_workers := (h_workers s)[w := Panicked]\<rparr>
     else s\<lparr>h_channel := h_channel s @ [m], h_workers := (h_workers s)[w := next]\<rparr>)"

fun pop_step :: "nat \<Rightarrow> worker_message \<Rightarrow> ('r, 'w, 'b) hasher \<Rightarrow> ('r, 'w, 'b) hasher" where
  "pop_step w (HashPiece i b) s = s\<lparr>h_workers := (h_workers s)[w := Hashing i b]\<rparr>"
| "pop_step w Finish s = s\<lparr>h_workers := (h_workers s)[w := Stopping]\<rparr>"

definition worker_step :: "('r, 'w, 'b) hasher_env \<Rightarrow> nat \<Rightarrow> ('r, 'w, 'b) hasher \<Rightarrow> ('r, 'w, 'b) hasher option" where
  "worker_step E w s =
    (case h_workers s ! w of
       Popping \<Rightarrow> (case sq_pop (e_work E) (h_work s) of
                   None \<Rightarrow> None
                 | Some (m, q) \<Rightarrow> Some (pop_step w m (s\<lparr>h_work := q\<rparr>)))
     | Hashing i b \<Rightarrow> Some (send w (AcceptPiece i (from_bytes (e_sha1 E) (pb_as_slice b))) (Checkin b) s)
     | Checkin b \<Rightarrow> Some (s\<lparr>h_buffers := piece_checkin (e_buffers E) b (h_buffers s), h_workers := (h_workers s)[w := Popping]\<rparr>)
     | Stopping \<Rightarrow> Some (send w WorkerFinished Exited s)
     | Exited \<Rightarrow> None
     | Panicked \<Rightarrow> None)"

section \<open>Runs\<close>

text \<open>Thread 0 is the master and thread \<open>w + 1\<close> the worker \<open>w\<close>.\<close>

definition thread_step :: "('r, 'w, 'b) hasher_env \<Rightarrow> nat \<Rightarrow> ('r, 'w, 'b) hasher \<Rightarrow> ('r, 'w, 'b) hasher option" where
  "thread_step E t s =
    (case t of 0 \<Rightarrow> master_step E s | Suc w \<Rightarrow> if w < length (h_workers s) then worker_step E w s else None)"

inductive hasher_steps :: "('r, 'w, 'b) hasher_env \<Rightarrow> ('r, 'w, 'b) hasher \<Rightarrow> ('r, 'w, 'b) hasher \<Rightarrow> bool"
  for E s where
  start: "hasher_steps E s s"
| step: "hasher_steps E s s' \<Longrightarrow> thread_step E t s' = Some s'' \<Longrightarrow> hasher_steps E s s''"

definition hasher_start :: "('r, 'w, 'b) hasher_env \<Rightarrow> 'r accesses \<Rightarrow> nat \<Rightarrow> nat \<Rightarrow> ('r, 'w, 'b) hasher" where
  "hasher_start E accesses piece_length num_workers =
    \<lparr>h_master = Access accesses 0 None, h_workers = replicate num_workers Popping, h_work = sq_new (e_work E),
     h_buffers = piece_buffers_new (e_buffers E) piece_length num_workers, h_channel = [], h_pieces = []\<rparr>"

text \<open>A thread that is blocked leaves the state alone when it is scheduled.\<close>

definition scheduled_step :: "('r, 'w, 'b) hasher_env \<Rightarrow> nat \<Rightarrow> ('r, 'w, 'b) hasher \<Rightarrow> ('r, 'w, 'b) hasher" where
  "scheduled_step E t s = (case thread_step E t s of None \<Rightarrow> s | Some s' \<Rightarrow> s')"

partial_function (option) run_hasher ::
  "('r, 'w, 'b) hasher_env \<Rightarrow> (nat \<Rightarrow> nat) \<Rightarrow> nat \<Rightarrow> ('r, 'w, 'b) hasher \<Rightarrow> hashed option" where
  "run_hasher E schedule n s =
    (case h_master s of
       Returned r \<Rightarrow> Some r
     | _ \<Rightarrow> run_hasher E schedule (n + 1) (scheduled_step E (schedule n) s))"

definition start_hasher_workers ::
  "('r, 'w, 'b) hasher_env \<Rightarrow> (nat \<Rightarrow> nat) \<Rightarrow> 'r accesses \<Rightarrow> nat \<Rightarrow> nat \<Rightarrow> hashed option" where
  "start_hasher_workers E schedule accesses piece_length num_workers =
    run_hasher E schedule 0 (hasher_start E accesses piece_length num_workers)"

end
