(* ===== verification/Metainfo_Builder.thy ===== *)
theory Metainfo_Builder
  imports Metainfo_Hasher Complex_Main
begin

text \<open>
  Building torrent files (\<^verbatim>\<open>packages/metainfo/src/builder/mod.rs\<close>), the accessors for data in memory and for an
  existing info dictionary, and \<^verbatim>\<open>to_bytes\<close> of \<^verbatim>\<open>metainfo.rs\<close>. The piece length is computed in 64-bit floating
  point, as the source does: a number is a rational, and every operation rounds to 53 significant bits.
\<close>

section \<open>Floating point\<close>

function int_log2 :: "int \<Rightarrow> int" where
  "int_log2 n = (if n \<le> 1 then 0 else 1 + int_log2 (n div 2))"
  by pat_completeness auto
termination
  by (relation "measure nat") auto

declare int_log2.simps [simp del]

text \<open>The exponent \<open>e\<close> with \<open>2\<^sup>e \<le> x < 2\<^sup>e\<^sup>+\<^sup>1\<close> of a positive number.\<close>

definition f64_exponent :: "rat \<Rightarrow> int" where
  "f64_exponent x =
    (let (a, b) = quotient_of x; e = int_log2 a - int_log2 b
     in if 2 powi e \<le> x then e else e - 1)"

definition round_half_even :: "rat \<Rightarrow> int" where
  "round_half_even y =
    (let f = floor y; d = y - of_int f
     in if d < 1 / 2 \<or> d = 1 / 2 \<and> even f then f else f + 1)"

definition f64_round :: "rat \<Rightarrow> rat" where
  "f64_round x =
    (if x \<le> 0 then 0
     else let e = f64_exponent x - 52 in of_int (round_half_even (x / 2 powi e)) * 2 powi e)"

definition f64_div :: "rat \<Rightarrow> rat \<Rightarrow> rat" where
  "f64_div x y = f64_round (x / y)"

definition f64_add :: "rat \<Rightarrow> rat \<Rightarrow> rat" where
  "f64_add x y = f64_round (x + y)"

text \<open>The assertions that a value lies in \<^verbatim>\<open>0.0..=9_223_372_036_854_775_807_f64\<close>; the bound is rounded too.\<close>

definition in_i64_range :: "rat \<Rightarrow> bool" where
  "in_i64_range x \<longleftrightarrow> 0 \<le> x \<and> x \<le> f64_round (2 ^ 63 - 1)"

section \<open>The piece length\<close>

definition ALL_OPT_MAX_PIECE_LENGTH :: nat where "ALL_OPT_MAX_PIECE_LENGTH = 16 * 1024 * 1024"
definition BALANCED_MAX_PIECES_SIZE :: nat where "BALANCED_MAX_PIECES_SIZE = 40000"
definition BALANCED_MIN_PIECE_LENGTH :: nat where "BALANCED_MIN_PIECE_LENGTH = 512 * 1024"
definition FILE_SIZE_MAX_PIECES_SIZE :: nat where "FILE_SIZE_MAX_PIECES_SIZE = 20000"
definition FILE_SIZE_MIN_PIECE_LENGTH :: nat where "FILE_SIZE_MIN_PIECE_LENGTH = 1024 * 1024"
definition TRANSFER_MAX_PIECES_SIZE :: nat where "TRANSFER_MAX_PIECES_SIZE = 60000"
definition TRANSFER_MIN_PIECE_LENGTH :: nat where "TRANSFER_MIN_PIECE_LENGTH = 1024"

datatype piece_length = OptBalanced | OptFileSize | OptTransfer | Custom nat

fun next_power_of_two :: "nat \<Rightarrow> nat" where
  "next_power_of_two n = (if n \<le> 1 then 1 else 2 * next_power_of_two ((n + 1) div 2))"

declare next_power_of_two.simps [simp del]

definition calculate_piece_length :: "u64 \<Rightarrow> nat \<Rightarrow> nat \<Rightarrow> ('e, nat) outcome" where
  "calculate_piece_length total_file_size max_pieces_size min_piece_length =
    (let num_pieces = f64_div (of_nat max_pieces_size) (of_nat SHA_HASH_LEN);
         piece_length = f64_add (f64_div (f64_round (of_int (uint total_file_size))) num_pieces) (1 / 2)
     in if in_i64_range piece_length
        then let pot_piece_length = next_power_of_two (nat (floor piece_length)) in
          if min_piece_length < pot_piece_length \<and> pot_piece_length < ALL_OPT_MAX_PIECE_LENGTH then Ok pot_piece_length
          else if \<not> min_piece_length < pot_piece_length then Ok min_piece_length
          else Ok ALL_OPT_MAX_PIECE_LENGTH
        else Panic)"

fun determine_piece_length :: "u64 \<Rightarrow> piece_length \<Rightarrow> ('e, nat) outcome" where
  "determine_piece_length total_file_size (Custom len) = Ok len"
| "determine_piece_length total_file_size OptBalanced =
    calculate_piece_length total_file_size BALANCED_MAX_PIECES_SIZE BALANCED_MIN_PIECE_LENGTH"
| "determine_piece_length total_file_size OptFileSize =
    calculate_piece_length total_file_size FILE_SIZE_MAX_PIECES_SIZE FILE_SIZE_MIN_PIECE_LENGTH"
| "determine_piece_length total_file_size OptTransfer =
    calculate_piece_length total_file_size TRANSFER_MAX_PIECES_SIZE TRANSFER_MIN_PIECE_LENGTH"

section \<open>Builders\<close>

record info_builder =
  ib_info :: bencode_mut
  ib_piece_length :: piece_length

record metainfo_builder =
  mb_root :: bencode_mut
  mb_info :: info_builder

type_synonym mut_map = "(bytes, bencode_mut) btree_map"

text \<open>\<^verbatim>\<open>dict_mut().unwrap()\<close> and an update of the dictionary behind it.\<close>

fun with_dict :: "(mut_map \<Rightarrow> mut_map) \<Rightarrow> bencode_mut \<Rightarrow> ('e, bencode_mut) outcome" where
  "with_dict f (MutDict m) = Ok (MutDict (f m))"
| "with_dict f _ = Panic"

text \<open>Insert the value or remove the key.\<close>

definition set_entry :: "bytes \<Rightarrow> bencode_mut option \<Rightarrow> mut_map \<Rightarrow> mut_map" where
  "set_entry key opt m =
    (case opt of Some v \<Rightarrow> fst (btm_insert_entry key v m) | None \<Rightarrow> fst (btm_remove_entry key m))"

definition info_builder_new :: info_builder where
  "info_builder_new = \<lparr>ib_info = MutDict [], ib_piece_length = OptBalanced\<rparr>"

definition metainfo_builder_new :: metainfo_builder where
  "metainfo_builder_new = \<lparr>mb_root = MutDict [], mb_info = info_builder_new\<rparr>"

definition update_root :: "(mut_map \<Rightarrow> mut_map) \<Rightarrow> metainfo_builder \<Rightarrow> ('e, metainfo_builder) outcome" where
  "update_root f b = and_then (with_dict f (mb_root b)) (\<lambda>r. Ok (b\<lparr>mb_root := r\<rparr>))"

definition set_trackers :: "bytes list list option \<Rightarrow> metainfo_builder \<Rightarrow> ('e, metainfo_builder) outcome" where
  "set_trackers opt_trackers =
    update_root (set_entry ANNOUNCE_LIST_KEY (map_option (\<lambda>groups. ben_list (map (\<lambda>group. ben_list (map MutBytes group)) groups)) opt_trackers))"

definition set_main_tracker :: "bytes option \<Rightarrow> metainfo_builder \<Rightarrow> ('e, metainfo_builder) outcome" where
  "set_main_tracker opt_tracker_url = update_root (set_entry ANNOUNCE_URL_KEY (map_option MutBytes opt_tracker_url))"

definition set_creation_date :: "i64 option \<Rightarrow> metainfo_builder \<Rightarrow> ('e, metainfo_builder) outcome" where
  "set_creation_date opt_secs_epoch = update_root (set_entry CREATION_DATE_KEY (map_option MutInt opt_secs_epoch))"

definition set_comment :: "bytes option \<Rightarrow> metainfo_builder \<Rightarrow> ('e, metainfo_builder) outcome" where
  "set_comment opt_comment = update_root (set_entry COMMENT_KEY (map_option MutBytes opt_comment))"

definition set_created_by :: "bytes option \<Rightarrow> metainfo_builder \<Rightarrow> ('e, metainfo_builder) outcome" where
  "set_created_by opt_created_by = update_root (set_entry CREATED_BY_KEY (map_option MutBytes opt_created_by))"

text \<open>\<^verbatim>\<open>and_then(insert).or_else(remove)\<close>: the removal runs whenever the insertion returned no old value.\<close>

definition private_entry :: "bool option \<Rightarrow> mut_map \<Rightarrow> mut_map" where
  "private_entry opt_is_private m =
    (case opt_is_private of
       None \<Rightarrow> fst (btm_remove_entry PRIVATE_KEY m)
     | Some p \<Rightarrow>
        let (m', old) = btm_insert_entry PRIVATE_KEY (MutInt (if p then 1 else 0)) m in
        case old of Some _ \<Rightarrow> m' | None \<Rightarrow> fst (btm_remove_entry PRIVATE_KEY m'))"

definition info_set_private_flag :: "bool option \<Rightarrow> info_builder \<Rightarrow> ('e, info_builder) outcome" where
  "info_set_private_flag opt_is_private b =
    and_then (with_dict (private_entry opt_is_private) (ib_info b)) (\<lambda>info. Ok (b\<lparr>ib_info := info\<rparr>))"

definition info_set_piece_length :: "piece_length \<Rightarrow> info_builder \<Rightarrow> info_builder" where
  "info_set_piece_length piece_length b = b\<lparr>ib_piece_length := piece_length\<rparr>"

definition set_private_flag :: "bool option \<Rightarrow> metainfo_builder \<Rightarrow> ('e, metainfo_builder) outcome" where
  "set_private_flag opt_is_private b =
    and_then (info_set_private_flag opt_is_private (mb_info b)) (\<lambda>info. Ok (b\<lparr>mb_info := info\<rparr>))"

definition set_piece_length :: "piece_length \<Rightarrow> metainfo_builder \<Rightarrow> metainfo_builder" where
  "set_piece_length piece_length b = b\<lparr>mb_info := info_set_piece_length piece_length (mb_info b)\<rparr>"

text \<open>The getters read the dictionary that is being built.\<close>

definition get_root_entry :: "(bencode_mut \<Rightarrow> 'a option) \<Rightarrow> bytes \<Rightarrow> metainfo_builder \<Rightarrow> ('e, 'a option) outcome" where
  "get_root_entry as key b =
    (case mut_dict (mb_root b) of Some d \<Rightarrow> Ok (Option.bind (btm_get d key) as) | None \<Rightarrow> Panic)"

definition get_trackers :: "metainfo_builder \<Rightarrow> ('e, bytes list list option) outcome" where
  "get_trackers = get_root_entry (\<lambda>v. map_option (\<lambda>xs. map (List.map_filter mut_str) (List.map_filter mut_list xs)) (mut_list v))
    ANNOUNCE_LIST_KEY"

definition get_main_tracker :: "metainfo_builder \<Rightarrow> ('e, bytes option) outcome" where
  "get_main_tracker = get_root_entry mut_str ANNOUNCE_URL_KEY"

definition get_creation_date :: "metainfo_builder \<Rightarrow> ('e, i64 option) outcome" where
  "get_creation_date = get_root_entry mut_int CREATION_DATE_KEY"

definition get_comment :: "metainfo_builder \<Rightarrow> ('e, bytes option) outcome" where
  "get_comment = get_root_entry mut_str COMMENT_KEY"

definition get_created_by :: "metainfo_builder \<Rightarrow> ('e, bytes option) outcome" where
  "get_created_by = get_root_entry mut_str CREATED_BY_KEY"

section \<open>Accessors\<close>

record 'r accessor =
  access_directory :: "bytes option"
  access_metadata :: "(string, (u64 \<times> bytes) list) outcome"
  access_pieces :: "'r accesses"

definition direct_accessor :: "bytes \<Rightarrow> bytes \<Rightarrow> bytes accessor" where
  "direct_accessor file_name file_contents =
    \<lparr>access_directory = None, access_metadata = Ok [(of_nat (length file_contents), file_name)],
     access_pieces = [Ok (Compute file_contents)]\<rparr>"

definition info_accessor :: "info \<Rightarrow> 'r accessor" where
  "info_accessor i =
    \<lparr>access_directory = file_directory i, access_metadata = Ok (map (\<lambda>f. (file_len f, file_path f)) (info_files i)),
     access_pieces = map (\<lambda>piece. Ok (PreComputed piece)) (info_pieces i)\<rparr>"

section \<open>Building\<close>

definition i64_of_usize :: "nat \<Rightarrow> ('e, i64) outcome" where
  "i64_of_usize n = (if int n \<le> i64_max then Ok (of_nat n) else Panic)"

fun bencode_files :: "(u64 \<times> bytes list) list \<Rightarrow> ('e, bencode_mut list) outcome" where
  "bencode_files [] = Ok []"
| "bencode_files ((len, path) # files) =
    and_then (i64_of_usize (unat len)) (\<lambda>n.
    and_then (bencode_files files) (\<lambda>rest.
      Ok (ben_map [(LENGTH_KEY, MutInt n), (PATH_KEY, ben_list (map MutBytes path))] # rest)))"

definition map_pieces_list :: "sha_hash list \<Rightarrow> bytes" where
  "map_pieces_list pieces = concat pieces"

definition insert_files :: "bytes option \<Rightarrow> (u64 \<times> bytes list) list \<Rightarrow> mut_map \<Rightarrow> ('e, mut_map) outcome" where
  "insert_files directory files_info m =
    (case (directory, 1 < length files_info) of
       (Some d, _) \<Rightarrow> and_then (bencode_files files_info) (\<lambda>files.
         Ok (btm_insert FILES_KEY (MutList files) (btm_insert NAME_KEY (MutBytes d) m)))
     | (None, True) \<Rightarrow> and_then (bencode_files files_info) (\<lambda>files.
         Ok (btm_insert FILES_KEY (MutList files) (btm_insert NAME_KEY (MutBytes []) m)))
     | (None, False) \<Rightarrow>
         (case files_info of
            [] \<Rightarrow> Panic
          | (len, path) # _ \<Rightarrow> and_then (i64_of_usize (unat len)) (\<lambda>n.
              Ok (btm_insert NAME_KEY (MutBytes (concat path)) (btm_insert LENGTH_KEY (MutInt n) m)))))"

definition update_info :: "nat \<Rightarrow> bytes \<Rightarrow> bytes option \<Rightarrow> (u64 \<times> bytes list) list \<Rightarrow> bencode_mut \<Rightarrow> ('e, bencode_mut) outcome" where
  "update_info piece_length pieces directory files_info info =
    (case mut_dict info of
       None \<Rightarrow> Panic
     | Some m \<Rightarrow>
        and_then (i64_of_usize piece_length) (\<lambda>n.
        and_then (insert_files directory files_info (btm_insert PIECES_KEY (MutBytes pieces) (btm_insert PIECE_LENGTH_KEY (MutInt n) m))) (\<lambda>m'.
          Ok (MutDict m'))))"

text \<open>
  The number of pieces, rounded up, goes to the progress callback only; a piece length of zero makes the quotient
  infinite or undefined, which the assertion rejects.
\<close>

definition build_pieces ::
  "('r, 'w, 'b) hasher_env \<Rightarrow> (nat \<Rightarrow> nat) \<Rightarrow> nat \<Rightarrow> 'r accesses \<Rightarrow> u64 \<Rightarrow> nat \<Rightarrow> (parse_error, bytes) outcome option" where
  "build_pieces E schedule threads accesses total_files_len piece_length =
    (if piece_length = 0 \<or>
        \<not> in_i64_range (f64_div (f64_round (of_int (uint total_files_len))) (f64_round (of_nat piece_length)))
     then Some Panic
     else map_option (\<lambda>r. and_then r (\<lambda>pieces_list. Ok (map_pieces_list (map snd pieces_list))))
       (start_hasher_workers E schedule accesses piece_length threads))"

definition finish_build ::
  "'r accessor \<Rightarrow> bencode_mut option \<Rightarrow> bencode_mut \<Rightarrow> nat \<Rightarrow> (u64 \<times> bytes list) list \<Rightarrow> bytes \<Rightarrow> ('e, bytes) outcome" where
  "finish_build acc opt_root info piece_length files_info pieces =
    and_then (update_info piece_length pieces (access_directory acc) files_info info) (\<lambda>info.
      case opt_root of
        Some r \<Rightarrow> and_then (with_dict (btm_insert INFO_KEY info) r) (\<lambda>r. Ok (bencode_mut_encode r))
      | None \<Rightarrow> Ok (bencode_mut_encode info))"

definition build_with_accessor ::
  "('r, 'w, 'b) hasher_env \<Rightarrow> (nat \<Rightarrow> nat) \<Rightarrow> nat \<Rightarrow> 'r accessor \<Rightarrow> bencode_mut option \<Rightarrow> bencode_mut \<Rightarrow> piece_length \<Rightarrow>
    (parse_error, bytes) outcome option" where
  "build_with_accessor E schedule threads acc opt_root info piece_length =
    (if threads = 0 then Some Panic
     else case access_metadata acc of
       Err e \<Rightarrow> Some (Err (PeIo e))
     | Panic \<Rightarrow> Some Panic
     | Ok metadata \<Rightarrow>
        let files_info = map (\<lambda>(len, path). (len, path_iter path)) metadata;
            total_files_len = fold (\<lambda>nex acc. acc + fst nex) files_info (0 :: u64)
        in case determine_piece_length total_files_len piece_length of
          Ok n \<Rightarrow>
            map_option (\<lambda>r. and_then r (finish_build acc opt_root info n files_info))
              (build_pieces E schedule threads (access_pieces acc) total_files_len n)
        | Err e \<Rightarrow> Some (Err e)
        | Panic \<Rightarrow> Some Panic)"

definition metainfo_build ::
  "('r, 'w, 'b) hasher_env \<Rightarrow> (nat \<Rightarrow> nat) \<Rightarrow> nat \<Rightarrow> 'r accessor \<Rightarrow> metainfo_builder \<Rightarrow> (parse_error, bytes) outcome option" where
  "metainfo_build E schedule threads acc b =
    build_with_accessor E schedule threads acc (Some (mb_root b)) (ib_info (mb_info b)) (ib_piece_length (mb_info b))"

definition info_build ::
  "('r, 'w, 'b) hasher_env \<Rightarrow> (nat \<Rightarrow> nat) \<Rightarrow> nat \<Rightarrow> 'r accessor \<Rightarrow> info_builder \<Rightarrow> (parse_error, bytes) outcome option" where
  "info_build E schedule threads acc b = build_with_accessor E schedule threads acc None (ib_info b) (ib_piece_length b)"

fun unwrap :: "('e, 'a) outcome \<Rightarrow> ('f, 'a) outcome" where
  "unwrap (Ok x) = Ok x"
| "unwrap (Err e) = Panic"
| "unwrap Panic = Panic"

definition run_builder :: "('b \<Rightarrow> (parse_error, bytes) outcome option) \<Rightarrow> (parse_error, 'b) outcome \<Rightarrow> (parse_error, bytes) outcome option" where
  "run_builder build b = (case b of Ok b \<Rightarrow> build b | Err e \<Rightarrow> Some (Err e) | Panic \<Rightarrow> Some Panic)"

definition info_to_bytes ::
  "('r, 'w, 'b) hasher_env \<Rightarrow> (nat \<Rightarrow> nat) \<Rightarrow> info \<Rightarrow> (parse_error, bytes) outcome option" where
  "info_to_bytes E schedule i =
    map_option unwrap (run_builder (info_build E schedule 1 (info_accessor i))
      (and_then (info_set_private_flag (is_private i) info_builder_new) (\<lambda>b.
        Ok (info_set_piece_length (Custom (unat (piece_len i))) b))))"

definition metainfo_to_bytes ::
  "('r, 'w, 'b) hasher_env \<Rightarrow> (nat \<Rightarrow> nat) \<Rightarrow> metainfo \<Rightarrow> (parse_error, bytes) outcome option" where
  "metainfo_to_bytes E schedule mi =
    map_option unwrap (run_builder (metainfo_build E schedule 1 (info_accessor (mi_info mi)))
      (and_then (set_main_tracker (announce mi) metainfo_builder_new) (\<lambda>b.
       and_then (set_creation_date (creation_date mi) b) (\<lambda>b.
       and_then (set_comment (mi_comment mi) b) (\<lambda>b.
       and_then (set_created_by (created_by mi) b) (\<lambda>b.
       and_then (set_private_flag (is_private (mi_info mi)) b) (\<lambda>b.
         Ok (set_piece_length (Custom (unat (piece_len (mi_info mi)))) b))))))))"

end
