(* ===== verification/Metainfo_Hasher_Correct.thy ===== *)
theory Metainfo_Hasher_Correct
  imports Metainfo_Hasher
begin

text \<open>
  Correctness of the piece hasher: what the pieces should be, an invariant of every interleaving of the master
  and the workers, progress and a measure that every step decreases. The queues are first replaced by lists, which
  changes nothing that the threads observe.
\<close>

section \<open>What the pieces should be\<close>

definition whole_len :: "nat \<Rightarrow> 'a list \<Rightarrow> nat" where
  "whole_len n xs = length xs div n * n"

lemma chunks_step: "0 < n \<Longrightarrow> xs \<noteq> [] \<Longrightarrow> chunks n xs = take n xs # chunks n (drop n xs)"
  by (subst chunks.simps) simp

lemma chunks_Nil [simp]: "chunks n [] = []"
  by (subst chunks.simps) simp

lemma chunks_whole: "0 < n \<Longrightarrow> length xs = n \<Longrightarrow> chunks n (xs @ ys) = xs # chunks n ys"
  by (subst chunks_step) auto

lemma concat_chunks: "0 < n \<Longrightarrow> concat (chunks n xs) = xs"
proof (induction n xs rule: chunks.induct)
  case (1 n xs)
  then show ?case by (subst chunks.simps) simp
qed

lemma chunks_small: "0 < n \<Longrightarrow> xs \<noteq> [] \<Longrightarrow> length xs \<le> n \<Longrightarrow> chunks n xs = [xs]"
  by (subst chunks_step) auto

text \<open>The hashes in order, when \<open>part\<close> has been read before the first of the accesses.\<close>

fun piece_hashes :: "(bytes \<Rightarrow> sha_hash) \<Rightarrow> ('r \<Rightarrow> bytes) \<Rightarrow> nat \<Rightarrow> bytes \<Rightarrow> 'r accesses \<Rightarrow> sha_hash list" where
  "piece_hashes sha1 contents n part [] = (if part = [] then [] else [from_bytes sha1 part])"
| "piece_hashes sha1 contents n part (Ok (Compute r) # rest) =
    (let d = part @ contents r
     in map (from_bytes sha1) (chunks n (take (whole_len n d) d)) @
        piece_hashes sha1 contents n (drop (whole_len n d) d) rest)"
| "piece_hashes sha1 contents n part (Ok (PreComputed h) # rest) = h # piece_hashes sha1 contents n part rest"
| "piece_hashes sha1 contents n part (_ # rest) = []"

lemma whole_len_small: "length xs < n \<Longrightarrow> whole_len n xs = 0"
  by (simp add: whole_len_def)

lemma whole_len_append: "0 < n \<Longrightarrow> length xs = n \<Longrightarrow> whole_len n (xs @ ys) = n + whole_len n ys"
  by (simp add: whole_len_def div_add_self1)

lemma piece_hashes_end:
  "length part < n \<Longrightarrow> contents r = [] \<Longrightarrow>
   piece_hashes sha1 contents n part (Ok (Compute r) # rest) = piece_hashes sha1 contents n part rest"
  by (simp add: whole_len_small)

lemma piece_hashes_read:
  "contents r = bs @ contents r' \<Longrightarrow>
   piece_hashes sha1 contents n part (Ok (Compute r) # rest) = piece_hashes sha1 contents n (part @ bs) (Ok (Compute r') # rest)"
  by simp

lemma piece_hashes_whole:
  "0 < n \<Longrightarrow> length part = n \<Longrightarrow>
   piece_hashes sha1 contents n part (Ok (Compute r) # rest) =
   from_bytes sha1 part # piece_hashes sha1 contents n [] (Ok (Compute r) # rest)"
  by (simp add: whole_len_append chunks_whole Let_def)

text \<open>When everything is computed, the pieces are the chunks of the concatenated data.\<close>

lemma chunks_split_whole:
  "0 < n \<Longrightarrow> chunks n (xs @ ys) =
    chunks n (take (whole_len n xs) xs) @ chunks n (drop (whole_len n xs) xs @ ys)"
proof (induction n xs rule: chunks.induct)
  case (1 n xs)
  show ?case
  proof (cases "length xs < n")
    case True
    then show ?thesis by (simp add: whole_len_small)
  next
    case False
    then have xs: "xs = take n xs @ drop n xs" "length (take n xs) = n" by auto
    then have w: "whole_len n xs = n + whole_len n (drop n xs)"
      using whole_len_append [OF 1(2), of "take n xs" "drop n xs"] by simp
    have d: "drop (whole_len n xs) xs = drop (whole_len n (drop n xs)) (drop n xs)"
      by (simp add: w add.commute)
    have t: "take (whole_len n xs) xs = take n xs @ take (whole_len n (drop n xs)) (drop n xs)"
      by (simp add: w take_add)
    have "chunks n (xs @ ys) = take n xs # chunks n (drop n xs @ ys)"
      using chunks_whole [OF 1(2) xs(2), of "drop n xs @ ys"] xs(1) by (metis append_assoc)
    also have "\<dots> = take n xs # chunks n (take (whole_len n (drop n xs)) (drop n xs)) @
        chunks n (drop (whole_len n (drop n xs)) (drop n xs) @ ys)"
      using 1 False xs(2) by (cases "xs = []") auto
    finally show ?thesis by (simp add: d t chunks_whole [OF 1(2) xs(2)])
  qed
qed

lemma piece_hashes_compute_part:
  assumes "0 < n" and "length part < n"
  shows "piece_hashes sha1 contents n part (map (\<lambda>r. Ok (Compute r)) rs) =
    map (from_bytes sha1) (chunks n (part @ concat (map contents rs)))"
  using assms(2)
proof (induction rs arbitrary: part)
  case Nil
  then show ?case using assms(1) by (simp add: chunks_small)
next
  case (Cons r rs)
  let ?d = "part @ contents r"
  have "length ?d - whole_len n ?d < n"
    using assms(1) by (simp add: whole_len_def minus_div_mult_eq_mod)
  then have "length (drop (whole_len n ?d) ?d) < n" by simp
  then have "piece_hashes sha1 contents n (drop (whole_len n ?d) ?d) (map (\<lambda>r. Ok (Compute r)) rs) =
      map (from_bytes sha1) (chunks n (drop (whole_len n ?d) ?d @ concat (map contents rs)))"
    by (rule Cons.IH)
  then show ?case
    using chunks_split_whole [OF assms(1), of ?d "concat (map contents rs)"] by (simp add: Let_def)
qed

lemma piece_hashes_compute:
  "0 < n \<Longrightarrow> piece_hashes sha1 contents n [] (map (\<lambda>r. Ok (Compute r)) rs) =
    map (from_bytes sha1) (chunks n (concat (map contents rs)))"
  by (simp add: piece_hashes_compute_part)

lemma piece_hashes_precomputed:
  "piece_hashes sha1 contents n [] (map (\<lambda>h. Ok (PreComputed h)) hs) = hs"
  by (induction hs) auto

section \<open>Queues as lists\<close>

definition list_env :: "('r, 'w, 'b) hasher_env \<Rightarrow> ('r, worker_message list, piece_buffer list) hasher_env" where
  "list_env E = \<lparr>e_work = list_queue, e_buffers = list_queue, e_read = e_read E, e_sha1 = e_sha1 E\<rparr>"

lemma list_env_simps [simp]:
  "e_work (list_env E) = list_queue" "e_buffers (list_env E) = list_queue"
  "e_read (list_env E) = e_read E" "e_sha1 (list_env E) = e_sha1 E"
  by (simp_all add: list_env_def)

lemma list_queue_simps [simp]:
  "sq_new list_queue = []" "sq_push list_queue x q = q @ [x]"
  "sq_pop list_queue q = (case q of [] \<Rightarrow> None | x # xs \<Rightarrow> Some (x, xs))"
  by (simp_all add: list_queue_def)

lemma foldl_snoc [simp]: "foldl (\<lambda>q b. q @ [b]) ys xs = ys @ xs"
  by (induction xs arbitrary: ys) auto

text \<open>The two queues the threads share.\<close>

locale hasher_queues =
  work: fifo_queue "e_work E" work_items + bufs: fifo_queue "e_buffers E" buffer_items
  for E :: "('r, 'w, 'b) hasher_env" and work_items :: "'w \<Rightarrow> worker_message list"
    and buffer_items :: "'b \<Rightarrow> piece_buffer list"
begin

definition view :: "('r, 'w, 'b) hasher \<Rightarrow> ('r, worker_message list, piece_buffer list) hasher" where
  "view s = \<lparr>h_master = h_master s, h_workers = h_workers s, h_work = work_items (h_work s),
    h_buffers = buffer_items (h_buffers s), h_channel = h_channel s, h_pieces = h_pieces s\<rparr>"

lemma view_fill_step: "fill_step (list_env E) r b rest i (view s) = view (fill_step E r b rest i s)"
  by (auto simp: fill_step_def view_def push_work_def work.items_push Let_def split: outcome.splits)

lemma view_access_step: "access_step (list_env E) as i ob (view s) = view (access_step E as i ob s)"
  by (cases "(E, as, i, ob, s)" rule: access_step.cases)
    (auto simp: view_def push_work_def work.items_push split: option.splits)

lemma view_master_step: "master_step (list_env E) (view s) = map_option view (master_step E s)"
proof (cases "h_master s")
  case (Checkout r e rest i)
  then show ?thesis
    by (cases "buffer_items (h_buffers s)")
      (auto simp: master_step_def view_def piece_checkout_def bufs.pop_None dest: bufs.pop_items bufs.pop_Some split: option.splits)
next
  case (Access as i ob)
  then show ?thesis using view_access_step [of as i ob s] by (simp add: master_step_def view_def)
next
  case (Fill r b rest i)
  then show ?thesis using view_fill_step [of r b rest i s] by (simp add: master_step_def view_def)
next
  case (Waiting k)
  then show ?thesis
    by (cases "h_channel s"; cases "hd (h_channel s)") (auto simp: master_step_def view_def)
qed (auto simp: master_step_def view_def push_work_def work.items_push split: nat.splits)

lemma view_worker_step: "worker_step (list_env E) w (view s) = map_option view (worker_step E w s)"
proof (cases "h_workers s ! w")
  case Popping
  show ?thesis
  proof (cases "work_items (h_work s)")
    case Nil
    then have "sq_pop (e_work E) (h_work s) = None" by (simp add: work.pop_None)
    then show ?thesis using Popping Nil by (simp add: worker_step_def view_def)
  next
    case (Cons m ms)
    then obtain q where "sq_pop (e_work E) (h_work s) = Some (m, q)" "work_items q = ms"
      using work.pop_items by blast
    then show ?thesis using Popping Cons by (cases m) (simp_all add: worker_step_def view_def)
  qed
qed (auto simp: worker_step_def view_def send_def piece_checkin_def bufs.items_push)

lemma view_thread_step: "thread_step (list_env E) t (view s) = map_option view (thread_step E t s)"
  using view_master_step [of s] view_worker_step [of _ s]
  by (auto simp: thread_step_def view_def split: nat.splits)

lemma view_start: "view (hasher_start E accesses n k) = hasher_start (list_env E) accesses n k"
  by (simp add: view_def hasher_start_def piece_buffers_new_def work.items_new bufs.items_new bufs.items_pushes)

lemma view_scheduled: "view (scheduled_step E t s) = scheduled_step (list_env E) t (view s)"
  by (simp add: scheduled_step_def view_thread_step split: option.splits)

lemma view_steps: "hasher_steps E s s' \<Longrightarrow> hasher_steps (list_env E) (view s) (view s')"
proof (induction rule: hasher_steps.induct)
  case (step s' t s'')
  then show ?case using view_thread_step [of t s'] by (auto intro: hasher_steps.step)
qed (rule hasher_steps.start)

lemma h_master_view: "h_master (view s) = h_master s"
  by (simp add: view_def)

end

interpretation list_queues: hasher_queues
  "\<lparr>e_work = list_queue, e_buffers = list_queue, e_read = cursor_read, e_sha1 = sha1\<rparr>" "\<lambda>q. q" "\<lambda>q. q"
  for sha1 :: "bytes \<Rightarrow> sha_hash"
  by unfold_locales (auto simp: list_queue_def)

section \<open>The invariant\<close>

type_synonym 'r list_hasher = "('r, worker_message list, piece_buffer list) hasher"

text \<open>Index and hash of the pieces on their way through the queue, the workers and the channel.\<close>

fun work_pair :: "(bytes \<Rightarrow> sha_hash) \<Rightarrow> worker_message \<Rightarrow> (nat \<times> sha_hash) multiset" where
  "work_pair sha1 (HashPiece i b) = {#(i, from_bytes sha1 (pb_as_slice b))#}"
| "work_pair sha1 Finish = {#}"

fun worker_pair :: "(bytes \<Rightarrow> sha_hash) \<Rightarrow> worker \<Rightarrow> (nat \<times> sha_hash) multiset" where
  "worker_pair sha1 (Hashing i b) = {#(i, from_bytes sha1 (pb_as_slice b))#}"
| "worker_pair sha1 _ = {#}"

fun channel_pair :: "master_message \<Rightarrow> (nat \<times> sha_hash) multiset" where
  "channel_pair (AcceptPiece i h) = {#(i, h)#}"
| "channel_pair WorkerFinished = {#}"

definition outstanding :: "(bytes \<Rightarrow> sha_hash) \<Rightarrow> 'r list_hasher \<Rightarrow> (nat \<times> sha_hash) multiset" where
  "outstanding sha1 s = mset (h_pieces s) + sum_list (map channel_pair (h_channel s)) +
    sum_list (map (worker_pair sha1) (h_workers s)) + sum_list (map (work_pair sha1) (h_work s))"

text \<open>What the master still has to hand out.\<close>

fun future :: "(bytes \<Rightarrow> sha_hash) \<Rightarrow> ('r \<Rightarrow> bytes) \<Rightarrow> nat \<Rightarrow> 'r master \<Rightarrow> (nat \<times> sha_hash) list" where
  "future sha1 contents n (Access as i ob) =
    enumerate i (piece_hashes sha1 contents n (case ob of None \<Rightarrow> [] | Some b \<Rightarrow> pb_as_slice b) as)"
| "future sha1 contents n (Checkout r e rest i) = enumerate i (piece_hashes sha1 contents n [] (Ok (Compute r) # rest))"
| "future sha1 contents n (Fill r b rest i) =
    enumerate i (piece_hashes sha1 contents n (pb_as_slice b) (Ok (Compute r) # rest))"
| "future sha1 contents n _ = []"

definition pairs_inv ::
  "(bytes \<Rightarrow> sha_hash) \<Rightarrow> ('r \<Rightarrow> bytes) \<Rightarrow> nat \<Rightarrow> 'r accesses \<Rightarrow> 'r list_hasher \<Rightarrow> bool" where
  "pairs_inv sha1 contents n accesses s \<longleftrightarrow>
    outstanding sha1 s + mset (future sha1 contents n (h_master s)) =
    mset (enumerate 0 (piece_hashes sha1 contents n [] accesses))"

text \<open>Every buffer is in exactly one place, has the length of a piece, and the one being filled has room.\<close>

fun work_buffers :: "worker_message \<Rightarrow> piece_buffer list" where
  "work_buffers (HashPiece i b) = [b]"
| "work_buffers Finish = []"

fun worker_buffers :: "worker \<Rightarrow> piece_buffer list" where
  "worker_buffers (Hashing i b) = [b]"
| "worker_buffers (Checkin b) = [b]"
| "worker_buffers _ = []"

fun master_buffers :: "'r master \<Rightarrow> piece_buffer list" where
  "master_buffers (Access as i ob) = (case ob of None \<Rightarrow> [] | Some b \<Rightarrow> [b])"
| "master_buffers (Fill r b rest i) = [b]"
| "master_buffers _ = []"

fun not_at_end :: "'r master \<Rightarrow> bool" where
  "not_at_end (Checkout r e rest i) = (\<not> e)"
| "not_at_end _ = True"

fun collecting :: "'r master \<Rightarrow> bool" where
  "collecting (Access as i ob) = True"
| "collecting (Checkout r e rest i) = True"
| "collecting (Fill r b rest i) = True"
| "collecting _ = False"

definition lengths_inv :: "nat \<Rightarrow> 'r list_hasher \<Rightarrow> bool" where
  "lengths_inv n s \<longleftrightarrow>
    (\<forall>b \<in> set (h_buffers s). length (pb_buffer b) = n \<and> bytes_read b = 0) \<and>
    (\<forall>m \<in> set (h_work s). \<forall>b \<in> set (work_buffers m). length (pb_buffer b) = n) \<and>
    (\<forall>w \<in> set (h_workers s). \<forall>b \<in> set (worker_buffers w). length (pb_buffer b) = n) \<and>
    (\<forall>b \<in> set (master_buffers (h_master s)). length (pb_buffer b) = n \<and> bytes_read b < n) \<and>
    not_at_end (h_master s)"

definition count_inv :: "'r list_hasher \<Rightarrow> bool" where
  "count_inv s \<longleftrightarrow> (collecting (h_master s) \<longrightarrow>
    length (h_buffers s) + sum_list (map (length \<circ> work_buffers) (h_work s)) +
    sum_list (map (length \<circ> worker_buffers) (h_workers s)) + length (master_buffers (h_master s)) =
    calculate_total_buffers (length (h_workers s)))"

text \<open>How far the shutdown has come.\<close>

fun finish_left :: "nat \<Rightarrow> 'r master \<Rightarrow> nat" where
  "finish_left k (Finishing j) = j"
| "finish_left k (Waiting j) = 0"
| "finish_left k (Returned r) = 0"
| "finish_left k _ = k"

fun received :: "'r master \<Rightarrow> nat" where
  "received (Waiting k) = k"
| "received _ = 0"

fun finishes :: "worker_message \<Rightarrow> nat" where
  "finishes Finish = 1"
| "finishes _ = 0"

fun leaving :: "worker \<Rightarrow> nat" where
  "leaving Stopping = 1"
| "leaving Exited = 1"
| "leaving _ = 0"

fun exited :: "worker \<Rightarrow> nat" where
  "exited Exited = 1"
| "exited _ = 0"

fun finished :: "master_message \<Rightarrow> nat" where
  "finished WorkerFinished = 1"
| "finished _ = 0"

fun pieces_first :: "worker_message list \<Rightarrow> bool" where
  "pieces_first [] = True"
| "pieces_first (HashPiece i b # ms) = pieces_first ms"
| "pieces_first (Finish # ms) = (\<forall>m \<in> set ms. m = Finish)"

text \<open>A hash in the channel was sent before the last worker left.\<close>

fun channel_ok :: "nat \<Rightarrow> nat \<Rightarrow> master_message list \<Rightarrow> bool" where
  "channel_ok n k [] = True"
| "channel_ok n k (AcceptPiece i h # ms) = (k < n \<and> channel_ok n k ms)"
| "channel_ok n k (WorkerFinished # ms) = channel_ok n (k + 1) ms"

definition phase_inv :: "nat \<Rightarrow> 'r list_hasher \<Rightarrow> bool" where
  "phase_inv n s \<longleftrightarrow> length (h_workers s) = n \<and>
    sum_list (map finishes (h_work s)) + sum_list (map leaving (h_workers s)) + finish_left n (h_master s) = n \<and>
    received (h_master s) + sum_list (map finished (h_channel s)) = sum_list (map exited (h_workers s)) \<and>
    pieces_first (h_work s) \<and> (0 < sum_list (map leaving (h_workers s)) \<longrightarrow> (\<forall>m \<in> set (h_work s). m = Finish)) \<and>
    channel_ok n (received (h_master s)) (h_channel s) \<and> Panicked \<notin> set (h_workers s)"

text \<open>Accesses handled so far did not fail.\<close>

fun accesses_left :: "'r master \<Rightarrow> 'r accesses" where
  "accesses_left (Access as i ob) = as"
| "accesses_left (Checkout r e rest i) = rest"
| "accesses_left (Fill r b rest i) = rest"
| "accesses_left _ = []"

fun in_region :: "'r master \<Rightarrow> bool" where
  "in_region (Checkout r e rest i) = True"
| "in_region (Fill r b rest i) = True"
| "in_region _ = False"

definition accessed_inv :: "'r accesses \<Rightarrow> 'r list_hasher \<Rightarrow> bool" where
  "accessed_inv accesses s \<longleftrightarrow>
    (\<exists>pre. accesses = pre @ accesses_left (h_master s) \<and> (\<forall>a \<in> set pre. \<exists>x. a = Ok x)) \<and>
    (in_region (h_master s) \<longrightarrow> (\<exists>r. Ok (Compute r) \<in> set accesses))"

end
