(* ===== verification/Metainfo_Hasher_Run.thy ===== *)
theory Metainfo_Hasher_Run
  imports Metainfo_Hasher_Correct
begin

text \<open>
  The steps of the hasher: each keeps the invariant and decreases a measure, and in every state before the master
  has returned some thread can take one.
\<close>

section \<open>Sums over the workers\<close>

lemma sum_list_update_add:
  fixes f :: "'a \<Rightarrow> 'b :: comm_monoid_add"
  assumes "w < length ws"
  shows "sum_list (map f (ws[w := y])) + f (ws ! w) = sum_list (map f ws) + f y"
  using assms
proof (induction ws arbitrary: w)
  case (Cons x ws)
  then show ?case
  proof (cases w)
    case (Suc v)
    then have "sum_list (map f (ws[v := y])) + f (ws ! v) = sum_list (map f ws) + f y"
      using Cons by simp
    then show ?thesis using Suc by (simp add: add.assoc)
  qed (simp add: ac_simps)
qed simp

lemma sum_list_zero_iff: "sum_list (map f xs) = (0 :: nat) \<longleftrightarrow> (\<forall>x \<in> set xs. f x = 0)"
  by (induction xs) auto

lemma sum_list_pos: "0 < sum_list (map f xs) \<Longrightarrow> \<exists>x \<in> set xs. (f x :: nat) \<noteq> 0"
  using sum_list_zero_iff [of f xs] by fastforce

lemma sum_list_less_length:
  assumes "sum_list (map f xs) < length xs" and "\<And>x. f x \<le> (1 :: nat)"
  shows "\<exists>w < length xs. f (xs ! w) = 0"
proof (rule ccontr)
  assume "\<not> (\<exists>w < length xs. f (xs ! w) = 0)"
  then have "\<forall>x \<in> set xs. 1 \<le> f x" by (auto simp: in_set_conv_nth Suc_le_eq)
  then have "length xs \<le> sum_list (map f xs)" by (induction xs) auto
  then show False using assms(1) by simp
qed

section \<open>Writing into the buffer\<close>

lemma pb_write_bytes_Ok:
  assumes "reader read contents" and "pb_write_bytes read r b = Ok (n, r', b')"
    and "length (pb_buffer b) = k" and "bytes_read b < k"
  obtains bs where "n = length bs" "contents r = bs @ contents r'" "pb_as_slice b' = pb_as_slice b @ bs"
    "length (pb_buffer b') = k" "bytes_read b' = bytes_read b + n" "bytes_read b' \<le> k"
    "n = 0 \<longrightarrow> contents r = [] \<and> b' = b"
proof -
  obtain bs where rd: "read r (k - bytes_read b) = Ok (bs, r')"
    and b': "b' = b\<lparr>pb_buffer := take (bytes_read b) (pb_buffer b) @ bs @ drop (bytes_read b + length bs) (pb_buffer b),
                          bytes_read := bytes_read b + length bs\<rparr>" "n = length bs"
    using assms(2-4) by (auto simp: pb_write_bytes_def and_then_eq_Ok)
  have c: "contents r = bs @ contents r'" "length bs \<le> k - bytes_read b"
      "bs = [] \<Longrightarrow> contents r = []"
    using reader.read_Ok [OF assms(1) rd] assms(4) by auto
  have "b' = b" if "n = 0" using that b' by simp
  then show thesis
    using that [of bs] b' c assms(3,4) by (auto simp: pb_as_slice_def)
qed

lemma pb_write_bytes_no_panic:
  "reader read contents \<Longrightarrow> length (pb_buffer b) = k \<Longrightarrow> bytes_read b < k \<Longrightarrow> pb_write_bytes read r b \<noteq> Panic"
  using reader.read_no_panic by (fastforce simp: pb_write_bytes_def and_then_eq_Panic)

lemma length_pb_as_slice: "bytes_read b \<le> length (pb_buffer b) \<Longrightarrow> length (pb_as_slice b) = bytes_read b"
  by (simp add: pb_as_slice_def)

section \<open>The queues and the channel\<close>

lemma pieces_first_snoc_Finish: "pieces_first ms \<Longrightarrow> pieces_first (ms @ [Finish])"
  by (induction ms rule: pieces_first.induct) auto

lemma pieces_first_snoc_piece: "sum_list (map finishes ms) = 0 \<Longrightarrow> pieces_first (ms @ [HashPiece i b])"
  by (induction ms rule: pieces_first.induct) auto

lemma pieces_first_tl: "pieces_first (m # ms) \<Longrightarrow> pieces_first ms"
  by (cases m) (auto, induction ms, auto)

lemma no_finish_no_piece: "pieces_first (Finish # ms) \<Longrightarrow> HashPiece i b \<notin> set ms"
  by auto

lemma channel_ok_snoc_Accept:
  "channel_ok n k ms \<Longrightarrow> k + sum_list (map finished ms) < n \<Longrightarrow> channel_ok n k (ms @ [AcceptPiece i h])"
  by (induction n k ms rule: channel_ok.induct) auto

lemma channel_ok_snoc_Finished: "channel_ok n k ms \<Longrightarrow> channel_ok n k (ms @ [WorkerFinished])"
  by (induction n k ms rule: channel_ok.induct) auto

lemma channel_ok_full: "channel_ok n n ms \<Longrightarrow> sum_list (map channel_pair ms) = {#}"
proof -
  have "n \<le> k \<Longrightarrow> channel_ok n k ms \<Longrightarrow> sum_list (map channel_pair ms) = {#}" for k
    by (induction n k ms rule: channel_ok.induct) auto
  then show "channel_ok n n ms \<Longrightarrow> sum_list (map channel_pair ms) = {#}" by blast
qed

lemma in_set_update: "x \<in> set (xs[w := y]) \<Longrightarrow> x = y \<or> x \<in> set xs"
  using set_update_subset_insert by fastforce

section \<open>Steps of the workers\<close>

text \<open>What a worker does to the lists, with the master still running.\<close>

lemma worker_step_cases:
  assumes "worker_step (list_env E) w s = Some s'" and "\<not> is_returned (h_master s)" and "w < length (h_workers s)"
  obtains (piece) i b ms where "h_workers s ! w = Popping" "h_work s = HashPiece i b # ms"
      "s' = s\<lparr>h_work := ms, h_workers := (h_workers s)[w := Hashing i b]\<rparr>"
    | (last) ms where "h_workers s ! w = Popping" "h_work s = Finish # ms"
      "s' = s\<lparr>h_work := ms, h_workers := (h_workers s)[w := Stopping]\<rparr>"
    | (hash) i b where "h_workers s ! w = Hashing i b"
      "s' = s\<lparr>h_channel := h_channel s @ [AcceptPiece i (from_bytes (e_sha1 E) (pb_as_slice b))],
              h_workers := (h_workers s)[w := Checkin b]\<rparr>"
    | (checkin) b where "h_workers s ! w = Checkin b"
      "s' = s\<lparr>h_buffers := h_buffers s @ [b\<lparr>bytes_read := 0\<rparr>], h_workers := (h_workers s)[w := Popping]\<rparr>"
    | (exit) "h_workers s ! w = Stopping"
      "s' = s\<lparr>h_channel := h_channel s @ [WorkerFinished], h_workers := (h_workers s)[w := Exited]\<rparr>"
proof (cases "h_workers s ! w")
  case Popping
  then obtain m ms where m: "h_work s = m # ms" "s' = pop_step w m (s\<lparr>h_work := ms\<rparr>)"
    using assms(1) by (auto simp: worker_step_def split: list.splits)
  show thesis
  proof (cases m)
    case (HashPiece i b)
    then show thesis using that(1) Popping m by simp
  next
    case Finish
    then show thesis using that(2) Popping m by simp
  qed
qed (use assms that(3-5) in \<open>auto simp: worker_step_def send_def piece_checkin_def\<close>)

lemma worker_pairs_inv:
  assumes "worker_step (list_env E) w s = Some s'" "\<not> is_returned (h_master s)" "w < length (h_workers s)"
    and "pairs_inv (e_sha1 E) contents n accesses s"
  shows "pairs_inv (e_sha1 E) contents n accesses s'"
  using assms(1-3)
proof (cases rule: worker_step_cases)
  case (piece i b ms)
  then show ?thesis
    using assms(3,4) sum_list_update_add [OF assms(3), of "worker_pair (e_sha1 E)" "Hashing i b"]
    by (simp add: pairs_inv_def outstanding_def ac_simps)
next
  case (last ms)
  then show ?thesis
    using assms(3,4) sum_list_update_add [OF assms(3), of "worker_pair (e_sha1 E)" Stopping]
    by (simp add: pairs_inv_def outstanding_def ac_simps)
next
  case (hash i b)
  then show ?thesis
    using assms(4) sum_list_update_add [OF assms(3), of "worker_pair (e_sha1 E)" "Checkin b", symmetric]
    by (simp add: pairs_inv_def outstanding_def ac_simps)
next
  case (checkin b)
  then show ?thesis
    using assms(3,4) sum_list_update_add [OF assms(3), of "worker_pair (e_sha1 E)" Popping]
    by (simp add: pairs_inv_def outstanding_def ac_simps)
next
  case exit
  then show ?thesis
    using assms(3,4) sum_list_update_add [OF assms(3), of "worker_pair (e_sha1 E)" Exited]
    by (simp add: pairs_inv_def outstanding_def ac_simps)
qed

lemma worker_lengths_inv:
  assumes "worker_step (list_env E) w s = Some s'" "\<not> is_returned (h_master s)" "w < length (h_workers s)"
    and "lengths_inv n s"
  shows "lengths_inv n s'"
proof -
  have ws: "\<forall>b \<in> set (worker_buffers (h_workers s ! w)). length (pb_buffer b) = n"
    using assms(3,4) by (auto simp: lengths_inv_def)
  show ?thesis
    using assms(1-3)
    by (cases rule: worker_step_cases)
      (use assms(4) ws in \<open>auto simp: lengths_inv_def dest!: in_set_update\<close>)
qed

lemma worker_count_inv:
  assumes "worker_step (list_env E) w s = Some s'" "\<not> is_returned (h_master s)" "w < length (h_workers s)"
    and "count_inv s"
  shows "count_inv s'"
proof -
  note upd = sum_list_update_add [OF assms(3), of "length \<circ> worker_buffers"]
  show ?thesis
    using assms(1-3)
  proof (cases rule: worker_step_cases)
    case (piece i b ms)
    then show ?thesis using assms(4) upd [of "Hashing i b"] by (simp add: count_inv_def)
  next
    case (last ms)
    then show ?thesis using assms(4) upd [of Stopping] by (simp add: count_inv_def)
  next
    case (hash i b)
    then show ?thesis using assms(4) upd [of "Checkin b"] by (simp add: count_inv_def)
  next
    case (checkin b)
    then show ?thesis using assms(4) upd [of Popping] by (auto simp: count_inv_def)
  next
    case exit
    then show ?thesis using assms(4) upd [of Exited] by (simp add: count_inv_def)
  qed
qed

lemma exited_le: "exited x \<le> 1"
  by (cases x) auto

lemma exited_less:
  assumes "w < length ws" and "exited (ws ! w) = 0"
  shows "sum_list (map exited ws) < length ws"
proof -
  have "sum_list (map exited xs) \<le> length xs" for xs
    by (induction xs) (auto intro: order_trans [OF add_mono [OF exited_le]])
  from this [of "ws[w := Exited]"] show ?thesis
    using sum_list_update_add [OF assms(1), of exited Exited] assms by simp
qed

lemma worker_phase_inv:
  assumes "worker_step (list_env E) w s = Some s'" "\<not> is_returned (h_master s)" "w < length (h_workers s)"
    and "phase_inv n s"
  shows "phase_inv n s'"
proof -
  note lv = sum_list_update_add [OF assms(3), of leaving] and ex = sum_list_update_add [OF assms(3), of exited]
  have np: "x \<noteq> Panicked \<Longrightarrow> Panicked \<notin> set ((h_workers s)[w := x])" for x
    using assms(4) in_set_update by (fastforce simp: phase_inv_def)
  note inv = assms(4) [unfolded phase_inv_def]
  show ?thesis
    using assms(1-3)
  proof (cases rule: worker_step_cases)
    case (piece i b ms)
    then have "sum_list (map leaving (h_workers s)) = 0" using inv by (auto simp: sum_list_zero_iff)
    then show ?thesis using piece inv lv [of "Hashing i b"] ex [of "Hashing i b"] np [of "Hashing i b"]
      by (simp add: phase_inv_def del: sum_list_eq_0_iff)
  next
    case (last ms)
    then show ?thesis using inv lv [of Stopping] ex [of Stopping] np [of Stopping] pieces_first_tl [of Finish ms]
      by (simp add: phase_inv_def)
  next
    case (hash i b)
    then have "received (h_master s) + sum_list (map finished (h_channel s)) < n"
      using inv exited_less [OF assms(3)] by simp
    then show ?thesis using hash inv lv [of "Checkin b"] ex [of "Checkin b"] np [of "Checkin b"]
      by (simp add: phase_inv_def channel_ok_snoc_Accept)
  next
    case (checkin b)
    then show ?thesis using inv lv [of Popping] ex [of Popping] np [of Popping] by (simp add: phase_inv_def)
  next
    case exit
    then show ?thesis using inv lv [of Exited] ex [of Exited] np [of Exited]
      by (simp add: phase_inv_def channel_ok_snoc_Finished)
  qed
qed

lemma pop_step_master: "h_master (pop_step w m s) = h_master s"
  by (cases m) auto

lemma worker_master: "worker_step E w s = Some s' \<Longrightarrow> h_master s' = h_master s"
  by (auto simp: worker_step_def send_def pop_step_master split: worker.splits option.splits)

section \<open>Steps of the master\<close>

text \<open>What filling the buffer does, when the read succeeds.\<close>

lemma fill_step_cases:
  assumes "reader (e_read E) contents" and "0 < n" and "lengths_inv n s" and "h_master s = Fill r b rest i"
    and "\<not> is_returned (h_master (fill_step (list_env E) r b rest i s))"
  obtains (whole) r' b' bs where "contents r = bs @ contents r'" "pb_as_slice b' = pb_as_slice b @ bs"
      "length (pb_buffer b') = n" "bytes_read b' = n" "bs \<noteq> []"
      "fill_step (list_env E) r b rest i s =
        s\<lparr>h_work := h_work s @ [HashPiece i b'], h_master := Checkout r' False rest (i + 1)\<rparr>"
    | (at_end) "contents r = []" "fill_step (list_env E) r b rest i s = s\<lparr>h_master := Access rest i (Some b)\<rparr>"
    | (more) r' b' bs where "contents r = bs @ contents r'" "pb_as_slice b' = pb_as_slice b @ bs"
      "length (pb_buffer b') = n" "bytes_read b' < n" "bs \<noteq> []"
      "fill_step (list_env E) r b rest i s = s\<lparr>h_master := Fill r' b' rest i\<rparr>"
proof (cases "pb_write_bytes (e_read E) r b")
  case (Ok x)
  then obtain k r' b' where w: "pb_write_bytes (e_read E) r b = Ok (k, r', b')" by (cases x) auto
  have b: "length (pb_buffer b) = n" "bytes_read b < n" using assms(3,4) by (auto simp: lengths_inv_def)
  obtain bs where bs: "k = length bs" "contents r = bs @ contents r'" "pb_as_slice b' = pb_as_slice b @ bs"
    "length (pb_buffer b') = n" "bytes_read b' = bytes_read b + k" "bytes_read b' \<le> n"
    "k = 0 \<longrightarrow> contents r = [] \<and> b' = b"
    by (rule pb_write_bytes_Ok [OF assms(1) w b])
  have eq: "fill_step (list_env E) r b rest i s =
      (if is_whole b' then (s\<lparr>h_work := h_work s @ [HashPiece i b'], h_master := Checkout r' (k = 0) rest (i + 1)\<rparr>)
       else if k = 0 then s\<lparr>h_master := Access rest i (Some b')\<rparr> else s\<lparr>h_master := Fill r' b' rest i\<rparr>)"
    using w by (simp add: fill_step_def push_work_def)
  show thesis
  proof (cases "is_whole b'")
    case True
    then have "bytes_read b' = n" "k \<noteq> 0" using bs b by (auto simp: is_whole_def)
    then show thesis using whole bs eq True by auto
  next
    case False
    then have "bytes_read b' < n" using bs by (auto simp: is_whole_def)
    then show thesis using at_end more bs eq False by (cases "k = 0") auto
  qed
qed (use assms(5) in \<open>simp_all add: fill_step_def\<close>)

lemma access_pairs_inv:
  assumes "pairs_inv (e_sha1 E) contents n accesses s" and "h_master s = Access as i ob"
    and "lengths_inv n s" and "\<not> is_returned (h_master (access_step (list_env E) as i ob s))"
  shows "pairs_inv (e_sha1 E) contents n accesses (access_step (list_env E) as i ob s)"
proof (cases "(list_env E, as, i, ob, s)" rule: access_step.cases)
  case (6 F i' ob' s')
  show ?thesis
  proof (cases ob)
    case (Some b)
    then have "bytes_read b < length (pb_buffer b)" using assms(2,3) by (auto simp: lengths_inv_def)
    then have "pb_is_empty b \<longleftrightarrow> pb_as_slice b = []" by (auto simp: pb_is_empty_def pb_as_slice_def)
    then show ?thesis using 6 Some assms(1,2)
      by (auto simp: pairs_inv_def outstanding_def push_work_def ac_simps)
  qed (use 6 assms(1,2) in \<open>auto simp: pairs_inv_def outstanding_def\<close>)
qed (use assms in \<open>auto simp: pairs_inv_def outstanding_def simp del: piece_hashes.simps(2)\<close>)

lemma fill_pairs_inv:
  assumes "reader (e_read E) contents" and "0 < n" and "pairs_inv (e_sha1 E) contents n accesses s"
    and "h_master s = Fill r b rest i" and "lengths_inv n s"
    and "\<not> is_returned (h_master (fill_step (list_env E) r b rest i s))"
  shows "pairs_inv (e_sha1 E) contents n accesses (fill_step (list_env E) r b rest i s)"
  using assms(1,2,5,4,6)
proof (cases rule: fill_step_cases)
  case (whole r' b' bs)
  have len: "length (pb_as_slice b') = n" using whole by (simp add: pb_as_slice_def)
  have "piece_hashes (e_sha1 E) contents n (pb_as_slice b) (Ok (Compute r) # rest) =
    from_bytes (e_sha1 E) (pb_as_slice b') # piece_hashes (e_sha1 E) contents n [] (Ok (Compute r') # rest)"
    unfolding piece_hashes_read [where contents = contents and r = r, OF whole(1)] whole(2) [symmetric] by (rule piece_hashes_whole [OF assms(2) len])
  then show ?thesis using whole(6) assms(3,4)
    by (simp add: pairs_inv_def outstanding_def ac_simps del: piece_hashes.simps)
next
  case at_end
  have "length (pb_as_slice b) < n" using assms(4,5) by (auto simp: lengths_inv_def pb_as_slice_def)
  then show ?thesis using at_end assms(3,4) piece_hashes_end [of "pb_as_slice b" n contents r]
    by (simp add: pairs_inv_def outstanding_def del: piece_hashes.simps)
next
  case (more r' b' bs)
  then show ?thesis using assms(3,4) piece_hashes_read [where contents = contents and r = r, OF more(1)]
    by (simp add: pairs_inv_def outstanding_def del: piece_hashes.simps)
qed

text \<open>The remaining steps of the master, written out.\<close>

lemma master_step_cases:
  assumes "master_step (list_env E) s = Some s'"
  obtains (access) as i ob where "h_master s = Access as i ob" "s' = access_step (list_env E) as i ob s"
    | (checkout) r e rest i b bs where "h_master s = Checkout r e rest i" "h_buffers s = b # bs"
      "s' = s\<lparr>h_buffers := bs, h_master := (if e then Access rest i (Some b) else Fill r b rest i)\<rparr>"
    | (fill) r b rest i where "h_master s = Fill r b rest i" "s' = fill_step (list_env E) r b rest i s"
    | (finish) k where "h_master s = Finishing (Suc k)" "s' = s\<lparr>h_work := h_work s @ [Finish], h_master := Finishing k\<rparr>"
    | (wait) "h_master s = Finishing 0" "s' = s\<lparr>h_master := Waiting 0\<rparr>"
    | (accept) k i h ms where "h_master s = Waiting k" "k < length (h_workers s)" "h_channel s = AcceptPiece i h # ms"
      "s' = s\<lparr>h_channel := ms, h_pieces := h_pieces s @ [(i, h)]\<rparr>"
    | (left) k ms where "h_master s = Waiting k" "k < length (h_workers s)" "h_channel s = WorkerFinished # ms"
      "s' = s\<lparr>h_channel := ms, h_master := Waiting (k + 1)\<rparr>"
    | (return) k where "h_master s = Waiting k" "length (h_workers s) \<le> k"
      "s' = s\<lparr>h_master := Returned (Ok (sort_key fst (h_pieces s)))\<rparr>"
proof (cases "h_master s")
  case (Checkout r e rest i)
  then show thesis using assms that(2) by (auto simp: master_step_def piece_checkout_def split: list.splits)
next
  case (Finishing k)
  then show thesis using assms that(4,5) by (cases k) (auto simp: master_step_def push_work_def)
next
  case (Waiting k)
  show thesis
  proof (cases "k < length (h_workers s)")
    case True
    then obtain m ms where m: "h_channel s = m # ms" "s' = recv_step k m (s\<lparr>h_channel := ms\<rparr>)"
      using Waiting assms by (auto simp: master_step_def split: list.splits)
    show thesis using that(6,7) Waiting True m by (cases m) auto
  qed (use Waiting assms that(8) in \<open>auto simp: master_step_def\<close>)
qed (use assms that(1,3) in \<open>auto simp: master_step_def\<close>)

lemma master_pairs_inv:
  assumes "master_step (list_env E) s = Some s'" and "\<not> is_returned (h_master s')" and "reader (e_read E) contents"
    and "0 < n" and "lengths_inv n s" and "pairs_inv (e_sha1 E) contents n accesses s"
  shows "pairs_inv (e_sha1 E) contents n accesses s'"
  using assms(1)
proof (cases rule: master_step_cases)
  case (access as i ob)
  show ?thesis unfolding access(2) by (rule access_pairs_inv [OF assms(6) access(1) assms(5) assms(2) [unfolded access(2)]])
next
  case (checkout r e rest i b bs)
  then have "\<not> e" "pb_as_slice b = []" using assms(5) by (auto simp: lengths_inv_def pb_as_slice_def)
  then show ?thesis using checkout assms(6)
    by (simp add: pairs_inv_def outstanding_def del: piece_hashes.simps)
next
  case (fill r b rest i)
  show ?thesis unfolding fill(2) by (rule fill_pairs_inv [OF assms(3,4,6) fill(1) assms(5) assms(2) [unfolded fill(2)]])
next
  case (accept k i h ms)
  then show ?thesis using assms(6) by (simp add: pairs_inv_def outstanding_def)
qed (use assms(2,6) in \<open>simp_all add: pairs_inv_def outstanding_def\<close>)

lemma access_lengths_inv:
  assumes "lengths_inv n s" and "h_master s = Access as i ob"
  shows "lengths_inv n (access_step (list_env E) as i ob s)"
  by (cases "(list_env E, as, i, ob, s)" rule: access_step.cases)
    (use assms in \<open>auto simp: lengths_inv_def push_work_def split: option.splits\<close>)

lemma fill_lengths_inv:
  assumes "reader (e_read E) contents" and "0 < n" and "lengths_inv n s" and "h_master s = Fill r b rest i"
    and "\<not> is_returned (h_master (fill_step (list_env E) r b rest i s))"
  shows "lengths_inv n (fill_step (list_env E) r b rest i s)"
  using assms
  by (cases rule: fill_step_cases) (use assms(3,4) in \<open>auto simp: lengths_inv_def\<close>)

lemma master_lengths_inv:
  assumes "master_step (list_env E) s = Some s'" and "\<not> is_returned (h_master s')" and "reader (e_read E) contents"
    and "0 < n" and "lengths_inv n s"
  shows "lengths_inv n s'"
  using assms(1)
proof (cases rule: master_step_cases)
  case (access as i ob)
  show ?thesis unfolding access(2) by (rule access_lengths_inv [OF assms(5) access(1)])
next
  case (fill r b rest i)
  show ?thesis unfolding fill(2) by (rule fill_lengths_inv [OF assms(3-5) fill(1) assms(2) [unfolded fill(2)]])
qed (use assms(2,4,5) in \<open>auto simp: lengths_inv_def\<close>)

lemma access_count_inv:
  assumes "count_inv s" and "h_master s = Access as i ob"
  shows "count_inv (access_step (list_env E) as i ob s)"
  by (cases "(list_env E, as, i, ob, s)" rule: access_step.cases)
    (use assms in \<open>auto simp: count_inv_def push_work_def split: option.splits\<close>)

lemma fill_count_inv:
  assumes "reader (e_read E) contents" and "0 < n" and "lengths_inv n s" and "h_master s = Fill r b rest i"
    and "\<not> is_returned (h_master (fill_step (list_env E) r b rest i s))" and "count_inv s"
  shows "count_inv (fill_step (list_env E) r b rest i s)"
  using assms(1-5)
  by (cases rule: fill_step_cases) (use assms(4,6) in \<open>auto simp: count_inv_def\<close>)

lemma master_count_inv:
  assumes "master_step (list_env E) s = Some s'" and "\<not> is_returned (h_master s')" and "reader (e_read E) contents"
    and "0 < n" and "lengths_inv n s" and "count_inv s"
  shows "count_inv s'"
  using assms(1)
proof (cases rule: master_step_cases)
  case (access as i ob)
  show ?thesis unfolding access(2) by (rule access_count_inv [OF assms(6) access(1)])
next
  case (fill r b rest i)
  show ?thesis unfolding fill(2) by (rule fill_count_inv [OF assms(3-5) fill(1) assms(2) [unfolded fill(2)] assms(6)])
qed (use assms(2,6) in \<open>auto simp: count_inv_def\<close>)

lemma access_phase_inv:
  assumes "phase_inv n s" and "h_master s = Access as i ob"
    and "\<not> is_returned (h_master (access_step (list_env E) as i ob s))"
  shows "phase_inv n (access_step (list_env E) as i ob s)"
  by (cases "(list_env E, as, i, ob, s)" rule: access_step.cases)
    (use assms pieces_first_snoc_piece in \<open>auto simp: phase_inv_def push_work_def split: option.splits\<close>)

lemma fill_phase_inv:
  assumes "reader (e_read E) contents" and "0 < n" and "lengths_inv n s" and "h_master s = Fill r b rest i"
    and "\<not> is_returned (h_master (fill_step (list_env E) r b rest i s))" and "phase_inv k s"
  shows "phase_inv k (fill_step (list_env E) r b rest i s)"
  using assms(1-5)
  by (cases rule: fill_step_cases) (use assms(4,6) pieces_first_snoc_piece in \<open>auto simp: phase_inv_def\<close>)

lemma master_phase_inv:
  assumes "master_step (list_env E) s = Some s'" and "\<not> is_returned (h_master s')" and "reader (e_read E) contents"
    and "0 < n" and "lengths_inv n s" and "phase_inv k s"
  shows "phase_inv k s'"
  using assms(1)
proof (cases rule: master_step_cases)
  case (access as i ob)
  show ?thesis unfolding access(2) by (rule access_phase_inv [OF assms(6) access(1) assms(2) [unfolded access(2)]])
next
  case (fill r b rest i)
  show ?thesis unfolding fill(2) by (rule fill_phase_inv [OF assms(3-5) fill(1) assms(2) [unfolded fill(2)] assms(6)])
qed (use assms(2,6) pieces_first_snoc_Finish in \<open>auto simp: phase_inv_def\<close>)

lemma access_accessed_inv:
  assumes "accessed_inv accesses s" and "h_master s = Access as i ob"
    and "\<not> is_returned (h_master (access_step (list_env E) as i ob s))"
  shows "accessed_inv accesses (access_step (list_env E) as i ob s)"
proof -
  obtain pre where pre: "accesses = pre @ as" "\<forall>a \<in> set pre. \<exists>x. a = Ok x"
    using assms(1,2) by (auto simp: accessed_inv_def)
  show ?thesis
  proof (cases as)
    case Nil
    then show ?thesis using pre by (auto simp: accessed_inv_def)
  next
    case (Cons a rest)
    then obtain x where a: "a = Ok x" using assms(3) by (cases a) auto
    then have "accesses_left (h_master (access_step (list_env E) as i ob s)) = rest"
      using Cons by (cases x; cases ob) auto
    moreover have "in_region (h_master (access_step (list_env E) as i ob s)) \<Longrightarrow> \<exists>r. Ok (Compute r) \<in> set accesses"
      using Cons a pre by (cases x) auto
    ultimately show ?thesis using pre Cons a by (auto simp: accessed_inv_def intro!: exI [of _ "pre @ [a]"])
  qed
qed

lemma master_accessed_inv:
  assumes "master_step (list_env E) s = Some s'" and "\<not> is_returned (h_master s')" and "accessed_inv accesses s"
  shows "accessed_inv accesses s'"
  using assms(1)
proof (cases rule: master_step_cases)
  case (access as i ob)
  show ?thesis unfolding access(2) by (rule access_accessed_inv [OF assms(3) access(1) assms(2) [unfolded access(2)]])
next
  case (fill r b rest i)
  have "accesses_left (h_master s') = rest" using fill assms(2)
    by (auto simp: fill_step_def Let_def split: outcome.splits prod.splits if_splits)
  then show ?thesis using fill(1) assms(3) by (simp add: accessed_inv_def)
qed (use assms(2,3) in \<open>auto simp: accessed_inv_def split: if_splits\<close>)

section \<open>The invariant of all runs\<close>

definition hasher_inv ::
  "(bytes \<Rightarrow> sha_hash) \<Rightarrow> ('r \<Rightarrow> bytes) \<Rightarrow> nat \<Rightarrow> nat \<Rightarrow> 'r accesses \<Rightarrow> 'r list_hasher \<Rightarrow> bool" where
  "hasher_inv sha1 contents n k accesses s \<longleftrightarrow>
    pairs_inv sha1 contents n accesses s \<and> lengths_inv n s \<and> count_inv s \<and> phase_inv k s \<and> accessed_inv accesses s"

lemma sum_list_replicate_zero: "f x = (0 :: 'b :: comm_monoid_add) \<Longrightarrow> sum_list (map f (replicate k x)) = 0"
  by (induction k) auto

lemma sum_list_replicate_empty [simp]: "sum_list (replicate k {#}) = {#}"
  by (induction k) auto

lemma sum_list_empty: "\<forall>x \<in> set xs. f x = {#} \<Longrightarrow> sum_list (map f xs) = {#}"
  by (induction xs) auto

lemma hasher_inv_start: "hasher_inv sha1 contents n k accesses (hasher_start (list_env E) accesses n k)"
  by (auto simp: hasher_inv_def pairs_inv_def lengths_inv_def count_inv_def phase_inv_def accessed_inv_def
      hasher_start_def outstanding_def piece_buffers_new_def piece_buffer_new_def sum_list_replicate_zero)

lemma thread_step_inv:
  assumes "reader (e_read E) contents" and "0 < n" and "hasher_inv (e_sha1 E) contents n k accesses s"
    and "thread_step (list_env E) t s = Some s'" and "\<not> is_returned (h_master s)" and "\<not> is_returned (h_master s')"
  shows "hasher_inv (e_sha1 E) contents n k accesses s'"
proof (cases t)
  case 0
  then have "master_step (list_env E) s = Some s'" using assms(4) by (simp add: thread_step_def)
  note m = this assms(6)
  have inv: "lengths_inv n s" "pairs_inv (e_sha1 E) contents n accesses s" "count_inv s" "phase_inv k s" "accessed_inv accesses s"
    using assms(3) by (simp_all add: hasher_inv_def)
  show ?thesis
    unfolding hasher_inv_def
    using master_pairs_inv [OF m assms(1,2) inv(1,2)] master_lengths_inv [OF m assms(1,2) inv(1)]
      master_count_inv [OF m assms(1,2) inv(1,3)] master_phase_inv [OF m assms(1,2) inv(1,4)]
      master_accessed_inv [OF m inv(5)] by blast
next
  case (Suc w)
  then have w: "worker_step (list_env E) w s = Some s'" "w < length (h_workers s)"
    using assms(4) by (auto simp: thread_step_def split: if_splits)
  then have "accessed_inv accesses s'"
    using assms(3) worker_master [OF w(1)] by (simp add: hasher_inv_def accessed_inv_def)
  then show ?thesis
    using worker_pairs_inv [OF w(1) assms(5) w(2)] worker_lengths_inv [OF w(1) assms(5) w(2)]
      worker_count_inv [OF w(1) assms(5) w(2)] worker_phase_inv [OF w(1) assms(5) w(2)] assms(3)
    by (simp add: hasher_inv_def)
qed

section \<open>The result\<close>

lemma sort_enumerate:
  assumes "mset ps = mset (enumerate i xs)"
  shows "sort_key fst ps = enumerate i xs"
proof -
  have "set (sort_key fst ps) = set (enumerate i xs)" using assms by (metis mset_eq_setD set_sort)
  moreover have "distinct (map fst (sort_key fst ps))"
    using assms by (metis mset_sort mset_map mset_eq_imp_distinct_iff distinct_enumerate distinct_map
      map_fst_enumerate distinct_upt)
  moreover have "sorted (map fst (enumerate i xs))" "distinct (map fst (enumerate i xs))"
    by (simp_all add: map_fst_enumerate)
  moreover have "inj_on fst (set (sort_key fst ps) \<union> set (enumerate i xs))"
    using calculation by (simp add: distinct_map)
  ultimately show ?thesis
    by (intro map_sorted_distinct_set_unique [where f = fst]) auto
qed

lemma all_exited:
  assumes "phase_inv k s" and "h_master s = Waiting j" and "k \<le> j" and "0 < k"
  shows "j = k" and "\<forall>w \<in> set (h_workers s). w = Exited" and "\<forall>m \<in> set (h_work s). m = Finish"
proof -
  have inv: "length (h_workers s) = k" "j + sum_list (map finished (h_channel s)) = sum_list (map exited (h_workers s))"
    "0 < sum_list (map leaving (h_workers s)) \<longrightarrow> (\<forall>m \<in> set (h_work s). m = Finish)"
    using assms(1,2) by (auto simp: phase_inv_def)
  have le: "sum_list (map exited xs) \<le> length xs" for xs
    by (induction xs) (auto intro: order_trans [OF add_mono [OF exited_le]])
  then show "j = k" using inv assms(3) le [of "h_workers s"] by simp
  show ex: "\<forall>w \<in> set (h_workers s). w = Exited"
  proof (rule ccontr)
    assume "\<not> (\<forall>w \<in> set (h_workers s). w = Exited)"
    then obtain w where "w < length (h_workers s)" "exited (h_workers s ! w) = 0"
      by (metis exited.simps(2-6) in_set_conv_nth worker.exhaust)
    then show False using exited_less inv assms(3) by fastforce
  qed
  have "h_workers s \<noteq> []" using inv(1) assms(4) by auto
  then have "sum_list (map leaving (h_workers s)) \<noteq> 0"
    using ex by (cases "h_workers s") auto
  then have "0 < sum_list (map leaving (h_workers s))" by (rule neq0_conv [THEN iffD1])
  then show "\<forall>m \<in> set (h_work s). m = Finish" using inv(3) by blast
qed

lemma master_result:
  assumes "hasher_inv (e_sha1 E) contents n k accesses s" and "h_master s = Waiting j" and "k \<le> j" and "0 < k"
  shows "sort_key fst (h_pieces s) = enumerate 0 (piece_hashes (e_sha1 E) contents n [] accesses)"
    and "\<forall>a \<in> set accesses. \<exists>x. a = Ok x"
proof -
  have ph: "phase_inv k s" using assms(1) by (simp add: hasher_inv_def)
  note ex = all_exited [OF ph assms(2-4)]
  have "sum_list (map (worker_pair (e_sha1 E)) (h_workers s)) = {#}"
    using ex(2) by (intro sum_list_empty) auto
  moreover have "sum_list (map (work_pair (e_sha1 E)) (h_work s)) = {#}"
    using ex(3) by (intro sum_list_empty) auto
  moreover have "sum_list (map channel_pair (h_channel s)) = {#}"
    using ph assms(2) ex(1) by (auto simp: phase_inv_def intro: channel_ok_full)
  ultimately have "mset (h_pieces s) = mset (enumerate 0 (piece_hashes (e_sha1 E) contents n [] accesses))"
    using assms(1,2) by (simp add: hasher_inv_def pairs_inv_def outstanding_def)
  then show "sort_key fst (h_pieces s) = enumerate 0 (piece_hashes (e_sha1 E) contents n [] accesses)"
    by (rule sort_enumerate)
  show "\<forall>a \<in> set accesses. \<exists>x. a = Ok x"
    using assms(1,2) by (auto simp: hasher_inv_def accessed_inv_def)
qed

section \<open>A measure\<close>

fun access_weight :: "('r \<Rightarrow> bytes) \<Rightarrow> (string, 'r piece_access) outcome \<Rightarrow> nat" where
  "access_weight contents (Ok (Compute r)) = 10 * length (contents r) + 4"
| "access_weight contents _ = 1"

abbreviation accesses_weight :: "('r \<Rightarrow> bytes) \<Rightarrow> 'r accesses \<Rightarrow> nat" where
  "accesses_weight contents as \<equiv> sum_list (map (access_weight contents) as)"

fun master_weight :: "('r \<Rightarrow> bytes) \<Rightarrow> nat \<Rightarrow> 'r master \<Rightarrow> nat" where
  "master_weight contents k (Access as i ob) = accesses_weight contents as + 4 * k + 8"
| "master_weight contents k (Checkout r e rest i) = 10 * length (contents r) + 3 + accesses_weight contents rest + 4 * k + 8"
| "master_weight contents k (Fill r b rest i) = 10 * length (contents r) + 2 + accesses_weight contents rest + 4 * k + 8"
| "master_weight contents k (Finishing j) = 4 * j + 2"
| "master_weight contents k (Waiting j) = 1"
| "master_weight contents k (Returned r) = 0"

fun work_weight :: "worker_message \<Rightarrow> nat" where
  "work_weight (HashPiece i b) = 4"
| "work_weight Finish = 3"

fun worker_weight :: "worker \<Rightarrow> nat" where
  "worker_weight (Hashing i b) = 3"
| "worker_weight (Checkin b) = 1"
| "worker_weight Stopping = 2"
| "worker_weight _ = 0"

definition hasher_weight :: "('r \<Rightarrow> bytes) \<Rightarrow> 'r list_hasher \<Rightarrow> nat" where
  "hasher_weight contents s = master_weight contents (length (h_workers s)) (h_master s) +
    sum_list (map work_weight (h_work s)) + sum_list (map worker_weight (h_workers s)) + length (h_channel s)"

lemma worker_weight_decreases:
  assumes "worker_step (list_env E) w s = Some s'" "\<not> is_returned (h_master s)" "w < length (h_workers s)"
  shows "hasher_weight contents s' < hasher_weight contents s"
proof -
  note upd = sum_list_update_add [OF assms(3), of worker_weight]
  show ?thesis
    using assms
  proof (cases rule: worker_step_cases)
    case (piece i b ms)
    then show ?thesis using upd [of "Hashing i b"] by (simp add: hasher_weight_def)
  next
    case (last ms)
    then show ?thesis using upd [of Stopping] by (simp add: hasher_weight_def)
  next
    case (hash i b)
    then show ?thesis using upd [of "Checkin b"] by (simp add: hasher_weight_def)
  next
    case (checkin b)
    then show ?thesis using upd [of Popping] by (simp add: hasher_weight_def)
  next
    case exit
    then show ?thesis using upd [of Exited] by (simp add: hasher_weight_def)
  qed
qed

lemma access_weight_decreases:
  "h_master s = Access as i ob \<Longrightarrow>
   hasher_weight contents (access_step (list_env E) as i ob s) < hasher_weight contents s"
  by (cases "(list_env E, as, i, ob, s)" rule: access_step.cases)
    (auto simp: hasher_weight_def push_work_def split: option.splits)

lemma fill_weight_decreases:
  assumes "reader (e_read E) contents" and "0 < n" and "lengths_inv n s" and "h_master s = Fill r b rest i"
  shows "hasher_weight contents (fill_step (list_env E) r b rest i s) < hasher_weight contents s"
proof (cases "is_returned (h_master (fill_step (list_env E) r b rest i s))")
  case True
  then show ?thesis using assms(4)
    by (auto simp: fill_step_def hasher_weight_def Let_def split: outcome.splits if_splits)
next
  case False
  show ?thesis
    using assms False
  proof (cases rule: fill_step_cases)
    case (whole r' b' bs)
    then have "length (contents r) = length bs + length (contents r')" "1 \<le> length bs"
      by (auto simp: Suc_le_eq)
    then show ?thesis using whole(6) assms(4) by (simp add: hasher_weight_def)
  next
    case (more r' b' bs)
    then have "length (contents r) = length bs + length (contents r')" "1 \<le> length bs"
      by (auto simp: Suc_le_eq)
    then show ?thesis using more(5,6) assms(4) by (simp add: hasher_weight_def)
  qed (use assms(4) in \<open>simp add: hasher_weight_def\<close>)
qed

lemma master_weight_decreases:
  assumes "master_step (list_env E) s = Some s'" and "reader (e_read E) contents" and "0 < n" and "lengths_inv n s"
  shows "hasher_weight contents s' < hasher_weight contents s"
  using assms(1)
proof (cases rule: master_step_cases)
  case (access as i ob)
  show ?thesis unfolding access(2) by (rule access_weight_decreases [OF access(1)])
next
  case (fill r b rest i)
  show ?thesis unfolding fill(2) by (rule fill_weight_decreases [OF assms(2-4) fill(1)])
qed (use assms(4) in \<open>auto simp: hasher_weight_def lengths_inv_def\<close>)

lemma thread_weight_decreases:
  assumes "reader (e_read E) contents" and "0 < n" and "lengths_inv n s" and "\<not> is_returned (h_master s)"
    and "thread_step (list_env E) t s = Some s'"
  shows "hasher_weight contents s' < hasher_weight contents s"
  using assms(5) master_weight_decreases [OF _ assms(1-3)] worker_weight_decreases [OF _ assms(4)]
  by (auto simp: thread_step_def split: nat.splits if_splits)

section \<open>Progress\<close>

lemma busy_worker:
  assumes "w < length (h_workers s)" and "h_workers s ! w \<notin> {Popping, Exited, Panicked}"
  shows "thread_step (list_env E) (Suc w) s \<noteq> None"
  using assms by (cases "h_workers s ! w") (auto simp: thread_step_def worker_step_def)

lemma popping_worker:
  assumes "w < length (h_workers s)" and "h_workers s ! w = Popping" and "h_work s \<noteq> []"
  shows "thread_step (list_env E) (Suc w) s \<noteq> None"
  using assms by (cases "h_work s") (auto simp: thread_step_def worker_step_def)

lemma master_blocked_cases:
  assumes "\<not> is_returned (h_master s)"
  obtains r e rest i where "h_master s = Checkout r e rest i" "h_buffers s = []"
    | j where "h_master s = Waiting j" "j < length (h_workers s)" "h_channel s = []"
    | "master_step (list_env E) s \<noteq> None"
proof (cases "h_master s")
  case (Checkout r e rest i)
  then show thesis using that(1,3) by (cases "h_buffers s") (auto simp: master_step_def piece_checkout_def)
next
  case (Finishing k)
  then show thesis using that(3) by (cases k) (auto simp: master_step_def)
next
  case (Waiting j)
  then show thesis using that(2,3) by (cases "h_channel s"; cases "j < length (h_workers s)") (auto simp: master_step_def)
qed (use assms that(3) in \<open>auto simp: master_step_def\<close>)

lemma some_thread_steps:
  assumes "hasher_inv sha1 contents n k accesses s" and "0 < k" and "\<not> is_returned (h_master s)"
  shows "\<exists>t \<le> k. thread_step (list_env E) t s \<noteq> None"
proof -
  have k: "length (h_workers s) = k" and np: "Panicked \<notin> set (h_workers s)"
    using assms(1) by (auto simp: hasher_inv_def phase_inv_def)
  have workers: "\<exists>t \<le> k. thread_step (list_env E) t s \<noteq> None"
    if "w < k" "h_workers s ! w \<noteq> Exited" "h_workers s ! w = Popping \<longrightarrow> h_work s \<noteq> []" for w
    using busy_worker [of w s E] popping_worker [of w s E] that k np
    by (metis Suc_leI insertE nth_mem singletonD)
  consider (blocked) r e rest i where "h_master s = Checkout r e rest i" "h_buffers s = []"
    | (receiving) j where "h_master s = Waiting j" "j < k" "h_channel s = []"
    | (running) "master_step (list_env E) s \<noteq> None"
    by (rule master_blocked_cases [OF assms(3)]) (use k in auto)
  then show ?thesis
  proof cases
    case blocked
    have "sum_list (map leaving (h_workers s)) = 0"
      using assms(1) blocked by (simp add: hasher_inv_def phase_inv_def del: sum_list_eq_0_iff)
    then have nex: "x \<in> set (h_workers s) \<Longrightarrow> x \<noteq> Exited" for x by (auto simp: sum_list_zero_iff)
    have "sum_list (map (length \<circ> work_buffers) (h_work s)) + sum_list (map (length \<circ> worker_buffers) (h_workers s)) = 2 * k"
      using assms(1) blocked k
      by (simp add: hasher_inv_def count_inv_def calculate_total_buffers_def TOTAL_BUFFERS_MULTIPLICATIVE_def
          TOTAL_BUFFERS_ADDITIVE_def)
    then consider "h_work s \<noteq> []" | "0 < sum_list (map (length \<circ> worker_buffers) (h_workers s))"
      using assms(2) by (cases "h_work s") auto
    then show ?thesis
    proof cases
      case 1
      then show ?thesis using workers [of 0] nex [of "h_workers s ! 0"] assms(2) k by simp
    next
      case 2
      then obtain w where "w < k" "worker_buffers (h_workers s ! w) \<noteq> []"
        using sum_list_pos [OF 2] k by (auto simp: in_set_conv_nth)
      then show ?thesis using workers [of w] nex [of "h_workers s ! w"] k by fastforce
    qed
  next
    case receiving
    have "sum_list (map exited (h_workers s)) < k"
      using assms(1) receiving by (simp add: hasher_inv_def phase_inv_def)
    then obtain w where w: "w < k" "exited (h_workers s ! w) = 0"
      using sum_list_less_length [of exited "h_workers s"] exited_le k by blast
    then have "h_workers s ! w \<noteq> Exited" by auto
    show ?thesis
    proof (cases "h_work s = []")
      case True
      then have lv: "sum_list (map leaving (h_workers s)) = k"
        using assms(1) receiving by (simp add: hasher_inv_def phase_inv_def)
      have "leaving x \<le> 1" for x by (cases x) auto
      have "h_workers s ! w \<noteq> Popping"
      proof
        assume "h_workers s ! w = Popping"
        moreover have "sum_list (map leaving xs) \<le> length xs" for xs
          by (induction xs) (auto intro: order_trans [OF add_mono [OF \<open>\<And>x. leaving x \<le> 1\<close>]])
        ultimately show False
          using sum_list_update_add [of w "h_workers s" leaving Exited] lv w k
          by (metis add.commute add.right_neutral leaving.simps(2,3) length_list_update not_less_eq_eq order_refl plus_1_eq_Suc)
      qed
      then show ?thesis using workers w \<open>h_workers s ! w \<noteq> Exited\<close> by blast
    qed (use workers w \<open>h_workers s ! w \<noteq> Exited\<close> in blast)
  next
    case running
    then show ?thesis by (intro exI [of _ 0]) (simp add: thread_step_def)
  qed
qed

section \<open>Runs under a schedule\<close>

text \<open>Every thread is scheduled again and again.\<close>

definition fair :: "nat \<Rightarrow> (nat \<Rightarrow> nat) \<Rightarrow> bool" where
  "fair num_workers schedule \<longleftrightarrow> (\<forall>t \<le> num_workers. \<forall>n. \<exists>m \<ge> n. schedule m = t)"

text \<open>What a result has to be.\<close>

fun hashed_ok :: "('r, 'w, 'b) hasher_env \<Rightarrow> ('r \<Rightarrow> bytes) \<Rightarrow> nat \<Rightarrow> 'r accesses \<Rightarrow> hashed \<Rightarrow> bool" where
  "hashed_ok E contents n accesses (Ok ps) \<longleftrightarrow>
    (\<forall>a \<in> set accesses. \<exists>x. a = Ok x) \<and> ps = enumerate 0 (piece_hashes (e_sha1 E) contents n [] accesses)"
| "hashed_ok E contents n accesses r \<longleftrightarrow>
    \<not> ((\<forall>a \<in> set accesses. \<exists>x. a = Ok x) \<and>
       ((\<exists>r. Ok (Compute r) \<in> set accesses) \<longrightarrow> (\<forall>r k. \<exists>x. e_read E r k = Ok x)))"

definition run_inv :: "('r, 'w, 'b) hasher_env \<Rightarrow> ('r \<Rightarrow> bytes) \<Rightarrow> nat \<Rightarrow> nat \<Rightarrow> 'r accesses \<Rightarrow> 'r list_hasher \<Rightarrow> bool" where
  "run_inv E contents n k accesses s \<longleftrightarrow>
    (case h_master s of
       Returned r \<Rightarrow> hashed_ok E contents n accesses r
     | _ \<Rightarrow> hasher_inv (e_sha1 E) contents n k accesses s)"

lemma run_inv_running: "\<not> is_returned (h_master s) \<Longrightarrow>
    run_inv E contents n k accesses s \<longleftrightarrow> hasher_inv (e_sha1 E) contents n k accesses s"
  by (cases "h_master s") (auto simp: run_inv_def)

lemma fill_step_fails:
  assumes "lengths_inv n s" and "h_master s = Fill r b rest i" and "h_master (fill_step (list_env E) r b rest i s) = Returned x"
    and "accessed_inv accesses s"
  shows "hashed_ok E contents n accesses x"
proof (cases "pb_write_bytes (e_read E) r b")
  case (Ok y)
  then show ?thesis using assms by (auto simp: fill_step_def Let_def split: prod.splits if_splits)
next
  case (Err e)
  then have "e_read E r (length (pb_buffer b) - bytes_read b) = Err e"
    by (auto simp: pb_write_bytes_def and_then_eq_Err split: if_splits)
  then have "\<not> (\<forall>r k. \<exists>x. e_read E r k = Ok x)" by (metis outcome.distinct(1))
  moreover have "x = Err (PeIo e)" using Err assms(3) by (simp add: fill_step_def)
  moreover have "\<exists>r. Ok (Compute r) \<in> set accesses" using assms(2,4) by (simp add: accessed_inv_def)
  ultimately show ?thesis by (simp only: hashed_ok.simps) blast
next
  case Panic
  have "length (pb_buffer b) = n" "bytes_read b < n" using assms(1,2) by (auto simp: lengths_inv_def)
  then have "e_read E r (length (pb_buffer b) - bytes_read b) = Panic"
    using Panic by (auto simp: pb_write_bytes_def and_then_eq_Panic)
  then have "\<not> (\<forall>r k. \<exists>x. e_read E r k = Ok x)" by (metis outcome.distinct(3))
  moreover have "x = Panic" using Panic assms(3) by (simp add: fill_step_def)
  moreover have "\<exists>r. Ok (Compute r) \<in> set accesses" using assms(2,4) by (simp add: accessed_inv_def)
  ultimately show ?thesis by (simp only: hashed_ok.simps) blast
qed

lemma access_step_fails:
  assumes "accessed_inv accesses s" and "h_master s = Access as i ob" and "h_master (access_step (list_env E) as i ob s) = Returned x"
  shows "hashed_ok E contents n accesses x"
proof -
  have sub: "set as \<subseteq> set accesses" using assms(1,2) by (auto simp: accessed_inv_def)
  show ?thesis
    by (cases "(list_env E, as, i, ob, s)" rule: access_step.cases)
      (use assms(3) sub in \<open>auto split: option.splits if_splits\<close>)
qed

lemma thread_step_run_inv:
  assumes "reader (e_read E) contents" and "0 < n" and "0 < k" and "run_inv E contents n k accesses s"
    and "thread_step (list_env E) t s = Some s'" and "\<not> is_returned (h_master s)"
  shows "run_inv E contents n k accesses s'"
proof (cases "h_master s'")
  case (Returned x)
  have inv: "hasher_inv (e_sha1 E) contents n k accesses s" using assms(4,6) by (simp add: run_inv_running)
  have "master_step (list_env E) s = Some s'"
    using assms(5,6) Returned worker_master by (fastforce simp: thread_step_def split: nat.splits if_splits)
  then have "hashed_ok E contents n accesses x"
  proof (cases rule: master_step_cases)
    case (access as i ob)
    then show ?thesis using access_step_fails [of accesses s as i ob E x] inv Returned by (simp add: hasher_inv_def)
  next
    case (fill r b rest i)
    then show ?thesis using fill_step_fails [of n s r b rest i E x] inv Returned by (simp add: hasher_inv_def)
  next
    case (return j)
    have "k \<le> j" using return inv by (simp add: hasher_inv_def phase_inv_def)
    then show ?thesis using master_result [OF inv return(1) _ assms(3)] return(3) Returned by auto
  qed (use Returned in \<open>auto split: if_splits\<close>)
  then show ?thesis using Returned by (simp add: run_inv_def)
qed (use thread_step_inv [OF assms(1,2) _ assms(5,6)] assms(4,6) in \<open>simp_all add: run_inv_running\<close>)

lemma run_stutter:
  assumes "\<not> is_returned (h_master s)" and "\<forall>i. n \<le> i \<and> i < m \<longrightarrow> thread_step E (schedule i) s = None" and "n \<le> m"
  shows "run_hasher E schedule n s = run_hasher E schedule m s"
  using assms(3,2)
proof (induction m rule: dec_induct)
  case (step m)
  then have "scheduled_step E (schedule m) s = s" by (simp add: scheduled_step_def)
  then have "run_hasher E schedule m s = run_hasher E schedule (Suc m) s"
    using assms(1) by (subst run_hasher.simps) (auto split: master.splits)
  then show ?case using step by simp
qed simp

section \<open>After a failure\<close>

text \<open>No worker has been told to stop, and none will be.\<close>

definition never_told :: "'r list_hasher \<Rightarrow> bool" where
  "never_told s \<longleftrightarrow> Finish \<notin> set (h_work s) \<and> Stopping \<notin> set (h_workers s) \<and> Exited \<notin> set (h_workers s)"

lemma never_told_update:
  assumes "never_told s" and "x \<noteq> Stopping" and "x \<noteq> Exited" and "set (h_work s') \<subseteq> set (h_work s)"
    and "h_workers s' = (h_workers s)[w := x]"
  shows "never_told s'"
  using assms in_set_update [of _ "h_workers s" w x] by (auto simp: never_told_def)

lemma never_told_send:
  "never_told s \<Longrightarrow> x \<noteq> Stopping \<Longrightarrow> x \<noteq> Exited \<Longrightarrow> never_told (send w m x s)"
  by (rule never_told_update [of s "if is_returned (h_master s) then Panicked else x" _ w]) (auto simp: send_def)

lemma never_told_worker:
  assumes "never_told s" and "worker_step (list_env E) w s = Some s'" and "w < length (h_workers s)"
  shows "never_told s'"
proof (cases "h_workers s ! w")
  case Popping
  then obtain m ms where m: "h_work s = m # ms" "s' = pop_step w m (s\<lparr>h_work := ms\<rparr>)"
    using assms(2) by (auto simp: worker_step_def split: list.splits)
  then obtain i b where "m = HashPiece i b" using assms(1) by (cases m) (auto simp: never_told_def)
  then show ?thesis using m by (intro never_told_update [OF assms(1), of "Hashing i b" s' w]) auto
next
  case (Hashing i b)
  then show ?thesis using assms(2) never_told_send [OF assms(1)] by (auto simp: worker_step_def)
next
  case (Checkin b)
  then show ?thesis using assms(2) by (intro never_told_update [OF assms(1), of Popping s' w]) (auto simp: worker_step_def)
next
  case Stopping
  then show ?thesis using assms(1,3) by (metis never_told_def nth_mem)
qed (use assms(2) in \<open>simp_all add: worker_step_def\<close>)

lemma never_told_collecting:
  assumes "phase_inv k s" and "collecting (h_master s)"
  shows "never_told s"
proof -
  have "sum_list (map finishes (h_work s)) = 0" "sum_list (map leaving (h_workers s)) = 0"
    using assms by (cases "h_master s"; simp add: phase_inv_def)+
  then show ?thesis by (force simp: never_told_def sum_list_zero_iff)
qed

lemma failing_step:
  assumes "master_step (list_env E) s = Some s'" and "h_master s' = Returned (Err e)"
  shows "collecting (h_master s) \<and> h_work s' = h_work s \<and> h_workers s' = h_workers s"
  using assms(1)
proof (cases rule: master_step_cases)
  case (access as i ob)
  then show ?thesis using assms(2)
    by (cases "(list_env E, as, i, ob, s)" rule: access_step.cases) (auto split: option.splits if_splits)
next
  case (fill r b rest i)
  then show ?thesis using assms(2)
    by (auto simp: fill_step_def Let_def push_work_def split: outcome.splits if_splits)
qed (use assms(2) in \<open>auto split: if_splits\<close>)

locale hasher_interface = hasher_queues E work_items buffer_items + rd: reader "e_read E" contents
  for E :: "('r, 'w, 'b) hasher_env" and work_items buffer_items contents +
  fixes piece_length :: nat and num_workers :: nat
  assumes piece_length: "0 < piece_length" and num_workers: "0 < num_workers"
begin

lemma steps_run_inv:
  assumes "hasher_steps E (hasher_start E accesses piece_length num_workers) s"
  shows "run_inv E contents piece_length num_workers accesses (view s)"
  using assms
proof (induction rule: hasher_steps.induct)
  case start
  have "\<not> is_returned (h_master (hasher_start (list_env E) accesses piece_length num_workers))"
    by (simp add: hasher_start_def)
  then show ?case using hasher_inv_start by (simp add: run_inv_running view_start)
next
  case (step s' t s'')
  have st: "thread_step (list_env E) t (view s') = Some (view s'')" using step view_thread_step by simp
  show ?case
  proof (cases "is_returned (h_master s')")
    case True
    then have "h_master s'' = h_master s'"
      using step(2)
      by (cases "h_master s'") (auto simp: thread_step_def master_step_def dest: worker_master split: nat.splits if_splits)
    then show ?thesis using step True by (cases "h_master s'") (auto simp: run_inv_def h_master_view)
  next
    case False
    then show ?thesis
      using thread_step_run_inv [OF rd.reader_axioms piece_length num_workers step(3) st] by (simp add: h_master_view)
  qed
qed

lemma steps_failed_never_told:
  assumes "hasher_steps E (hasher_start E accesses piece_length num_workers) s"
  shows "h_master s = Returned (Err e) \<longrightarrow> never_told (view s)"
  using assms
proof (induction rule: hasher_steps.induct)
  case start
  then show ?case by (simp add: hasher_start_def)
next
  case (step s' t s'')
  have st: "thread_step (list_env E) t (view s') = Some (view s'')" using step view_thread_step by simp
  show ?case
  proof (cases t)
    case 0
    then have "master_step (list_env E) (view s') = Some (view s'')" using st by (simp add: thread_step_def)
    note f = failing_step [OF this, of e]
    show ?thesis
    proof
      assume "h_master s'' = Returned (Err e)"
      then have f: "collecting (h_master (view s'))" "h_work (view s'') = h_work (view s')" "h_workers (view s'') = h_workers (view s')"
        using f by (simp_all add: h_master_view)
      have "\<not> is_returned (h_master (view s'))" using f(1) by (cases "h_master (view s')") auto
      then have "phase_inv num_workers (view s')"
        using steps_run_inv [OF step(1)] by (simp add: run_inv_running hasher_inv_def)
      then show "never_told (view s'')" using never_told_collecting f by (fastforce simp: never_told_def)
    qed
  next
    case (Suc w)
    then have w: "worker_step (list_env E) w (view s') = Some (view s'')" "w < length (h_workers (view s'))"
      using st by (auto simp: thread_step_def split: if_splits)
    then have "h_master s'' = h_master s'" using worker_master [OF w(1)] by (simp add: h_master_view)
    then show ?thesis using step.IH never_told_worker [OF _ w] by simp
  qed
qed

lemma fair_run_returns:
  assumes "fair num_workers schedule" and "run_inv E contents piece_length num_workers accesses (view s)"
  shows "\<exists>r. run_hasher E schedule n s = Some r \<and> hashed_ok E contents piece_length accesses r"
  using assms(2)
proof (induction "hasher_weight contents (view s)" arbitrary: s n rule: less_induct)
  case less
  show ?case
  proof (cases "is_returned (h_master s)")
    case True
    then obtain r where "h_master s = Returned r" by (cases "h_master s") auto
    then show ?thesis using less.prems by (subst run_hasher.simps) (simp add: run_inv_def h_master_view)
  next
    case False
    then have inv: "hasher_inv (e_sha1 E) contents piece_length num_workers accesses (view s)"
      using less.prems by (simp add: run_inv_running h_master_view)
    obtain t where t: "t \<le> num_workers" "thread_step E t s \<noteq> None"
      using some_thread_steps [OF inv num_workers, of E] False view_thread_step by (auto simp: h_master_view)
    obtain m0 where "n \<le> m0" "schedule m0 = t" using assms(1) t(1) by (auto simp: fair_def)
    then have ex: "\<exists>m. n \<le> m \<and> thread_step E (schedule m) s \<noteq> None" using t(2) by blast
    define m where "m = (LEAST m. n \<le> m \<and> thread_step E (schedule m) s \<noteq> None)"
    have m: "n \<le> m" "thread_step E (schedule m) s \<noteq> None" using LeastI_ex [OF ex] by (auto simp: m_def)
    have before: "\<forall>i. n \<le> i \<and> i < m \<longrightarrow> thread_step E (schedule i) s = None"
      using not_less_Least unfolding m_def by blast
    obtain s' where s': "thread_step E (schedule m) s = Some s'" using m(2) by blast
    then have v: "thread_step (list_env E) (schedule m) (view s) = Some (view s')" by (simp add: view_thread_step)
    have nr: "\<not> is_returned (h_master (view s))" using False by (simp add: h_master_view)
    have "hasher_weight contents (view s') < hasher_weight contents (view s)"
      using thread_weight_decreases [OF rd.reader_axioms piece_length _ nr v] inv by (simp add: hasher_inv_def)
    moreover have "run_inv E contents piece_length num_workers accesses (view s')"
      using thread_step_run_inv [OF rd.reader_axioms piece_length num_workers less.prems v nr] .
    ultimately obtain r where r: "run_hasher E schedule (m + 1) s' = Some r" "hashed_ok E contents piece_length accesses r"
      using less.hyps by blast
    have "run_hasher E schedule n s = run_hasher E schedule m s" by (rule run_stutter [OF False before m(1)])
    also have "\<dots> = run_hasher E schedule (m + 1) s'"
      using False s' by (subst run_hasher.simps) (auto simp: scheduled_step_def split: master.splits)
    finally show ?thesis using r by simp
  qed
qed

lemma start_hasher_workers_fair:
  assumes "fair num_workers schedule"
  shows "\<exists>r. start_hasher_workers E schedule accesses piece_length num_workers = Some r \<and>
    hashed_ok E contents piece_length accesses r"
  unfolding start_hasher_workers_def
  by (rule fair_run_returns [OF assms steps_run_inv [OF hasher_steps.start]])

end

interpretation direct_hasher: hasher_interface
  "\<lparr>e_work = list_queue, e_buffers = list_queue, e_read = cursor_read, e_sha1 = sha1\<rparr>" "\<lambda>q. q" "\<lambda>q. q" "\<lambda>r. r" "Suc n" "Suc k"
  for sha1 :: "bytes \<Rightarrow> sha_hash" and n k :: nat
  by unfold_locales (auto simp: cursor_read_def)

end
