(* ===== verification/Metainfo_Builder_Correct.thy ===== *)
theory Metainfo_Builder_Correct
  imports Metainfo_Builder Metainfo_Hasher_Run
begin

text \<open>
  Correctness of the builder: rounding, the piece length, and what the parser reads back from a torrent file that
  was written from an info dictionary.
\<close>

section \<open>Rounding\<close>

lemma int_log2_nonneg: "0 \<le> int_log2 n"
  by (induction n rule: int_log2.induct) (subst int_log2.simps, simp)

lemma int_log2_bounds: "0 < n \<Longrightarrow> 2 ^ nat (int_log2 n) \<le> n \<and> n < 2 ^ Suc (nat (int_log2 n))"
proof (induction n rule: int_log2.induct)
  case (1 n)
  show ?case
  proof (cases "n \<le> 1")
    case True
    then have "n = 1" using 1(2) by simp
    then show ?thesis by (simp add: int_log2.simps [of 1])
  next
    case False
    then have "2 ^ nat (int_log2 (n div 2)) \<le> n div 2 \<and> n div 2 < 2 ^ Suc (nat (int_log2 (n div 2)))"
      using 1(1) by simp
    then have b: "2 * 2 ^ nat (int_log2 (n div 2)) \<le> n" "n < 2 * 2 ^ Suc (nat (int_log2 (n div 2)))" by linarith+
    have "nat (int_log2 n) = Suc (nat (int_log2 (n div 2)))"
      using False int_log2_nonneg [of "n div 2"] by (simp add: int_log2.simps [of n])
    then show ?thesis using b by simp
  qed
qed

lemma f64_exponent_le:
  assumes "0 < x"
  shows "2 powi (f64_exponent x) \<le> x"
proof -
  obtain a b where ab: "quotient_of x = (a, b)" by (cases "quotient_of x")
  have b: "0 < b" using quotient_of_denom_pos [OF ab] .
  have x: "x = of_int a / of_int b" using quotient_of_div [OF ab] .
  have a: "0 < a" using assms b x by (simp add: zero_less_divide_iff)
  define la lb where "la = nat (int_log2 a)" and "lb = nat (int_log2 b)"
  have "2 ^ la \<le> a" "b \<le> 2 ^ Suc lb"
    using int_log2_bounds [of a] int_log2_bounds [of b] a b by (simp_all add: la_def lb_def)
  then have la: "(2 :: rat) ^ la \<le> of_int a" and lb: "of_int b \<le> (2 :: rat) ^ Suc lb"
    by (metis of_int_le_iff of_int_numeral of_int_power)+
  have "2 powi (int la - int lb - 1) = (2 :: rat) ^ la / 2 ^ Suc lb"
    by (simp add: power_int_diff)
  also have "\<dots> \<le> of_int a / of_int b"
    using la lb a b by (intro frac_le) auto
  finally have "2 powi (int la - int lb - 1) \<le> x" using x by simp
  then show ?thesis
    using int_log2_nonneg by (simp add: f64_exponent_def ab Let_def la_def lb_def)
qed

lemma f64_exponent_less:
  assumes "0 < x"
  shows "x < 2 powi (f64_exponent x + 1)"
proof -
  obtain a b where ab: "quotient_of x = (a, b)" by (cases "quotient_of x")
  have b: "0 < b" using quotient_of_denom_pos [OF ab] .
  have x: "x = of_int a / of_int b" using quotient_of_div [OF ab] .
  have a: "0 < a" using assms b x by (simp add: zero_less_divide_iff)
  define la lb where "la = nat (int_log2 a)" and "lb = nat (int_log2 b)"
  have "a < 2 ^ Suc la" "2 ^ lb \<le> b"
    using int_log2_bounds [of a] int_log2_bounds [of b] a b by (simp_all add: la_def lb_def)
  then have la: "of_int a < (2 :: rat) ^ Suc la" and lb: "(2 :: rat) ^ lb \<le> of_int b"
    by (metis of_int_less_iff of_int_numeral of_int_power, metis of_int_le_iff of_int_numeral of_int_power)
  have "of_int a / of_int b < (2 :: rat) ^ Suc la / 2 ^ lb"
    using la lb a b by (intro frac_less) auto
  also have "\<dots> = 2 powi (int la - int lb + 1)" by (simp add: power_int_diff power_int_add)
  finally have "x < 2 powi (int la - int lb + 1)" using x by simp
  then show ?thesis
    using int_log2_nonneg by (auto simp: f64_exponent_def ab Let_def la_def lb_def not_le)
qed

lemma round_half_even_ge: "of_int n \<le> y \<Longrightarrow> n \<le> round_half_even y"
  using le_floor_iff [of n y] by (auto simp: round_half_even_def Let_def)

lemma f64_round_ge_one:
  assumes "1 \<le> x"
  shows "1 \<le> f64_round x"
proof -
  define e where "e = f64_exponent x"
  have "(2 :: rat) powi 0 < 2 powi (e + 1)" using f64_exponent_less [of x] assms by (simp add: e_def)
  then have "0 \<le> e" by (metis add.commute linorder_not_less power_int_increasing one_le_numeral zless_add1_eq
      int_one_le_iff_zero_less less_le_not_le linorder_le_cases zle_add1_eq_le)
  have two: "(2 :: rat) ^ 52 * 2 powi (e - 52) = 2 powi e"
    by (simp add: power_int_diff)
  then have "2 ^ 52 \<le> x / 2 powi (e - 52)"
    using f64_exponent_le [of x] assms by (subst le_divide_eq) (simp add: e_def)
  then have "of_int (2 ^ 52) \<le> x / 2 powi (e - 52)" by simp
  then have "2 ^ 52 \<le> round_half_even (x / 2 powi (e - 52))" by (rule round_half_even_ge)
  then have "(2 :: rat) ^ 52 \<le> of_int (round_half_even (x / 2 powi (e - 52)))"
    by (metis of_int_le_iff of_int_numeral of_int_power)
  then have "(2 :: rat) ^ 52 * 2 powi (e - 52) \<le> of_int (round_half_even (x / 2 powi (e - 52))) * 2 powi (e - 52)"
    by (intro mult_right_mono) auto
  moreover note two
  moreover have "1 \<le> (2 :: rat) powi e" using \<open>0 \<le> e\<close> by (simp add: one_le_power_int)
  ultimately have "1 \<le> of_int (round_half_even (x / 2 powi (e - 52))) * (2 :: rat) powi (e - 52)" by linarith
  then show ?thesis using assms by (simp add: f64_round_def Let_def e_def)
qed

lemma round_half_even_le: "y \<le> of_int n \<Longrightarrow> round_half_even y \<le> n"
proof -
  assume "y \<le> of_int n"
  then have "floor y \<le> n" by (simp add: floor_le_iff)
  moreover have "floor y = n \<Longrightarrow> y = of_int n" using \<open>y \<le> of_int n\<close> by (metis antisym of_int_floor_le)
  ultimately show ?thesis by (cases "floor y = n") (auto simp: round_half_even_def Let_def)
qed

lemma round_half_even_nonneg: "0 \<le> y \<Longrightarrow> 0 \<le> round_half_even y"
  by (auto simp: round_half_even_def Let_def)

lemma f64_round_nonneg: "0 \<le> f64_round x"
  by (auto simp: f64_round_def Let_def intro!: mult_nonneg_nonneg round_half_even_nonneg)

lemma f64_round_le_power:
  assumes "x \<le> 2 ^ k"
  shows "f64_round x \<le> 2 ^ k"
proof (cases "x \<le> 0")
  case False
  define e where "e = f64_exponent x - 52"
  have "2 powi (f64_exponent x) \<le> (2 :: rat) powi int k"
    using f64_exponent_le [of x] False assms by (simp add: power_int_of_nat) 
  then have "f64_exponent x \<le> int k"
    by (metis power_int_strict_increasing linorder_not_less one_less_numeral_iff semiring_norm(76))
  then obtain j where j: "int k - e = int j" using zero_le_imp_eq_int [of "int k - e"] by (auto simp: e_def)
  have split: "(2 :: rat) ^ k = 2 ^ j * 2 powi e"
    using j by (metis diff_add_cancel power_int_add power_int_of_nat zero_neq_numeral)
  have "x / 2 powi e \<le> of_int (2 ^ j)"
    using assms split by (simp add: divide_le_eq)
  then have "round_half_even (x / 2 powi e) \<le> 2 ^ j" by (rule round_half_even_le)
  then have "of_int (round_half_even (x / 2 powi e)) \<le> (2 :: rat) ^ j"
    by (metis of_int_le_iff of_int_numeral of_int_power)
  then have "of_int (round_half_even (x / 2 powi e)) * 2 powi e \<le> (2 :: rat) ^ j * 2 powi e"
    by (intro mult_right_mono) auto
  then show ?thesis using False split by (simp add: f64_round_def Let_def e_def)
qed (simp add: f64_round_def)

lemma f64_round_i64_max: "f64_round (2 ^ 63 - 1) = 2 ^ 63"
  by code_simp

lemma in_i64_range_I: "0 \<le> x \<Longrightarrow> x \<le> 2 ^ 63 \<Longrightarrow> in_i64_range x"
  unfolding in_i64_range_def f64_round_i64_max by simp

section \<open>The piece length\<close>

lemma next_power_of_two_ge: "n \<le> next_power_of_two n"
proof (induction n rule: next_power_of_two.induct)
  case (1 n)
  show ?case
  proof (cases "n \<le> 1")
    case True
    then show ?thesis by (subst next_power_of_two.simps) simp
  next
    case False
    then have "n \<le> 2 * next_power_of_two ((n + 1) div 2)" using 1 by linarith
    then show ?thesis using False by (subst next_power_of_two.simps) simp
  qed
qed

lemma next_power_of_two_power: "\<exists>k. next_power_of_two n = 2 ^ k"
proof (induction n rule: next_power_of_two.induct)
  case (1 n)
  show ?case
  proof (cases "n \<le> 1")
    case True
    then show ?thesis by (subst next_power_of_two.simps) (auto intro: exI [of _ 0])
  next
    case False
    then obtain k where "next_power_of_two ((n + 1) div 2) = 2 ^ k" using 1 by blast
    then show ?thesis using False by (subst next_power_of_two.simps) (auto intro: exI [of _ "Suc k"])
  qed
qed

lemma next_power_of_two_id: "next_power_of_two (2 ^ k) = 2 ^ k"
proof (induction k)
  case (Suc k)
  have "(2 ^ Suc k + 1) div 2 = (2 ^ k :: nat)" by simp
  moreover have "\<not> (2 :: nat) ^ Suc k \<le> 1" using one_less_power [of "2 :: nat" "Suc k"] by simp
  ultimately show ?case using Suc by (subst next_power_of_two.simps) simp
qed (simp add: next_power_of_two.simps)

lemma num_pieces_exact:
  "f64_div 40000 20 = 2000" "f64_div 20000 20 = 1000" "f64_div 60000 20 = 3000"
  by code_simp+

lemma u64_f64_bound: "0 \<le> f64_round (of_int (uint (t :: u64)))" "f64_round (of_int (uint (t :: u64))) \<le> 2 ^ 64"
proof -
  have "uint t < 2 ^ 64" using uint_lt2p [of t] by simp
  then have "of_int (uint t) \<le> (2 :: rat) ^ 64"
    by (metis less_imp_le of_int_le_iff of_int_numeral of_int_power)
  then show "f64_round (of_int (uint t)) \<le> 2 ^ 64" by (rule f64_round_le_power)
qed (rule f64_round_nonneg)

lemma piece_length_in_range:
  assumes "1000 \<le> d"
  shows "in_i64_range (f64_add (f64_div (f64_round (of_int (uint (t :: u64)))) d) (1 / 2))"
proof (rule in_i64_range_I)
  have "f64_round (of_int (uint t)) / d \<le> 2 ^ 64 / 1000"
    using assms u64_f64_bound [of t] by (intro frac_le) auto
  also have "\<dots> \<le> 2 ^ 55" by simp
  finally have "f64_div (f64_round (of_int (uint t))) d \<le> 2 ^ 55"
    unfolding f64_div_def by (rule f64_round_le_power)
  also have "2 ^ 55 + 1 / 2 \<le> (2 :: rat) ^ 63" by simp
  ultimately have "f64_div (f64_round (of_int (uint t))) d + 1 / 2 \<le> 2 ^ 63" by linarith
  then show "f64_add (f64_div (f64_round (of_int (uint t))) d) (1 / 2) \<le> 2 ^ 63"
    unfolding f64_add_def by (rule f64_round_le_power)
qed (simp add: f64_add_def f64_round_nonneg)

lemma calculate_piece_length_power:
  assumes "1000 \<le> f64_div (of_nat max_size) (of_nat SHA_HASH_LEN)" and "min_length = 2 ^ j" and "min_length \<le> ALL_OPT_MAX_PIECE_LENGTH"
  shows "\<exists>k. calculate_piece_length t max_size min_length = Ok (2 ^ k) \<and> min_length \<le> 2 ^ k \<and> 2 ^ k \<le> ALL_OPT_MAX_PIECE_LENGTH"
proof -
  let ?p = "f64_add (f64_div (f64_round (of_int (uint t))) (f64_div (of_nat max_size) (of_nat SHA_HASH_LEN))) (1 / 2)"
  have r: "in_i64_range ?p" by (rule piece_length_in_range [OF assms(1)])
  obtain k where k: "next_power_of_two (nat (floor ?p)) = 2 ^ k" using next_power_of_two_power by blast
  have m: "ALL_OPT_MAX_PIECE_LENGTH = 2 ^ 24" by (simp add: ALL_OPT_MAX_PIECE_LENGTH_def)
  consider "min_length < 2 ^ k \<and> (2 :: nat) ^ k < ALL_OPT_MAX_PIECE_LENGTH" | "\<not> min_length < (2 :: nat) ^ k"
    | "min_length < (2 :: nat) ^ k \<and> \<not> (2 :: nat) ^ k < ALL_OPT_MAX_PIECE_LENGTH" by blast
  then show ?thesis
  proof cases
    case 1
    then show ?thesis using r k by (intro exI [of _ k]) (simp add: calculate_piece_length_def Let_def)
  next
    case 2
    then show ?thesis using r k assms(2,3) by (intro exI [of _ j]) (simp add: calculate_piece_length_def Let_def)
  next
    case 3
    then show ?thesis using r k m assms(3) by (intro exI [of _ 24]) (simp add: calculate_piece_length_def Let_def)
  qed
qed

fun min_piece_length :: "piece_length \<Rightarrow> nat" where
  "min_piece_length OptBalanced = BALANCED_MIN_PIECE_LENGTH"
| "min_piece_length OptFileSize = FILE_SIZE_MIN_PIECE_LENGTH"
| "min_piece_length OptTransfer = TRANSFER_MIN_PIECE_LENGTH"
| "min_piece_length (Custom n) = n"

lemmas piece_length_consts = ALL_OPT_MAX_PIECE_LENGTH_def BALANCED_MAX_PIECES_SIZE_def BALANCED_MIN_PIECE_LENGTH_def
  FILE_SIZE_MAX_PIECES_SIZE_def FILE_SIZE_MIN_PIECE_LENGTH_def TRANSFER_MAX_PIECES_SIZE_def TRANSFER_MIN_PIECE_LENGTH_def

lemma determine_piece_length_power:
  assumes "\<forall>n. p \<noteq> Custom n"
  shows "\<exists>k. determine_piece_length t p = Ok (2 ^ k) \<and> min_piece_length p \<le> 2 ^ k \<and> 2 ^ k \<le> ALL_OPT_MAX_PIECE_LENGTH"
proof (cases p)
  case OptBalanced
  then show ?thesis
    using calculate_piece_length_power [of BALANCED_MAX_PIECES_SIZE BALANCED_MIN_PIECE_LENGTH 19 t]
    by (simp add: piece_length_consts SHA_HASH_LEN_def num_pieces_exact)
next
  case OptFileSize
  then show ?thesis
    using calculate_piece_length_power [of FILE_SIZE_MAX_PIECES_SIZE FILE_SIZE_MIN_PIECE_LENGTH 20 t]
    by (simp add: piece_length_consts SHA_HASH_LEN_def num_pieces_exact)
next
  case OptTransfer
  then show ?thesis
    using calculate_piece_length_power [of TRANSFER_MAX_PIECES_SIZE TRANSFER_MIN_PIECE_LENGTH 10 t]
    by (simp add: piece_length_consts SHA_HASH_LEN_def num_pieces_exact)
qed (use assms in simp)

text \<open>
  The quotient is rounded to the nearest length and not up: a little more than 2000 times a power of two gives 2001
  pieces, whose hashes take 20 bytes more than the bound.
\<close>

lemma balanced_exceeds_max:
  "determine_piece_length 2097152001 OptBalanced = Ok 1048576" "(2097152001 + 1048576 - 1) div 1048576 * SHA_HASH_LEN = BALANCED_MAX_PIECES_SIZE + 20"
proof -
  have r: "f64_round 2097152001 = 2097152001" by code_simp
  have "floor (f64_add (f64_div 2097152001 2000) (1 / 2)) = 1048576" by code_simp
  then have f: "nat (floor (f64_add (f64_div 2097152001 2000) (1 / 2))) = 2 ^ 20" by simp
  have i: "in_i64_range (f64_add (f64_div 2097152001 2000) (1 / 2))"
    using piece_length_in_range [of 2000 2097152001] r by simp
  show "determine_piece_length 2097152001 OptBalanced = Ok 1048576"
    using i f r next_power_of_two_id [of 20]
    by (simp add: calculate_piece_length_def Let_def piece_length_consts SHA_HASH_LEN_def num_pieces_exact)
qed (simp add: SHA_HASH_LEN_def BALANCED_MAX_PIECES_SIZE_def)

declare btm_insert.simps [simp del]

section \<open>Writing an info dictionary\<close>

text \<open>What an info dictionary needs to be written and read back.\<close>

definition wf_path :: "bytes \<Rightarrow> bool" where
  "wf_path p \<longleftrightarrow> (\<forall>c \<in> set (path_iter p). from_utf8 c \<and> int (length c) \<le> i64_max)"

definition wf_info :: "info \<Rightarrow> bool" where
  "wf_info i \<longleftrightarrow>
    uint (piece_len i) \<le> i64_max \<and> (\<forall>p \<in> set (info_pieces i). sha_wf p) \<and>
    int (length (concat (info_pieces i))) \<le> i64_max \<and>
    int (sum_list (map (unat \<circ> file_len) (info_files i))) \<le> i64_max \<and>
    (case file_directory i of
       Some d \<Rightarrow> from_utf8 d \<and> int (length d) \<le> i64_max \<and> (\<forall>f \<in> set (info_files i). wf_path (file_path f))
     | None \<Rightarrow> (\<exists>f. info_files i = [f] \<and> from_utf8 (concat (path_iter (file_path f))) \<and>
         int (length (concat (path_iter (file_path f)))) \<le> i64_max))"

text \<open>
  What is written of it. The path of a file is written by its components: in a torrent with a directory as a list of
  them, in one without as one name with nothing between them.
\<close>

definition written_path :: "bytes option \<Rightarrow> bytes \<Rightarrow> bytes" where
  "written_path directory p =
    (case directory of Some _ \<Rightarrow> foldl path_push [] (path_iter p) | None \<Rightarrow> concat (path_iter p))"

definition written_file :: "bytes option \<Rightarrow> torrent_file \<Rightarrow> torrent_file" where
  "written_file directory f = \<lparr>file_len = file_len f, file_path = written_path directory (file_path f), file_md5sum = None\<rparr>"

definition written_info :: "(bytes \<Rightarrow> sha_hash) \<Rightarrow> bytes \<Rightarrow> info \<Rightarrow> info" where
  "written_info sha1 bs i =
    \<lparr>info_info_hash = from_bytes sha1 bs, info_files = map (written_file (file_directory i)) (info_files i),
     info_pieces = info_pieces i, piece_len = piece_len i, is_private = None, file_directory = file_directory i\<rparr>"

lemma info_keys_distinct:
  "distinct [PIECE_LENGTH_KEY, PIECES_KEY, PRIVATE_KEY, NAME_KEY, FILES_KEY, LENGTH_KEY, MD5SUM_KEY, PATH_KEY]"
  by code_simp

lemma root_keys_distinct:
  "distinct [ANNOUNCE_LIST_KEY, ANNOUNCE_URL_KEY, CREATION_DATE_KEY, COMMENT_KEY, CREATED_BY_KEY, ENCODING_KEY, INFO_KEY]"
  by code_simp

lemma info_keys_neq:
  "PIECE_LENGTH_KEY \<noteq> PIECES_KEY" "PIECE_LENGTH_KEY \<noteq> PRIVATE_KEY" "PIECE_LENGTH_KEY \<noteq> NAME_KEY" "PIECE_LENGTH_KEY \<noteq> FILES_KEY" "PIECE_LENGTH_KEY \<noteq> LENGTH_KEY" "PIECE_LENGTH_KEY \<noteq> MD5SUM_KEY" "PIECE_LENGTH_KEY \<noteq> PATH_KEY"
  "PIECES_KEY \<noteq> PIECE_LENGTH_KEY" "PIECES_KEY \<noteq> PRIVATE_KEY" "PIECES_KEY \<noteq> NAME_KEY" "PIECES_KEY \<noteq> FILES_KEY" "PIECES_KEY \<noteq> LENGTH_KEY" "PIECES_KEY \<noteq> MD5SUM_KEY" "PIECES_KEY \<noteq> PATH_KEY"
  "PRIVATE_KEY \<noteq> PIECE_LENGTH_KEY" "PRIVATE_KEY \<noteq> PIECES_KEY" "PRIVATE_KEY \<noteq> NAME_KEY" "PRIVATE_KEY \<noteq> FILES_KEY" "PRIVATE_KEY \<noteq> LENGTH_KEY" "PRIVATE_KEY \<noteq> MD5SUM_KEY" "PRIVATE_KEY \<noteq> PATH_KEY"
  "NAME_KEY \<noteq> PIECE_LENGTH_KEY" "NAME_KEY \<noteq> PIECES_KEY" "NAME_KEY \<noteq> PRIVATE_KEY" "NAME_KEY \<noteq> FILES_KEY" "NAME_KEY \<noteq> LENGTH_KEY" "NAME_KEY \<noteq> MD5SUM_KEY" "NAME_KEY \<noteq> PATH_KEY"
  "FILES_KEY \<noteq> PIECE_LENGTH_KEY" "FILES_KEY \<noteq> PIECES_KEY" "FILES_KEY \<noteq> PRIVATE_KEY" "FILES_KEY \<noteq> NAME_KEY" "FILES_KEY \<noteq> LENGTH_KEY" "FILES_KEY \<noteq> MD5SUM_KEY" "FILES_KEY \<noteq> PATH_KEY"
  "LENGTH_KEY \<noteq> PIECE_LENGTH_KEY" "LENGTH_KEY \<noteq> PIECES_KEY" "LENGTH_KEY \<noteq> PRIVATE_KEY" "LENGTH_KEY \<noteq> NAME_KEY" "LENGTH_KEY \<noteq> FILES_KEY" "LENGTH_KEY \<noteq> MD5SUM_KEY" "LENGTH_KEY \<noteq> PATH_KEY"
  "MD5SUM_KEY \<noteq> PIECE_LENGTH_KEY" "MD5SUM_KEY \<noteq> PIECES_KEY" "MD5SUM_KEY \<noteq> PRIVATE_KEY" "MD5SUM_KEY \<noteq> NAME_KEY" "MD5SUM_KEY \<noteq> FILES_KEY" "MD5SUM_KEY \<noteq> LENGTH_KEY" "MD5SUM_KEY \<noteq> PATH_KEY"
  "PATH_KEY \<noteq> PIECE_LENGTH_KEY" "PATH_KEY \<noteq> PIECES_KEY" "PATH_KEY \<noteq> PRIVATE_KEY" "PATH_KEY \<noteq> NAME_KEY" "PATH_KEY \<noteq> FILES_KEY" "PATH_KEY \<noteq> LENGTH_KEY" "PATH_KEY \<noteq> MD5SUM_KEY"
  using info_keys_distinct by auto

lemma root_keys_neq:
  "ANNOUNCE_LIST_KEY \<noteq> ANNOUNCE_URL_KEY" "ANNOUNCE_LIST_KEY \<noteq> CREATION_DATE_KEY" "ANNOUNCE_LIST_KEY \<noteq> COMMENT_KEY" "ANNOUNCE_LIST_KEY \<noteq> CREATED_BY_KEY" "ANNOUNCE_LIST_KEY \<noteq> ENCODING_KEY" "ANNOUNCE_LIST_KEY \<noteq> INFO_KEY"
  "ANNOUNCE_URL_KEY \<noteq> ANNOUNCE_LIST_KEY" "ANNOUNCE_URL_KEY \<noteq> CREATION_DATE_KEY" "ANNOUNCE_URL_KEY \<noteq> COMMENT_KEY" "ANNOUNCE_URL_KEY \<noteq> CREATED_BY_KEY" "ANNOUNCE_URL_KEY \<noteq> ENCODING_KEY" "ANNOUNCE_URL_KEY \<noteq> INFO_KEY"
  "CREATION_DATE_KEY \<noteq> ANNOUNCE_LIST_KEY" "CREATION_DATE_KEY \<noteq> ANNOUNCE_URL_KEY" "CREATION_DATE_KEY \<noteq> COMMENT_KEY" "CREATION_DATE_KEY \<noteq> CREATED_BY_KEY" "CREATION_DATE_KEY \<noteq> ENCODING_KEY" "CREATION_DATE_KEY \<noteq> INFO_KEY"
  "COMMENT_KEY \<noteq> ANNOUNCE_LIST_KEY" "COMMENT_KEY \<noteq> ANNOUNCE_URL_KEY" "COMMENT_KEY \<noteq> CREATION_DATE_KEY" "COMMENT_KEY \<noteq> CREATED_BY_KEY" "COMMENT_KEY \<noteq> ENCODING_KEY" "COMMENT_KEY \<noteq> INFO_KEY"
  "CREATED_BY_KEY \<noteq> ANNOUNCE_LIST_KEY" "CREATED_BY_KEY \<noteq> ANNOUNCE_URL_KEY" "CREATED_BY_KEY \<noteq> CREATION_DATE_KEY" "CREATED_BY_KEY \<noteq> COMMENT_KEY" "CREATED_BY_KEY \<noteq> ENCODING_KEY" "CREATED_BY_KEY \<noteq> INFO_KEY"
  "ENCODING_KEY \<noteq> ANNOUNCE_LIST_KEY" "ENCODING_KEY \<noteq> ANNOUNCE_URL_KEY" "ENCODING_KEY \<noteq> CREATION_DATE_KEY" "ENCODING_KEY \<noteq> COMMENT_KEY" "ENCODING_KEY \<noteq> CREATED_BY_KEY" "ENCODING_KEY \<noteq> INFO_KEY"
  "INFO_KEY \<noteq> ANNOUNCE_LIST_KEY" "INFO_KEY \<noteq> ANNOUNCE_URL_KEY" "INFO_KEY \<noteq> CREATION_DATE_KEY" "INFO_KEY \<noteq> COMMENT_KEY" "INFO_KEY \<noteq> CREATED_BY_KEY" "INFO_KEY \<noteq> ENCODING_KEY"
  using root_keys_distinct by auto

lemma key_lengths:
  "\<forall>k \<in> {PIECE_LENGTH_KEY, PIECES_KEY, PRIVATE_KEY, NAME_KEY, FILES_KEY, LENGTH_KEY, MD5SUM_KEY, PATH_KEY,
     ANNOUNCE_URL_KEY, CREATION_DATE_KEY, COMMENT_KEY, CREATED_BY_KEY, INFO_KEY}. int (length k) \<le> i64_max"
  by (simp add: metainfo_keys ascii_def i64_max_def)

lemma private_entry_empty: "private_entry p [] = []"
  by (auto simp: private_entry_def btm_insert_entry_def btm_remove_entry_def btm_remove_def btm_get_def btm_insert.simps
      split: option.splits)

lemma i64_of_usize_len: "uint (w :: u64) \<le> i64_max \<Longrightarrow> i64_of_usize (unat w) = Ok w"
  by (simp add: i64_of_usize_def)

lemma sint_eq_uint: "uint (w :: u64) \<le> i64_max \<Longrightarrow> sint w = uint w"
proof -
  assume "uint w \<le> i64_max"
  then have "uint w < 2 ^ 63" by (simp add: i64_max_def)
  moreover have "- (2 ^ 63) \<le> uint w" by (rule order_trans [of _ 0]) simp_all
  ultimately show ?thesis unfolding sint_uint by (intro signed_take_bit_int_eq_self) simp_all
qed

lemma i64_to_u64_len: "uint (w :: u64) \<le> i64_max \<Longrightarrow> i64_to_u64 w = Ok w"
  by (simp add: i64_to_u64_def sint_eq_uint)

lemma ben_list_eq: "ben_list xs = MutList xs"
proof -
  have "fold (\<lambda>x l. l @ [x]) xs acc = acc @ xs" for acc by (induction xs arbitrary: acc) auto
  then show ?thesis by (simp add: ben_list_def)
qed

definition file_entry :: "torrent_file \<Rightarrow> bencode_mut" where
  "file_entry f = ben_map [(LENGTH_KEY, MutInt (file_len f)), (PATH_KEY, MutList (map MutBytes (path_iter (file_path f))))]"

abbreviation files_info :: "info \<Rightarrow> (u64 \<times> bytes list) list" where
  "files_info i \<equiv> map (\<lambda>f. (file_len f, path_iter (file_path f))) (info_files i)"

lemma bencode_files_entries:
  "\<forall>f \<in> set fs. uint (file_len f) \<le> i64_max \<Longrightarrow>
   bencode_files (map (\<lambda>f. (file_len f, path_iter (file_path f))) fs) = Ok (map file_entry fs)"
  by (induction fs) (auto simp: i64_of_usize_len file_entry_def ben_list_eq)

lemma push_paths_annotated:
  "\<forall>c \<in> set cs. from_utf8 c \<Longrightarrow> push_paths (map annotate (map MutBytes cs)) p = Ok (foldl path_push p cs)"
  by (induction cs arbitrary: p) (auto simp: parse_path_str_def convert_basics ref_str_def)

lemma as_multi_file_entry:
  assumes "uint (file_len f) \<le> i64_max" and "wf_path (file_path f)"
  shows "and_then (parse_file_dict (annotate (file_entry f))) as_multi_file = Ok (written_file (Some d) f)"
proof -
  let ?kvs = "[(LENGTH_KEY, MutInt (file_len f)), (PATH_KEY, MutList (map MutBytes (path_iter (file_path f))))]"
  have "parse_file_dict (annotate (file_entry f)) = Ok (annotate_dict (ben_entries ?kvs))"
    by (simp add: parse_file_dict_def file_entry_def convert_built)
  moreover have "as_multi_file (annotate_dict (ben_entries ?kvs)) = Ok (written_file (Some d) f)"
    using assms info_keys_distinct push_paths_annotated [of "path_iter (file_path f)" "[]"]
    by (simp add: as_multi_file_def parse_length_def parse_md5sum_def parse_path_list_def lookup_built get_ben_entries
        i64_to_u64_len wf_path_def written_file_def written_path_def)
  ultimately show ?thesis by simp
qed

lemma parse_files_entries:
  assumes "\<forall>f \<in> set fs. uint (file_len f) \<le> i64_max \<and> wf_path (file_path f)"
  shows "parse_files (map annotate (map file_entry fs)) = Ok (map (written_file (Some dir)) fs)"
  using assms
proof (induction fs)
  case (Cons f fs)
  obtain d where "parse_file_dict (annotate (file_entry f)) = Ok d" "as_multi_file d = Ok (written_file (Some dir) f)"
    using as_multi_file_entry [of f dir] Cons.prems by (auto simp: and_then_eq_Ok)
  then show ?case using Cons by simp
qed simp

lemma allocate_concat:
  assumes "\<forall>p \<in> set ps. sha_wf p"
  shows "allocate_pieces (concat ps) = Ok ps"
proof -
  have "length (concat ps) mod SHA_HASH_LEN = 0" "chunks SHA_HASH_LEN (concat ps) = ps"
    using assms by (induction ps) (auto simp: sha_wf_def chunks_whole SHA_HASH_LEN_def)
  then show ?thesis by (simp add: allocate_pieces_def)
qed

text \<open>The entries of the dictionary that is written.\<close>

definition info_entries :: "info \<Rightarrow> mut_map" where
  "info_entries i =
    (let m = btm_insert PIECES_KEY (MutBytes (concat (info_pieces i))) (btm_insert PIECE_LENGTH_KEY (MutInt (piece_len i)) [])
     in case file_directory i of
       Some d \<Rightarrow> btm_insert FILES_KEY (MutList (map file_entry (info_files i))) (btm_insert NAME_KEY (MutBytes d) m)
     | None \<Rightarrow> btm_insert NAME_KEY (MutBytes (concat (path_iter (file_path (hd (info_files i))))))
         (btm_insert LENGTH_KEY (MutInt (file_len (hd (info_files i)))) m))"

lemma wf_info_len: "wf_info i \<Longrightarrow> f \<in> set (info_files i) \<Longrightarrow> uint (file_len f) \<le> i64_max"
proof -
  assume "wf_info i" "f \<in> set (info_files i)"
  then have "unat (file_len f) \<le> sum_list (map (unat \<circ> file_len) (info_files i))"
    by (intro member_le_sum_list) auto
  then have "int (unat (file_len f)) \<le> int (sum_list (map (unat \<circ> file_len) (info_files i)))"
    by (simp only: of_nat_le_iff)
  also have "\<dots> \<le> i64_max" using \<open>wf_info i\<close> by (simp add: wf_info_def)
  finally show ?thesis by simp
qed

lemma wf_info_piece_len: "wf_info i \<Longrightarrow> uint (piece_len i) \<le> i64_max"
  by (simp add: wf_info_def)

lemma update_info_entries:
  assumes "wf_info i"
  shows "update_info (unat (piece_len i)) (concat (info_pieces i)) (file_directory i) (files_info i) (MutDict []) =
    Ok (MutDict (info_entries i))"
proof -
  note n = i64_of_usize_len [OF wf_info_piece_len [OF assms]]
  have "\<forall>f \<in> set (info_files i). uint (file_len f) \<le> i64_max" using wf_info_len [OF assms] by blast
  note b = bencode_files_entries [OF this]
  show ?thesis
  proof (cases "file_directory i")
    case (Some d)
    then show ?thesis by (simp add: update_info_def insert_files_def info_entries_def n b)
  next
    case None
    then obtain f where f: "info_files i = [f]"
      using assms by (auto simp: wf_info_def)
    have "uint (file_len f) \<le> i64_max" using wf_info_len [OF assms, of f] f by simp
    note l = i64_of_usize_len [OF this]
    show ?thesis using None f by (simp add: update_info_def insert_files_def info_entries_def n l)
  qed
qed

lemma wf_info_entries:
  assumes "wf_info i"
  shows "wf_mut (MutDict (info_entries i))" and "nesting (MutDict (info_entries i)) \<le> 5"
proof -
  have paths: "f \<in> set (info_files i) \<Longrightarrow> file_directory i = Some d \<Longrightarrow> wf_mut (file_entry f)" for f d
    using assms key_lengths unfolding file_entry_def by (intro wf_ben_map) (auto simp: wf_info_def wf_path_def)
  have "nesting (MutList (map MutBytes cs)) \<le> 2" for cs :: "bytes list" by (induction cs) auto
  then have nest: "nesting (file_entry f) \<le> 3" for f
    unfolding file_entry_def numeral_3_eq_3 by (intro nesting_ben_map) (auto simp: numeral_2_eq_2)
  have files: "nesting (MutList (map file_entry fs)) \<le> 4" for fs
    using nest by (induction fs) (auto simp: numeral_eq_Suc)
  let ?P = "\<lambda>e. int (length (fst e)) \<le> i64_max \<and> wf_mut (snd e) \<and> nesting (snd e) \<le> 4"
  have "btm_wf (info_entries i)"
    by (auto simp: info_entries_def Let_def btm_wf_insert split: option.splits)
  moreover have "\<forall>e \<in> set (info_entries i). ?P e"
  proof (cases "file_directory i")
    case (Some d)
    show ?thesis
      unfolding info_entries_def Let_def Some option.case
      by (intro ball_btm_insert [where Q = ?P])
        (use assms key_lengths files paths Some in \<open>simp_all add: wf_info_def del: nesting.simps(3)\<close>)
  next
    case None
    then show ?thesis
      unfolding info_entries_def Let_def None option.case
      by (intro ball_btm_insert [where Q = ?P])
        (use assms key_lengths None in \<open>auto simp: wf_info_def\<close>)
  qed
  ultimately show "wf_mut (MutDict (info_entries i))" "nesting (MutDict (info_entries i)) \<le> 5"
    using nesting_dict_le [of "info_entries i" 4] by (simp_all add: numeral_eq_Suc)
qed

lemma parse_written_info:
  assumes "wf_info i"
  shows "parse_info_dictionary sha1 (annotate (MutDict (info_entries i))) =
    Ok (written_info sha1 (bencode_mut_encode (MutDict (info_entries i))) i)"
proof -
  have buf: "buffer (annotate (MutDict (info_entries i))) = bencode_mut_encode (MutDict (info_entries i))"
    unfolding buffer_annotate by (simp add: bencode_mut_encode_def)
  have d: "parse_root_dict (annotate (MutDict (info_entries i))) = Ok (annotate_dict (info_entries i))"
    by (simp add: parse_root_dict_def convert_built del: annotate.simps)
  note n = i64_to_u64_len [OF wf_info_piece_len [OF assms]]
  have a: "allocate_pieces (concat (info_pieces i)) = Ok (info_pieces i)"
    using assms by (intro allocate_concat) (simp add: wf_info_def)
  note look = lookup_built btm_get_insert info_entries_def parse_piece_length_def parse_private_def parse_pieces_def
    parse_name_def parse_files_list_def parse_length_def parse_md5sum_def is_multi_file_torrent_def as_single_file_def
  show ?thesis
  proof (cases "file_directory i")
    case (Some dir)
    have f: "parse_files (map annotate (map file_entry (info_files i))) = Ok (map (written_file (Some dir)) (info_files i))"
      using assms Some wf_info_len [OF assms] by (intro parse_files_entries) (auto simp: wf_info_def)
    have dir: "from_utf8 dir" using assms Some by (simp add: wf_info_def)
    have e: "btm_get ([] :: mut_map) k = None" for k by (simp add: btm_get_def)
    show ?thesis
      unfolding parse_info_dictionary_def buf d and_then.simps
      using Some a f dir
      by (simp add: n info_keys_neq look e Let_def written_info_def path_push_def del: annotate.simps map_map)
  next
    case None
    then obtain f where f: "info_files i = [f]" "from_utf8 (concat (path_iter (file_path f)))"
      using assms by (auto simp: wf_info_def)
    have "uint (file_len f) \<le> i64_max" using wf_info_len [OF assms, of f] f by simp
    note l = i64_to_u64_len [OF this]
    have e: "btm_get ([] :: mut_map) k = None" for k by (simp add: btm_get_def)
    show ?thesis
      unfolding parse_info_dictionary_def buf d and_then.simps
      using None a f
      by (simp add: n l info_keys_neq look e Let_def written_info_def written_file_def written_path_def del: annotate.simps map_map)
  qed
qed

section \<open>Writing a torrent file\<close>

lemma hasher_interface_I:
  "hasher_queues E work_items buffer_items \<Longrightarrow> reader (e_read E) contents \<Longrightarrow> 0 < n \<Longrightarrow> 0 < k \<Longrightarrow>
   hasher_interface E work_items buffer_items contents n k"
  by (intro hasher_interface.intro hasher_interface_axioms.intro)

lemma precomputed_pieces:
  assumes "hasher_queues E work_items buffer_items" and "reader (e_read E) contents" and "0 < n" and "0 < k" and "fair k schedule"
  shows "start_hasher_workers E schedule (map (\<lambda>h. Ok (PreComputed h)) hs) n k = Some (Ok (enumerate 0 hs))"
proof -
  obtain r where r: "start_hasher_workers E schedule (map (\<lambda>h. Ok (PreComputed h)) hs) n k = Some r"
      "hashed_ok E contents n (map (\<lambda>h. Ok (PreComputed h)) hs) r"
    using hasher_interface.start_hasher_workers_fair [OF hasher_interface_I [OF assms(1-4)] assms(5)] by blast
  then show ?thesis by (cases r) (auto simp: piece_hashes_precomputed)
qed

lemma fold_total:
  "fold (\<lambda>nex acc. acc + fst nex) fs a = a + of_nat (sum_list (map (unat \<circ> fst) fs))" for a :: u64
  by (induction fs arbitrary: a) auto

lemma total_bound:
  assumes "wf_info i"
  shows "uint (fold (\<lambda>nex acc. acc + fst nex) (files_info i) (0 :: u64)) \<le> i64_max"
proof -
  have "uint (of_nat (sum_list (map (unat \<circ> file_len) (info_files i))) :: u64) \<le> int (sum_list (map (unat \<circ> file_len) (info_files i)))"
    by (simp add: uint_nat unat_of_nat take_bit_nat_less_eq_self flip: take_bit_eq_mod)
  also have "\<dots> \<le> i64_max" using assms by (simp add: wf_info_def)
  finally show ?thesis by (simp add: fold_total comp_def)
qed

lemma quotient_in_range:
  assumes "uint (t :: u64) \<le> i64_max" and "0 < n"
  shows "in_i64_range (f64_div (f64_round (of_int (uint t))) (f64_round (of_nat n)))"
proof (rule in_i64_range_I)
  have "uint t \<le> 2 ^ 63" using assms(1) by (simp add: i64_max_def)
  then have "of_int (uint t) \<le> (2 :: rat) ^ 63"
    by (metis of_int_le_iff of_int_numeral of_int_power)
  then have t: "f64_round (of_int (uint t)) \<le> 2 ^ 63" by (rule f64_round_le_power)
  have n: "1 \<le> f64_round (of_nat n)" using assms(2) by (intro f64_round_ge_one) simp
  have "f64_round (of_int (uint t)) / f64_round (of_nat n) \<le> 2 ^ 63 / 1"
    using t n by (intro frac_le) (auto intro: f64_round_nonneg)
  then show "f64_div (f64_round (of_int (uint t))) (f64_round (of_nat n)) \<le> 2 ^ 63"
    unfolding f64_div_def by (intro f64_round_le_power) simp
qed (simp add: f64_div_def f64_round_nonneg)

lemma info_build_pieces:
  fixes E :: "('r, 'w, 'b) hasher_env"
  assumes "hasher_queues E work_items buffer_items" and "reader (e_read E) contents" and "fair 1 schedule" and "wf_info i"
    and "piece_len i \<noteq> 0"
  shows "build_with_accessor E schedule 1 (info_accessor i) opt_root (MutDict []) (Custom (unat (piece_len i))) =
    Some (finish_build (info_accessor i :: 'r accessor) opt_root (MutDict []) (unat (piece_len i)) (files_info i) (concat (info_pieces i)))"
proof -
  have files: "map (\<lambda>(len, path). (len, path_iter path)) (map (\<lambda>f. (file_len f, file_path f)) (info_files i)) = files_info i"
    by simp
  have n: "0 < unat (piece_len i)" using assms(5) by (simp add: unat_gt_0)
  have "build_pieces E schedule 1 (access_pieces (info_accessor i)) (fold (\<lambda>nex acc. acc + fst nex) (files_info i) (0 :: u64)) (unat (piece_len i)) =
    Some (Ok (concat (info_pieces i)))"
    using quotient_in_range [OF total_bound [OF assms(4)] n] n precomputed_pieces [OF assms(1,2) n _ assms(3)]
    by (simp add: build_pieces_def info_accessor_def map_pieces_list_def map_snd_enumerate del: of_int_uint)
  then show ?thesis
    by (simp add: build_with_accessor_def info_accessor_def files Let_def del: map_map)
qed

lemma private_flag_lost: "info_set_private_flag p info_builder_new = Ok info_builder_new"
  by (simp add: info_set_private_flag_def info_builder_new_def private_entry_empty)

lemma info_to_bytes_entries:
  fixes E :: "('r, 'w, 'b) hasher_env"
  assumes "hasher_queues E work_items buffer_items" and "reader (e_read E) contents" and "fair 1 schedule" and "wf_info i"
    and "piece_len i \<noteq> 0"
  shows "info_to_bytes E schedule i = Some (Ok (bencode_mut_encode (MutDict (info_entries i))))"
proof -
  have d: "access_directory (info_accessor i :: 'r accessor) = file_directory i" by (simp add: info_accessor_def)
  have b: "info_set_piece_length p info_builder_new = \<lparr>ib_info = MutDict [], ib_piece_length = p\<rparr>" for p
    by (simp add: info_set_piece_length_def info_builder_new_def)
  show ?thesis
    by (simp add: info_to_bytes_def run_builder_def private_flag_lost b info_build_def finish_build_def d
        info_build_pieces [OF assms] update_info_entries [OF assms(4)] del: One_nat_def)
qed

lemma info_roundtrip:
  assumes "hasher_queues E work_items buffer_items" and "reader (e_read E) contents" and "fair 1 schedule" and "wf_info i"
    and "piece_len i \<noteq> 0"
  obtains bs where "info_to_bytes E schedule i = Some (Ok bs)" and "parse_info_bytes sha1 bs = Ok (written_info sha1 bs i)"
proof -
  let ?b = "MutDict (info_entries i)"
  have "bencode_ref_decode (bencode_mut_encode ?b) bdecode_opt_default = Ok (annotate ?b)"
    using wf_info_entries [OF assms(4)] by (intro decode_built_full) (simp_all add: bdecode_opt_default_def)
  then have "parse_info_bytes sha1 (bencode_mut_encode ?b) = Ok (written_info sha1 (bencode_mut_encode ?b) i)"
    using parse_written_info [OF assms(4)] by (simp add: parse_info_bytes_def)
  then show thesis using that info_to_bytes_entries [OF assms] by blast
qed

definition wf_text :: "bytes option \<Rightarrow> bool" where
  "wf_text t \<longleftrightarrow> (\<forall>s. t = Some s \<longrightarrow> from_utf8 s \<and> int (length s) \<le> i64_max)"

definition wf_metainfo :: "metainfo \<Rightarrow> bool" where
  "wf_metainfo mi \<longleftrightarrow> wf_text (announce mi) \<and> wf_text (mi_comment mi) \<and> wf_text (created_by mi) \<and> wf_info (mi_info mi)"

definition root_entries :: "metainfo \<Rightarrow> mut_map" where
  "root_entries mi = set_entry CREATED_BY_KEY (map_option MutBytes (created_by mi))
    (set_entry COMMENT_KEY (map_option MutBytes (mi_comment mi))
    (set_entry CREATION_DATE_KEY (map_option MutInt (creation_date mi))
    (set_entry ANNOUNCE_URL_KEY (map_option MutBytes (announce mi)) [])))"

lemma get_set_entry: "btm_get (set_entry k v m) k' = (if k' = k then v else btm_get m k')"
  by (auto simp: set_entry_def btm_insert_entry_def btm_remove_entry_def btm_get_insert btm_get_remove split: option.splits)

lemma btm_wf_set_entry: "btm_wf m \<Longrightarrow> btm_wf (set_entry k v m)"
  by (auto simp: set_entry_def btm_insert_entry_def btm_remove_entry_def btm_wf_insert btm_wf_remove split: option.splits)

lemma ball_set_entry:
  "(\<And>v. opt = Some v \<Longrightarrow> Q (k, v)) \<Longrightarrow> \<forall>e \<in> set m. Q e \<Longrightarrow> \<forall>e \<in> set (set_entry k opt m). Q e"
  using ball_btm_insert [of Q k _ m]
  by (auto simp: set_entry_def btm_insert_entry_def btm_remove_entry_def btm_remove_def split: option.splits)

lemma written_root:
  assumes "wf_metainfo mi"
  defines "b \<equiv> MutDict (btm_insert INFO_KEY (MutDict (info_entries (mi_info mi))) (root_entries mi))"
  shows "wf_mut b" and "nesting b \<le> 6"
proof -
  let ?P = "\<lambda>e. int (length (fst e)) \<le> i64_max \<and> wf_mut (snd e) \<and> nesting (snd e) \<le> 5"
  have i: "wf_mut (MutDict (info_entries (mi_info mi)))" "nesting (MutDict (info_entries (mi_info mi))) \<le> 5"
    using wf_info_entries assms(1) unfolding wf_metainfo_def by blast+
  have "btm_wf (btm_insert INFO_KEY (MutDict (info_entries (mi_info mi))) (root_entries mi))"
    by (simp add: root_entries_def btm_wf_insert btm_wf_set_entry)
  moreover have "\<forall>e \<in> set (btm_insert INFO_KEY (MutDict (info_entries (mi_info mi))) (root_entries mi)). ?P e"
    unfolding root_entries_def
    by (intro ball_btm_insert [where Q = ?P] ball_set_entry [where Q = ?P])
      (use i key_lengths assms(1) in \<open>auto simp: wf_metainfo_def wf_text_def simp del: nesting.simps(4) wf_mut.simps(4)\<close>)
  ultimately show "wf_mut b" "nesting b \<le> 6"
    unfolding b_def using nesting_dict_le [of _ 5] by (simp_all add: numeral_eq_Suc)
qed

definition written_metainfo :: "(bytes \<Rightarrow> sha_hash) \<Rightarrow> metainfo \<Rightarrow> metainfo" where
  "written_metainfo sha1 mi =
    \<lparr>mi_comment = mi_comment mi, announce = announce mi, announce_list = None, mi_encoding = None, created_by = created_by mi,
     creation_date = creation_date mi,
     mi_info = written_info sha1 (bencode_mut_encode (MutDict (info_entries (mi_info mi)))) (mi_info mi)\<rparr>"

lemma parse_written_root:
  assumes "wf_metainfo mi"
  shows "parse_meta_bytes sha1 (bencode_mut_encode (MutDict (btm_insert INFO_KEY (MutDict (info_entries (mi_info mi))) (root_entries mi)))) =
    Ok (written_metainfo sha1 mi)"
proof -
  let ?m = "btm_insert INFO_KEY (MutDict (info_entries (mi_info mi))) (root_entries mi)"
  have dec: "bencode_ref_decode (bencode_mut_encode (MutDict ?m)) bdecode_opt_default = Ok (annotate (MutDict ?m))"
    using written_root [OF assms] by (intro decode_built_full) (simp_all add: bdecode_opt_default_def)
  have root: "parse_root_dict (annotate (MutDict ?m)) = Ok (annotate_dict ?m)"
    by (simp add: parse_root_dict_def convert_built del: annotate.simps)
  have info: "parse_info_bencode (annotate_dict ?m) = Ok (annotate (MutDict (info_entries (mi_info mi))))"
    by (simp add: parse_info_bencode_def lookup_key_def btm_get_insert ok_or_eqs del: annotate.simps)
  have dict: "parse_info_dictionary sha1 (annotate (MutDict (info_entries (mi_info mi)))) =
      Ok (written_info sha1 (bencode_mut_encode (MutDict (info_entries (mi_info mi)))) (mi_info mi))"
    using assms by (intro parse_written_info) (simp add: wf_metainfo_def)
  have e: "btm_get ([] :: mut_map) k = None" for k by (simp add: btm_get_def)
  have "parse_announce_url (annotate_dict ?m) = announce mi" "parse_comment (annotate_dict ?m) = mi_comment mi"
    "parse_created_by (annotate_dict ?m) = created_by mi" "parse_creation_date (annotate_dict ?m) = creation_date mi"
    "parse_encoding (annotate_dict ?m) = None" "parse_announce_list (annotate_dict ?m) = None"
    using assms
    by (auto simp: parse_announce_url_def parse_comment_def parse_created_by_def parse_creation_date_def parse_encoding_def
        parse_announce_list_def lookup_built btm_get_insert get_set_entry root_entries_def root_keys_neq e wf_metainfo_def wf_text_def
        split: option.splits)
  then show ?thesis
    unfolding parse_meta_bytes_def dec by (simp add: root info dict written_metainfo_def del: annotate.simps)
qed

lemma metainfo_to_bytes_entries:
  fixes E :: "('r, 'w, 'b) hasher_env"
  assumes "hasher_queues E work_items buffer_items" and "reader (e_read E) contents" and "fair 1 schedule" and "wf_metainfo mi"
    and "piece_len (mi_info mi) \<noteq> 0"
  shows "metainfo_to_bytes E schedule mi = Some (Ok (bencode_mut_encode
    (MutDict (btm_insert INFO_KEY (MutDict (info_entries (mi_info mi))) (root_entries mi)))))"
proof -
  have wf: "wf_info (mi_info mi)" using assms(4) by (simp add: wf_metainfo_def)
  have d: "access_directory (info_accessor (mi_info mi) :: 'r accessor) = file_directory (mi_info mi)" by (simp add: info_accessor_def)
  have ib: "ib_info info_builder_new = MutDict []" by (simp add: info_builder_new_def)
  show ?thesis
    by (simp add: metainfo_to_bytes_def run_builder_def metainfo_builder_new_def set_main_tracker_def set_creation_date_def
        set_comment_def set_created_by_def set_private_flag_def set_piece_length_def update_root_def private_flag_lost
        metainfo_build_def info_set_piece_length_def finish_build_def d update_info_entries [OF wf]
        info_build_pieces [OF assms(1-3) wf assms(5)] root_entries_def [symmetric] ib del: One_nat_def)
qed

text \<open>A piece length of zero is parsed without complaint, but such a torrent cannot be written.\<close>

lemma zero_piece_length_panics:
  fixes E :: "('r, 'w, 'b) hasher_env"
  assumes "piece_len (mi_info mi) = 0"
  shows "metainfo_to_bytes E schedule mi = Some Panic"
proof -
  have ib: "ib_info info_builder_new = MutDict []" by (simp add: info_builder_new_def)
  have a: "access_metadata (info_accessor i :: 'r accessor) = Ok (map (\<lambda>f. (file_len f, file_path f)) (info_files i))" for i
    by (simp add: info_accessor_def)
  show ?thesis
    by (simp add: metainfo_to_bytes_def run_builder_def metainfo_builder_new_def set_main_tracker_def set_creation_date_def
        set_comment_def set_created_by_def set_private_flag_def set_piece_length_def update_root_def private_flag_lost
        metainfo_build_def info_set_piece_length_def build_with_accessor_def a Let_def build_pieces_def assms ib)
qed

end
