(* ===== verification/Metainfo_Properties.thy ===== *)
theory Metainfo_Properties
  imports Metainfo_Builder_Correct
begin

text \<open>The properties of the metainfo package.\<close>

section \<open>Witness material\<close>

definition direct_env :: "(bytes, worker_message list, piece_buffer list) hasher_env" where
  "direct_env = \<lparr>e_work = list_queue, e_buffers = list_queue, e_read = cursor_read, e_sha1 = (\<lambda>bs. replicate 20 (of_nat (length bs)))\<rparr>"

lemma direct_env_queues: "hasher_queues direct_env (\<lambda>q. q) (\<lambda>q. q)"
  unfolding direct_env_def by (rule list_queues.hasher_queues_axioms)

lemma direct_env_reader: "reader (e_read direct_env) (\<lambda>r. r)"
  by (simp add: direct_env_def cursor.reader_axioms)

lemma alternating_fair: "fair (Suc 0) (\<lambda>n. n mod 2)"
proof -
  have "\<exists>m \<ge> n. m mod 2 = t" if "t \<le> Suc 0" for t n :: nat
    using that by (intro exI [of _ "2 * n + t"]) auto
  then show ?thesis by (simp add: fair_def)
qed

section \<open>The hasher\<close>

text \<open>
  C33. However the steps of the master and of the workers interleave, a result is the list of the hashes of
  consecutive pieces of the concatenated regions, in order and numbered from zero; the last piece may be short.
\<close>

theorem hasher_every_interleaving:
  assumes "hasher_queues E work_items buffer_items" and "reader (e_read E) contents"
    and "0 < piece_length" and "0 < num_workers"
    and "hasher_steps E (hasher_start E (map (\<lambda>r. Ok (Compute r)) regions) piece_length num_workers) s"
    and "h_master s = Returned (Ok pieces)"
  shows "pieces = enumerate 0 (map (from_bytes (e_sha1 E)) (chunks piece_length (concat (map contents regions))))"
proof -
  have q: "hasher_interface E work_items buffer_items contents piece_length num_workers"
    by (rule hasher_interface_I [OF assms(1-4)])
  have "h_master (hasher_queues.view work_items buffer_items s) = Returned (Ok pieces)"
    using hasher_queues.h_master_view [OF assms(1)] assms(6) by simp
  then show ?thesis
    using hasher_interface.steps_run_inv [OF q assms(5)] assms(3) by (simp add: run_inv_def piece_hashes_compute)
qed

definition direct_run :: "nat list \<Rightarrow> bytes list \<Rightarrow> (bytes, worker_message list, piece_buffer list) hasher" where
  "direct_run sched regions =
    fold (scheduled_step direct_env) sched (hasher_start direct_env (map (\<lambda>r. Ok (Compute r)) regions) 2 1)"

lemma scheduled_steps: "hasher_steps E s s' \<Longrightarrow> hasher_steps E s (scheduled_step E t s')"
  by (cases "thread_step E t s'") (auto simp: scheduled_step_def intro: hasher_steps.step)

lemma fold_scheduled: "hasher_steps E s s' \<Longrightarrow> hasher_steps E s (fold (scheduled_step E) ts s')"
  by (induction ts arbitrary: s') (auto intro: scheduled_steps)

theorem hasher_every_interleaving_witness:
  "h_master (direct_run (concat (replicate 20 [0, 1])) [[1, 2, 3], [4, 5]]) =
    Returned (Ok (enumerate 0 (map (from_bytes (e_sha1 direct_env)) (chunks 2 [1, 2, 3, 4, 5]))))"
proof -
  let ?s = "direct_run (concat (replicate 20 [0, 1])) [[1, 2, 3], [4, 5]]"
  have st: "hasher_steps direct_env (hasher_start direct_env (map (\<lambda>r. Ok (Compute r)) [[1, 2, 3], [4, 5]]) 2 1) ?s"
    unfolding direct_run_def by (intro fold_scheduled hasher_steps.start)
  have "\<exists>ps. h_master ?s = Returned (Ok ps)"
  proof -
    have "(case h_master ?s of Returned (Ok _) \<Rightarrow> True | _ \<Rightarrow> False)" by code_simp
    then show ?thesis by (auto split: master.splits outcome.splits)
  qed
  then obtain ps where ps: "h_master ?s = Returned (Ok ps)" by blast
  then show ?thesis
    using hasher_every_interleaving [OF direct_env_queues direct_env_reader _ _ st ps] by simp
qed

text \<open>
  C34. Under every schedule that keeps running all threads the hasher returns, and when no read fails the result is the
  list of the hashes. Any number of workers will do: two buffers for each are enough never to block.
\<close>

theorem hasher_returns:
  assumes "hasher_queues E work_items buffer_items" and "reader (e_read E) contents"
    and "0 < piece_length" and "0 < num_workers" and "fair num_workers schedule"
    and "\<forall>r k. \<exists>x. e_read E r k = Ok x"
  shows "start_hasher_workers E schedule (map (\<lambda>r. Ok (Compute r)) regions) piece_length num_workers =
    Some (Ok (enumerate 0 (map (from_bytes (e_sha1 E)) (chunks piece_length (concat (map contents regions))))))"
proof -
  let ?as = "map (\<lambda>r. Ok (Compute r)) regions"
  obtain r where r: "start_hasher_workers E schedule ?as piece_length num_workers = Some r"
      "hashed_ok E contents piece_length ?as r"
    using hasher_interface.start_hasher_workers_fair [OF hasher_interface_I [OF assms(1-4)] assms(5)] by blast
  have "\<forall>a \<in> set ?as. \<exists>x. a = Ok x" by simp
  then have "\<exists>ps. r = Ok ps" using r(2) assms(6) by (cases r) (simp only: hashed_ok.simps, blast)+
  then show ?thesis using r assms(3) by (auto simp: piece_hashes_compute)
qed

theorem hasher_returns_witness:
  "start_hasher_workers direct_env (\<lambda>n. n mod 2) (map (\<lambda>r. Ok (Compute r)) [[1, 2, 3], [4, 5]]) 2 (Suc 0) =
    Some (Ok (enumerate 0 (map (from_bytes (e_sha1 direct_env)) (chunks 2 [1, 2, 3, 4, 5]))))"
proof -
  have "\<forall>r k. \<exists>x. e_read direct_env r k = Ok x" by (simp add: direct_env_def cursor_read_def)
  then show ?thesis
    using hasher_returns [OF direct_env_queues direct_env_reader _ _ alternating_fair, of 2 "[[1, 2, 3], [4, 5]]"] by simp
qed

text \<open>
  C37. When reading fails, the master returns the error without telling the workers: from then on no worker is in, or
  will ever reach, the state in which it leaves its loop by itself. They keep polling an empty queue.
\<close>

theorem workers_outlive_failure:
  assumes "hasher_queues E work_items buffer_items" and "reader (e_read E) contents"
    and "0 < piece_length" and "0 < num_workers"
    and "hasher_steps E (hasher_start E accesses piece_length num_workers) s"
    and "h_master s = Returned (Err e)"
  shows "Stopping \<notin> set (h_workers s) \<and> Exited \<notin> set (h_workers s) \<and> Finish \<notin> set (work_items (h_work s))"
proof -
  have "never_told (hasher_queues.view work_items buffer_items s)"
    using hasher_interface.steps_failed_never_told [OF hasher_interface_I [OF assms(1-4)] assms(5)] assms(6) by blast
  then show ?thesis by (simp add: never_told_def hasher_queues.view_def [OF assms(1)])
qed

theorem workers_outlive_failure_witness:
  "h_workers (fold (scheduled_step direct_env) [0, 1, 1, 1] (hasher_start direct_env [Err ''disk''] 2 1)) = [Popping] \<and>
   Exited \<notin> set (h_workers (fold (scheduled_step direct_env) [0, 1, 1, 1] (hasher_start direct_env [Err ''disk''] 2 1)))"
proof
  let ?s = "fold (scheduled_step direct_env) [0, 1, 1, 1] (hasher_start direct_env [Err ''disk''] 2 1)"
  have st: "hasher_steps direct_env (hasher_start direct_env [Err ''disk''] 2 1) ?s"
    by (intro fold_scheduled hasher_steps.start)
  show "h_workers ?s = [Popping]" by code_simp
  have "h_master ?s = Returned (Err (PeIo ''disk''))" by code_simp
  then show "Exited \<notin> set (h_workers ?s)"
    using workers_outlive_failure [OF direct_env_queues direct_env_reader _ _ st] by simp
qed

section \<open>Building and parsing\<close>

text \<open>
  C35. What \<^verbatim>\<open>to_bytes\<close> writes of a torrent, and what the parser reads back. The comment, announce URL, author, date, piece
  length, pieces, directory and file lengths are the same. The announce list, the encoding, the MD5 sums and the
  private flag are lost. The info hash is not kept either: it is the hash of the info dictionary as written. The path
  of a file is read back as \<^const>\<open>written_path\<close> says: in a torrent with a directory its components joined by single
  separators, in a single file torrent its components joined by nothing, so that \<^verbatim>\<open>a/b\<close> comes back as \<^verbatim>\<open>ab\<close>. With a piece
  length of zero \<^verbatim>\<open>to_bytes\<close> panics. The texts are UTF-8, each piece hash has twenty bytes, the piece length and the
  total size are below two to the 63, a torrent without a directory has one file, and the hasher's queues, reader
  and schedule are those of its documentation.
\<close>

theorem to_bytes_roundtrip:
  assumes "hasher_queues E work_items buffer_items" and "reader (e_read E) contents" and "fair 1 schedule"
    and "wf_metainfo mi"
  shows "if piece_len (mi_info mi) = 0 then metainfo_to_bytes E schedule mi = Some Panic
    else \<exists>bs info_bs. metainfo_to_bytes E schedule mi = Some (Ok bs) \<and> info_to_bytes E schedule (mi_info mi) = Some (Ok info_bs) \<and>
      parse_meta_bytes sha1 bs = Ok \<lparr>mi_comment = mi_comment mi, announce = announce mi, announce_list = None, mi_encoding = None,
        created_by = created_by mi, creation_date = creation_date mi,
        mi_info = \<lparr>info_info_hash = from_bytes sha1 info_bs,
          info_files = map (\<lambda>f. \<lparr>file_len = file_len f, file_path = written_path (file_directory (mi_info mi)) (file_path f),
            file_md5sum = None\<rparr>) (info_files (mi_info mi)),
          info_pieces = info_pieces (mi_info mi), piece_len = piece_len (mi_info mi), is_private = None,
          file_directory = file_directory (mi_info mi)\<rparr>\<rparr>"
proof (cases "piece_len (mi_info mi) = 0")
  case False
  have wf: "wf_info (mi_info mi)" using assms(4) by (simp add: wf_metainfo_def)
  show ?thesis
    using metainfo_to_bytes_entries [OF assms False] info_to_bytes_entries [OF assms(1-3) wf False]
      parse_written_root [OF assms(4), of sha1] False
    by (simp add: written_metainfo_def written_info_def written_file_def [abs_def])
qed (simp add: zero_piece_length_panics)

definition sample_info :: info where
  "sample_info = \<lparr>info_info_hash = replicate 20 0, info_files = [\<lparr>file_len = 3, file_path = ascii ''a/b'', file_md5sum = None\<rparr>],
    info_pieces = [replicate 20 7], piece_len = 16, is_private = Some True, file_directory = None\<rparr>"

theorem to_bytes_roundtrip_witness:
  "\<exists>bs mi. metainfo_to_bytes direct_env (\<lambda>n. n mod 2) (metainfo_new sample_info) = Some (Ok bs) \<and>
    parse_meta_bytes (\<lambda>_. []) bs = Ok mi \<and> info_pieces (mi_info mi) = [replicate 20 7] \<and>
    map file_path (info_files (mi_info mi)) = [ascii ''ab''] \<and> is_private (mi_info mi) = None"
proof -
  let ?mi = "metainfo_new sample_info"
  have p: "concat (path_iter (ascii ''a/b'')) = ascii ''ab''" "from_utf8 (ascii ''ab'')" "length (ascii ''ab'') = 2" by code_simp+
  have "wf_metainfo ?mi"
    using p by (simp add: wf_metainfo_def wf_text_def metainfo_new_def sample_info_def wf_info_def sha_wf_def SHA_HASH_LEN_def i64_max_def)
  from to_bytes_roundtrip [OF direct_env_queues direct_env_reader alternating_fair [folded One_nat_def] this, of "\<lambda>_. []"]
  show ?thesis using p by (auto simp: metainfo_new_def sample_info_def written_path_def)
qed

text \<open>
  C36. The piece length chosen for a torrent is a power of two between the minimum of the chosen strategy and 16 MiB,
  for every total size; the floating point computation never leaves the range the code asserts.
\<close>

theorem piece_length_power_of_two:
  assumes "\<forall>n. strategy \<noteq> Custom n"
  shows "\<exists>k. determine_piece_length total_size strategy = (Ok (2 ^ k) :: ('e, nat) outcome) \<and>
    min_piece_length strategy \<le> 2 ^ k \<and> 2 ^ k \<le> ALL_OPT_MAX_PIECE_LENGTH"
  by (rule determine_piece_length_power [OF assms])

theorem piece_length_power_of_two_witness:
  "\<exists>k. determine_piece_length (2 ^ 40) OptTransfer = (Ok (2 ^ k) :: (unit, nat) outcome) \<and> (2 :: nat) ^ k \<le> 16777216"
  using piece_length_power_of_two [of OptTransfer "2 ^ 40"] by (auto simp: ALL_OPT_MAX_PIECE_LENGTH_def)

text \<open>
  C38. A negative piece length in an info dictionary, which may come from another peer, makes the parser panic instead
  of returning an error.
\<close>

theorem negative_piece_length_panics:
  assumes "wf_mut (MutDict m)" and "nesting (MutDict m) \<le> 50"
    and "btm_get m PIECE_LENGTH_KEY = Some (MutInt n)" and "sint n < 0"
  shows "parse_info_bytes sha1 (bencode_mut_encode (MutDict m)) = Panic"
proof -
  have "bencode_ref_decode (bencode_mut_encode (MutDict m)) bdecode_opt_default = Ok (annotate (MutDict m))"
    using assms(1,2) by (intro decode_built_full) (simp_all add: bdecode_opt_default_def)
  moreover have "parse_root_dict (annotate (MutDict m)) = Ok (annotate_dict m)"
    by (simp add: parse_root_dict_def convert_built del: annotate.simps)
  moreover have "parse_piece_length (annotate_dict m) = Panic"
    using assms(3,4) by (simp add: parse_piece_length_def lookup_built i64_to_u64_def)
  ultimately show ?thesis by (simp add: parse_info_bytes_def parse_info_dictionary_def del: annotate.simps)
qed

theorem negative_piece_length_panics_witness:
  "parse_info_bytes (\<lambda>_. []) (ascii ''d12:piece lengthi-1ee'') = Panic"
proof -
  have "bencode_mut_encode (MutDict [(PIECE_LENGTH_KEY, MutInt (- 1))]) = ascii ''d12:piece lengthi-1ee''" by code_simp
  moreover have "parse_info_bytes (\<lambda>_. []) (bencode_mut_encode (MutDict [(PIECE_LENGTH_KEY, MutInt (- 1))])) = Panic"
    by (rule negative_piece_length_panics [of _ "- 1"]) (simp_all add: btm_get_def metainfo_keys ascii_def i64_max_def)
  ultimately show ?thesis by simp
qed

end
