(* ===== verification/Spec2Isabelle.thy ===== *)
theory Spec2Isabelle
  imports Bencode_Properties Bencode_Convert Util_Properties Dht_Properties Peer_Properties Handshake_Properties Metainfo_Properties
begin

text \<open>
  A verification development of the BitTorrent packages under \<^verbatim>\<open>src/packages\<close>.

  \<^bold>\<open>The program.\<close> The packages are libraries that a BitTorrent client is put together from. \<^verbatim>\<open>bencode\<close> reads and
  writes the data format of everything else. \<^verbatim>\<open>util\<close> has the 20-byte hashes, socket addresses as bytes, buffers and
  transaction identifiers. \<^verbatim>\<open>metainfo\<close> parses torrent files and builds them, with a pool of threads that hash the
  pieces. \<^verbatim>\<open>handshake\<close> opens connections: two peers exchange one message each, subject to filters. \<^verbatim>\<open>peer\<close> is the
  protocol on an open connection, a codec over nested protocols. \<^verbatim>\<open>dht\<close> finds peers: a routing table of nodes, tokens
  and stored announcements. \<^verbatim>\<open>dht\<close>, \<^verbatim>\<open>peer\<close> and \<^verbatim>\<open>metainfo\<close> use \<^verbatim>\<open>bencode\<close>, and all use \<^verbatim>\<open>util\<close>.

  \<^bold>\<open>Conventions.\<close> Unsigned integers are words of their width, an \<^verbatim>\<open>i64\<close> is a 64-bit word read with \<^const>\<open>sint\<close>, a \<^verbatim>\<open>usize\<close> is a
  natural number. A function that can fail returns an \<^typ>\<open>('e, 'a) outcome\<close>: a value, an error, or a panic (unwrap, assertion,
  index out of range). Objects are records and methods return the new object. Sums of file lengths wrap as in a
  release build; a subtraction that the code does not guard panics as in a debug build where that matters. Constants keep the
  names of the source. A \<^verbatim>\<open>BTreeMap\<close> is a sorted association list, a \<^verbatim>\<open>HashMap\<close> a map or an association list. Code of other
  crates is a parameter with its documented behaviour as a hypothesis or locale, and there is a concrete instance of
  each: the hash function, random numbers, the number parsers of \<^verbatim>\<open>nom\<close> and the writers of \<^verbatim>\<open>byteorder\<close> (\<^const>\<open>wire_spec\<close>), sockets
  (\<^const>\<open>socket_spec\<close>), the queue of \<^verbatim>\<open>crossbeam\<close>, readers and CRC32.

  \<^bold>\<open>Shared theories.\<close> \<open>Prelude\<close> (integers, outcomes, slices, lists), \<open>Byte_Order\<close> (big-endian bytes), \<open>Ordered_Map\<close> (\<^verbatim>\<open>BTreeMap\<close>
  and the interface \<^verbatim>\<open>BDictAccess\<close> as a locale), \<open>Std_Text\<close> (UTF-8 and decimal numbers), \<open>Wire_Bytes\<close> (byte parsers and writers).

  \<^bold>\<open>bencode.\<close> \<open>Bencode\<close> has the decoder of \<^verbatim>\<open>reference/decode.rs\<close>, the encoder of \<^verbatim>\<open>mutable/encode.rs\<close> and the access traits (locale
  \<open>bref_access\<close>, interpreted for both value types); \<open>Bencode_Convert\<close> the conversions of \<^verbatim>\<open>access/convert.rs\<close>. \<open>Bencode_Correct\<close> and
  \<open>Bencode_Dict\<close> prove what \<open>Bencode_Properties\<close> states: the decoder inverts the encoder, accepts canonical input only (but for a
  plus sign), never panics, keeps to the recursion limit, and hands out buffers that are the bytes of the value.

  \<^bold>\<open>util.\<close> \<open>Util_Convert\<close> (\<^verbatim>\<open>convert.rs\<close>, \<^verbatim>\<open>net.rs\<close>), \<open>Util_Sha\<close> (\<^verbatim>\<open>sha\<close>), \<open>Util_Buffer\<close> (\<^verbatim>\<open>contiguous.rs\<close>; the trait is the locale
  \<open>contiguous_buffer\<close>, which holds for one vector, and for several as long as they are filled from the front), \<open>Util_Trans\<close>
  (\<^verbatim>\<open>trans\<close> and the shuffle of \<^verbatim>\<open>lib.rs\<close>). \<open>Util_Properties\<close>: common prefixes, address bytes, where a write to several buffers
  puts the data, identifiers that do not repeat.

  \<^bold>\<open>dht.\<close> \<open>Dht_Node\<close>, \<open>Dht_Bucket\<close>, \<open>Dht_Table\<close> and \<open>Dht_Closest\<close> model \<^verbatim>\<open>routing\<close>; \<open>Dht_Table_Correct\<close> and \<open>Dht_Lookup\<close> prove the invariant
  of the table, that insertion returns and keeps good nodes, and what the lookups return. \<open>Dht_Token\<close>, \<open>Dht_Storage\<close>,
  \<open>Dht_Transaction\<close> (the allocation of identifiers in blocks is the locale \<open>block_generator\<close>, interpreted for both generators) and
  \<open>Dht_Security\<close> model the files of the same names. Recursion between insertion and splitting is bounded by fuel: a call of
  \<^const>\<open>add_node\<close> starts with one unit more than there can be buckets, and the first property of the table shows that it never
  runs out on a well-formed table.

  \<^bold>\<open>peer.\<close> \<open>Peer_Standard\<close>, \<open>Peer_Extended\<close>, \<open>Peer_Ut_Metadata\<close> and \<open>Peer_Wire\<close> model \<^verbatim>\<open>message\<close>, \<^verbatim>\<open>protocol\<close> and \<^verbatim>\<open>codec.rs\<close>; protocols are
  records of methods and nest as in the code. \<open>Peer_Codec\<close> has the contract of a protocol whose messages are frames (locale
  \<open>framed_protocol\<close>) and what the codec makes of it. \<open>Peer_Properties\<close>: frames, round trips of message bodies, and the places
  where the code departs from its documentation. The parser of whole messages takes every frame for a keep-alive
  message; the round trips of bodies and of the extended handshake are therefore stated of their own parsers.

  \<^bold>\<open>handshake.\<close> \<open>Handshake_Message\<close>, \<open>Handshake_Framed\<close> (the polled state machine of \<^verbatim>\<open>bittorrent/framed.rs\<close> against any socket) and
  \<open>Handshake_Handler\<close> (filters and handlers). A bound on the number of polls stands for the timeout. The properties hold for every
  bound, and say how many polls are enough. A handler that panics ends its loop as one that fails does: the task is gone in both cases.

  \<^bold>\<open>metainfo.\<close> \<open>Metainfo_Parse\<close> models \<^verbatim>\<open>metainfo.rs\<close> and \<^verbatim>\<open>parse.rs\<close>; \<open>Metainfo_Hasher\<close> models \<^verbatim>\<open>builder/worker.rs\<close> and \<^verbatim>\<open>buffer.rs\<close> as threads
  that take one step at a time (locales \<open>fifo_queue\<close>, \<open>reader\<close>, \<open>hasher_queues\<close>, \<open>hasher_interface\<close>); \<open>Metainfo_Builder\<close> models
  \<^verbatim>\<open>builder/mod.rs\<close>, with floating point as rounding to 53 bits. \<open>Metainfo_Hasher_Correct\<close> and \<open>Metainfo_Hasher_Run\<close> prove an invariant of
  every interleaving, a measure and progress. The run of a schedule is a partial function, so that not returning is
  \<^const>\<open>None\<close>, and it is proved that every fair schedule returns. \<open>Metainfo_Builder_Correct\<close> proves the piece length and what the parser reads
  back from a torrent that was written.

  \<^bold>\<open>Not modelled.\<close> The event loop, lookups and wire messages of \<^verbatim>\<open>dht\<close>, the manager of \<^verbatim>\<open>peer\<close>, the construction of \<^verbatim>\<open>handshake\<close>, all
  of \<^verbatim>\<open>disk\<close> and \<^verbatim>\<open>select\<close>: they are tasks, timers, files and channels of \<^verbatim>\<open>tokio\<close> and \<^verbatim>\<open>futures\<close> around the modelled parts. \<^verbatim>\<open>magnet\<close>,
  \<^verbatim>\<open>info-hash\<close> and \<^verbatim>\<open>peer-id\<close> are small and separate. Of \<^verbatim>\<open>metainfo\<close> the accessor for directories and the progress callback are left out.
\<close>

end
